(* ===== verification/Prelude.thy ===== *)
theory Prelude
  imports Main "HOL-Library.Word" "HOL-Library.Multiset"
begin

text \<open>
  Shared vocabulary of the development: the machine integers and run-time notions of Go the
  components use (fixed-width integers, panics, buffered channels, the close of a signal
  channel), the collections of facts the component proofs draw on, and the generic
  interfaces of the development: a bounded queue, an operation that conserves the items it handles, an
  invariant of a transition system, and two for progress, a goal that some move always brings nearer
  and work that every move uses up.
\<close>

named_theorems conserves "conservation laws: every item is pending, delivered or reported"
named_theorems frames "fields an operation leaves unchanged"
named_theorems preserves "an operation keeps an invariant"

section \<open>Machine integers and panics of Go\<close>

type_synonym u8 = "8 word"
type_synonym u32 = "32 word"
type_synonym u64 = "64 word"
type_synonym bytes = "u8 list"

text \<open>
  \<open>uint\<close> is 64 bits wide on the platforms the collector is built for. The conversion
  \<open>int64(x)\<close> of a \<open>uint64\<close> reads the same bits as two's complement.
\<close>

definition int64_of_uint64 :: "u64 \<Rightarrow> int" where
  "int64_of_uint64 x = sint x"

text \<open>The length of a slice as an unsigned integer, as in \<open>uint(len(b))\<close>.\<close>

definition uint_len :: "'a list \<Rightarrow> u64" where
  "uint_len xs = of_nat (length xs)"

text \<open>Division of \<open>int64\<close> values truncates towards zero.\<close>

definition go_quot :: "int \<Rightarrow> int \<Rightarrow> int" where
  "go_quot a b = sgn a * sgn b * (\<bar>a\<bar> div \<bar>b\<bar>)"

datatype panic =
    NilDereference
  | IndexOutOfRange
  | CloseOfClosedChannel
  | IntegerDivideByZero
  | NonPositiveTicker
  | NegativeWaitGroup

lemma go_quot_nonneg: "0 \<le> a \<Longrightarrow> 0 < b \<Longrightarrow> go_quot a b = a div b"
  by (cases "a = 0") (auto simp: go_quot_def sgn_if)

lemma unat_uint_len: "length xs < 2 ^ 64 \<Longrightarrow> unat (uint_len xs) = length xs"
  by (simp add: uint_len_def unat_of_nat take_bit_nat_eq_self)

lemma unat_add_no_wrap:
  fixes a b :: u64
  assumes "unat a + unat b < 2 ^ 64"
  shows "unat (a + b) = unat a + unat b"
  using assms by (simp add: unat_word_ariths)

lemma less_unat_pos: "n < unat w \<Longrightarrow> 0 < w"
  by (cases "w = 0") (auto simp: word_neq_0_conv)

text \<open>\<open>strings.ToLower\<close> on ASCII letters.\<close>

definition lowerChar :: "char \<Rightarrow> char" where
  "lowerChar c = (let n = of_char c :: nat in if 65 \<le> n \<and> n \<le> 90 then char_of (n + 32) else c)"

definition ToLower :: "string \<Rightarrow> string" where
  "ToLower = map lowerChar"

section \<open>Buffered channels\<close>

text \<open>
  A buffered channel of Go: a capacity and the items in flight, oldest first. A send on a
  full channel blocks, which is the value \<open>None\<close> here; so does a receive on an empty one.
  In a \<open>select\<close> with a \<open>default\<close> branch the \<open>None\<close> is the default branch.
\<close>

record 'a chan =
  chan_cap :: nat
  chan_items :: "'a list"

definition make_chan :: "nat \<Rightarrow> 'a chan" where
  "make_chan n = \<lparr>chan_cap = n, chan_items = []\<rparr>"

definition chan_send :: "'a \<Rightarrow> 'a chan \<Rightarrow> 'a chan option" where
  "chan_send x c =
     (if length (chan_items c) < chan_cap c
      then Some (c\<lparr>chan_items := chan_items c @ [x]\<rparr>) else None)"

definition chan_recv :: "'a chan \<Rightarrow> ('a \<times> 'a chan) option" where
  "chan_recv c =
     (case chan_items c of [] \<Rightarrow> None | x # xs \<Rightarrow> Some (x, c\<lparr>chan_items := xs\<rparr>))"

definition chan_wf :: "'a chan \<Rightarrow> bool" where
  "chan_wf c \<longleftrightarrow> length (chan_items c) \<le> chan_cap c"

text \<open>
  The contract of a bounded queue, as its clients use it: a send appends at the back and is
  refused exactly when the queue is full, a receive takes the oldest item, and neither
  breaks the bound.
\<close>

locale bounded_queue =
  fixes empty :: "nat \<Rightarrow> 'q"
    and send :: "'a \<Rightarrow> 'q \<Rightarrow> 'q option"
    and recv :: "'q \<Rightarrow> ('a \<times> 'q) option"
    and items :: "'q \<Rightarrow> 'a list"
    and cap :: "'q \<Rightarrow> nat"
    and invar :: "'q \<Rightarrow> bool"
  assumes items_empty: "items (empty n) = []"
    and cap_empty: "cap (empty n) = n"
    and invar_empty: "invar (empty n)"
    and send_None: "send x q = None \<longleftrightarrow> \<not> length (items q) < cap q"
    and send_Some: "send x q = Some q' \<Longrightarrow> items q' = items q @ [x] \<and> cap q' = cap q"
    and recv_None: "recv q = None \<longleftrightarrow> items q = []"
    and recv_Some: "recv q = Some (y, q') \<Longrightarrow> items q = y # items q' \<and> cap q' = cap q"
    and invar_bound: "invar q \<longleftrightarrow> length (items q) \<le> cap q"
begin

lemma invar_send: "send x q = Some q' \<Longrightarrow> invar q'"
  using send_None [of x q] send_Some [of x q q'] by (auto simp: invar_bound)

lemma invar_recv: "invar q \<Longrightarrow> recv q = Some (y, q') \<Longrightarrow> invar q'"
  using recv_Some [of q y q'] by (auto simp: invar_bound)

lemma full_when_refused: "invar q \<Longrightarrow> send x q = None \<Longrightarrow> length (items q) = cap q"
  using send_None [of x q] by (auto simp: invar_bound)

lemma send_mset: "send x q = Some q' \<Longrightarrow> mset (items q') = add_mset x (mset (items q))"
  using send_Some [of x q q'] by simp

lemma recv_mset: "recv q = Some (y, q') \<Longrightarrow> mset (items q) = add_mset y (mset (items q'))"
  using recv_Some [of q y q'] by simp

text \<open>First in, first out: what is sent into an empty queue is what is received.\<close>

lemma send_recv_empty:
  assumes "send x (empty n) = Some q"
  shows "\<exists>q'. recv q = Some (x, q') \<and> items q' = []"
proof (cases "recv q")
  case None
  with assms show ?thesis
    by (auto simp: recv_None dest!: send_Some)
next
  case (Some p)
  then obtain y q' where p: "recv q = Some (y, q')" by (cases p) simp
  from send_Some [OF assms] recv_Some [OF p] show ?thesis
    by (simp add: p items_empty)
qed

end

interpretation gochan: bounded_queue make_chan chan_send chan_recv chan_items chan_cap chan_wf
  by unfold_locales
    (auto simp: make_chan_def chan_send_def chan_recv_def chan_wf_def split: if_splits list.splits)

section \<open>Signal channels and sync.Once\<close>

text \<open>
  A channel used only to be closed is a flag. Closing it twice panics.
\<close>

definition close_signal :: "bool \<Rightarrow> panic + bool" where
  "close_signal closed = (if closed then Inl CloseOfClosedChannel else Inr True)"

text \<open>
  \<open>once.Do(f)\<close>: the flag tells whether \<open>f\<close> has run; the state is the one \<open>f\<close> works
  on. The result tells whether \<open>f\<close> ran in this call.
\<close>

definition once_do :: "bool \<Rightarrow> ('s \<Rightarrow> 's) \<Rightarrow> 's \<Rightarrow> bool \<times> 's" where
  "once_do fired f s = (if fired then (True, s) else (True, f s))"

section \<open>Invariants of transition systems\<close>

locale transition_invariant =
  fixes init :: "'s \<Rightarrow> bool"
    and step :: "'s \<Rightarrow> 's \<Rightarrow> bool"
    and inv :: "'s \<Rightarrow> bool"
  assumes init_inv: "init s \<Longrightarrow> inv s"
    and step_inv: "step s t \<Longrightarrow> inv s \<Longrightarrow> inv t"
begin

lemma run_inv: "step\<^sup>*\<^sup>* s t \<Longrightarrow> inv s \<Longrightarrow> inv t"
  by (induction rule: rtranclp_induct) (auto intro: step_inv)

lemma reachable_inv: "init s \<Longrightarrow> step\<^sup>*\<^sup>* s t \<Longrightarrow> inv t"
  by (blast intro: run_inv init_inv)

end

section \<open>Progress\<close>

text \<open>
  Two ways to come to an end. In the first, something can be done about every state short of the goal
  that makes a load smaller; then the goal can be reached. In the second, every step makes the
  load smaller, so that every run ends after at most as many steps as the load says.
\<close>

locale leads_to =
  fixes run :: "'s \<Rightarrow> 's \<Rightarrow> bool"
    and inv :: "'s \<Rightarrow> bool"
    and goal :: "'s \<Rightarrow> bool"
    and load :: "'s \<Rightarrow> nat"
  assumes run_refl: "run s s"
    and run_trans: "run s t \<Longrightarrow> run t u \<Longrightarrow> run s u"
    and advance: "inv s \<Longrightarrow> \<not> goal s \<Longrightarrow> \<exists>t. run s t \<and> inv t \<and> load t < load s"
begin

lemma reaches_goal: "inv s \<Longrightarrow> \<exists>t. run s t \<and> inv t \<and> goal t"
proof (induction "load s" arbitrary: s rule: less_induct)
  case less
  show ?case
  proof (cases "goal s")
    case False
    with advance [OF less.prems] obtain t where "run s t" "inv t" "load t < load s" by blast
    with less.hyps [of t] show ?thesis by (blast intro: run_trans)
  qed (use less.prems run_refl in blast)
qed

end

locale bounded_progress =
  fixes step :: "'s \<Rightarrow> 's \<Rightarrow> bool"
    and inv :: "'s \<Rightarrow> bool"
    and load :: "'s \<Rightarrow> nat"
  assumes step_inv: "step s t \<Longrightarrow> inv s \<Longrightarrow> inv t"
    and step_load: "step s t \<Longrightarrow> inv s \<Longrightarrow> load t < load s"
begin

lemma run_inv: "step\<^sup>*\<^sup>* s t \<Longrightarrow> inv s \<Longrightarrow> inv t"
  by (induction rule: rtranclp_induct) (auto intro: step_inv)

lemma run_load: "(step ^^ n) s t \<Longrightarrow> inv s \<Longrightarrow> load t + n \<le> load s"
proof (induction n arbitrary: t)
  case (Suc n)
  then obtain r where r: "(step ^^ n) s r" "step r t" by auto
  from run_inv [OF relpowp_imp_rtranclp [OF r(1)] Suc.prems(2)] Suc.IH [OF r(1) Suc.prems(2)] step_load [OF r(2)]
  show ?case by simp
qed simp

lemma run_bound: "(step ^^ n) s t \<Longrightarrow> inv s \<Longrightarrow> n \<le> load s"
  using run_load [of n s t] by simp

end

sublocale bounded_progress \<subseteq> stuck: leads_to "step\<^sup>*\<^sup>*" inv "\<lambda>s. \<nexists>t. step s t" load
proof
  show "\<exists>t. step\<^sup>*\<^sup>* s t \<and> inv t \<and> load t < load s" if "inv s" "\<not> (\<nexists>t. step s t)" for s
    using that step_inv step_load by blast
qed auto

section \<open>Operations that conserve items\<close>

text \<open>
  A component takes items in, holds some of them and hands the others out in the outputs
  of its operations. \<open>held\<close> counts what it holds, \<open>took\<close> what an input brings and
  \<open>gave\<close> what an output carries. When every operation conserves the items, so does every
  sequence of operations.
\<close>

fun run_ops :: "('i \<Rightarrow> 's \<Rightarrow> 's \<times> 'o list) \<Rightarrow> 'i list \<Rightarrow> 's \<Rightarrow> 's \<times> 'o list" where
  "run_ops f [] s = (s, [])"
| "run_ops f (i # is) s =
     (case f i s of (s1, o1) \<Rightarrow> case run_ops f is s1 of (s2, o2) \<Rightarrow> (s2, o1 @ o2))"

locale conserving_ops =
  fixes oper :: "'i \<Rightarrow> 's \<Rightarrow> 's \<times> 'o list"
    and held :: "'s \<Rightarrow> 'k multiset"
    and took :: "'i \<Rightarrow> 'k multiset"
    and gave :: "'o list \<Rightarrow> 'k multiset"
  assumes gave_Nil: "gave [] = {#}"
    and gave_append: "gave (xs @ ys) = gave xs + gave ys"
    and oper_conserves: "oper i s = (s', out) \<Longrightarrow> held s' + gave out = held s + took i"
begin

lemma run_conserves:
  "run_ops oper is s = (s', out) \<Longrightarrow> held s' + gave out = held s + (\<Sum>i\<leftarrow>is. took i)"
proof (induction "is" arbitrary: s s' out)
  case Nil
  then show ?case by (simp add: gave_Nil)
next
  case (Cons i "is")
  obtain s1 o1 where 1: "oper i s = (s1, o1)" by fastforce
  obtain s2 o2 where 2: "run_ops oper is s1 = (s2, o2)" by fastforce
  from Cons.prems 1 2 have eqs: "s' = s2" "out = o1 @ o2" by auto
  have "held s2 + gave (o1 @ o2) = (held s2 + gave o2) + gave o1"
    by (simp add: gave_append ac_simps)
  also have "\<dots> = (held s1 + gave o1) + (\<Sum>i\<leftarrow>is. took i)"
    using Cons.IH [OF 2] by (simp add: ac_simps)
  also have "\<dots> = held s + (\<Sum>i\<leftarrow>i # is. took i)"
    using oper_conserves [OF 1] by (simp add: ac_simps)
  finally show ?case by (simp add: eqs)
qed

text \<open>Once the component holds nothing, everything it was given has been handed out.\<close>

lemma run_drained:
  assumes "run_ops oper is s = (s', out)" and "held s = {#}" and "held s' = {#}"
  shows "gave out = (\<Sum>i\<leftarrow>is. took i)"
  using run_conserves [OF assms(1)] assms(2,3) by simp

end

section \<open>Lists, options and multisets\<close>

lemma sum_list_mset_map [simp]: "(\<Sum>x\<leftarrow>xs. {#f x#}) = mset (map f xs)"
  by (induction xs) auto

lemma find_None_conv: "List.find P xs = None \<longleftrightarrow> (\<forall>x \<in> set xs. \<not> P x)"
  by (induction xs) auto

lemma sorted_wrt_nth_unique:
  assumes "sorted_wrt R xs" and "i < length xs" and "j < length xs"
    and "P (xs ! i)" and "P (xs ! j)" and "\<And>x y. R x y \<Longrightarrow> P x \<Longrightarrow> \<not> P y"
  shows "i = j"
proof (rule ccontr)
  assume "i \<noteq> j"
  then consider "i < j" | "j < i" by linarith
  then show False
  proof cases
    case 1
    with assms(1,3) have "R (xs ! i) (xs ! j)" by (simp add: sorted_wrt_iff_nth_less)
    with assms(4-6) show False by blast
  next
    case 2
    with assms(1,2) have "R (xs ! j) (xs ! i)" by (simp add: sorted_wrt_iff_nth_less)
    with assms(4-6) show False by blast
  qed
qed

text \<open>A pairwise property that is symmetric does not depend on the order of the list.\<close>

lemma sorted_wrt_sym_perm:
  assumes sym: "\<And>a b. D a b \<Longrightarrow> D b a"
  shows "mset xs = mset ys \<Longrightarrow> sorted_wrt D xs \<longleftrightarrow> sorted_wrt D ys"
proof (induction xs arbitrary: ys)
  case Nil
  then show ?case by simp
next
  case (Cons x xs)
  then have "x \<in> set ys" by (metis list.set_intros(1) mset_eq_setD)
  then obtain us vs where ys: "ys = us @ x # vs" by (meson split_list)
  with Cons.prems have perm: "mset xs = mset (us @ vs)" by simp
  then have "set xs = set us \<union> set vs" by (metis mset_eq_setD set_append)
  with Cons.IH [OF perm] show ?case
    by (auto simp: ys sorted_wrt_append intro: sym)
qed

text \<open>An asymmetric order leaves one way only to arrange a multiset.\<close>

lemma sorted_wrt_asym_unique:
  assumes asym: "\<And>a b. R a b \<Longrightarrow> \<not> R b a"
  shows "mset xs = mset ys \<Longrightarrow> sorted_wrt R xs \<Longrightarrow> sorted_wrt R ys \<Longrightarrow> xs = ys"
proof (induction xs arbitrary: ys)
  case Nil
  then show ?case by simp
next
  case (Cons x xs)
  then obtain y ys' where ys: "ys = y # ys'" by (cases ys) auto
  have "x = y"
  proof (rule ccontr)
    assume "x \<noteq> y"
    with Cons.prems(1) ys have "x \<in> set ys'" "y \<in> set xs"
      by (metis list.set_intros(1) mset_eq_setD set_ConsD)+
    with Cons.prems(2,3) ys have "R x y" "R y x" by auto
    with asym show False by blast
  qed
  with Cons ys show ?case by auto
qed

text \<open>Replacing one element of a list changes a sum by that element only.\<close>

lemma sum_list_update_add:
  fixes f :: "'a \<Rightarrow> 'b::comm_monoid_add"
  assumes "i < length xs"
  shows "(\<Sum>x\<leftarrow>xs[i := y]. f x) + f (xs ! i) = (\<Sum>x\<leftarrow>xs. f x) + f y"
  using assms
proof (induction xs arbitrary: i)
  case (Cons x xs)
  then show ?case by (cases i) (simp_all add: ac_simps)
qed simp

lemma sum_list_update_mset:
  fixes f :: "'a \<Rightarrow> 'b multiset"
  assumes "i < length xs" and "f y + d = f (xs ! i) + e"
  shows "(\<Sum>x\<leftarrow>xs[i := y]. f x) + d = (\<Sum>x\<leftarrow>xs. f x) + e"
proof -
  have "((\<Sum>x\<leftarrow>xs[i := y]. f x) + d) + f (xs ! i) = ((\<Sum>x\<leftarrow>xs. f x) + e) + f (xs ! i)"
    using sum_list_update_add [OF assms(1), of f y] assms(2) by (simp add: ac_simps)
  then show ?thesis by simp
qed

lemma sum_list_update_same:
  fixes f :: "'a \<Rightarrow> 'b multiset"
  assumes "i < length xs \<Longrightarrow> f y = f (xs ! i)"
  shows "(\<Sum>x\<leftarrow>xs[i := y]. f x) = (\<Sum>x\<leftarrow>xs. f x)"
proof (cases "i < length xs")
  case True
  with sum_list_update_mset [OF True, of f y "{#}" "{#}"] assms show ?thesis by simp
qed (simp add: list_update_beyond)

lemma all_set_update:
  "\<forall>x \<in> set xs. P x \<Longrightarrow> (i < length xs \<Longrightarrow> P (xs ! i) \<Longrightarrow> P y) \<Longrightarrow> \<forall>x \<in> set (xs[i := y]). P x"
  by (cases "i < length xs") (auto simp: list_update_beyond dest!: set_update_subset_insert [THEN subsetD])

text \<open>Moving a quantity between a shared part and one of several goroutines.\<close>

lemma exchange_sum:
  fixes E :: "'a::cancel_comm_monoid_add"
  assumes "E' + W' + V = E + W" and "S' + W = S + W'"
  shows "E' + S' + V = E + S"
proof -
  have "(E' + S' + V) + (W' + W) = (E' + W' + V) + (S' + W)" by (simp add: ac_simps)
  also have "\<dots> = (E + S) + (W' + W)" by (simp only: assms) (simp add: ac_simps)
  finally show ?thesis by simp
qed

end
