(* ===== verification/MD5.thy ===== *)
theory MD5
  imports Prelude
begin

text \<open>
  The digest \<open>md5.Sum\<close> of Go's \<open>crypto/md5\<close> (RFC 1321), which
  \<open>exporter/omnishard/sharding_config.go\<close> uses to map a partition key to a hash key. The
  digest is executable; a test vector of the RFC at the end is evaluated by the kernel.
\<close>

unbundle bit_operations_syntax

definition md5_K :: "u32 list" where
  "md5_K =
    [0xd76aa478, 0xe8c7b756, 0x242070db, 0xc1bdceee,
     0xf57c0faf, 0x4787c62a, 0xa8304613, 0xfd469501,
     0x698098d8, 0x8b44f7af, 0xffff5bb1, 0x895cd7be,
     0x6b901122, 0xfd987193, 0xa679438e, 0x49b40821,
     0xf61e2562, 0xc040b340, 0x265e5a51, 0xe9b6c7aa,
     0xd62f105d, 0x2441453, 0xd8a1e681, 0xe7d3fbc8,
     0x21e1cde6, 0xc33707d6, 0xf4d50d87, 0x455a14ed,
     0xa9e3e905, 0xfcefa3f8, 0x676f02d9, 0x8d2a4c8a,
     0xfffa3942, 0x8771f681, 0x6d9d6122, 0xfde5380c,
     0xa4beea44, 0x4bdecfa9, 0xf6bb4b60, 0xbebfbc70,
     0x289b7ec6, 0xeaa127fa, 0xd4ef3085, 0x4881d05,
     0xd9d4d039, 0xe6db99e5, 0x1fa27cf8, 0xc4ac5665,
     0xf4292244, 0x432aff97, 0xab9423a7, 0xfc93a039,
     0x655b59c3, 0x8f0ccc92, 0xffeff47d, 0x85845dd1,
     0x6fa87e4f, 0xfe2ce6e0, 0xa3014314, 0x4e0811a1,
     0xf7537e82, 0xbd3af235, 0x2ad7d2bb, 0xeb86d391]"

definition md5_shift :: "nat list" where
  "md5_shift =
    [7, 12, 17, 22, 7, 12, 17, 22, 7, 12, 17, 22, 7, 12, 17, 22,
     5, 9, 14, 20, 5, 9, 14, 20, 5, 9, 14, 20, 5, 9, 14, 20,
     4, 11, 16, 23, 4, 11, 16, 23, 4, 11, 16, 23, 4, 11, 16, 23,
     6, 10, 15, 21, 6, 10, 15, 21, 6, 10, 15, 21, 6, 10, 15, 21]"

definition md5_mix :: "nat \<Rightarrow> u32 \<Rightarrow> u32 \<Rightarrow> u32 \<Rightarrow> u32" where
  "md5_mix i b c d =
     (if i < 16 then (b AND c) OR (NOT b AND d)
      else if i < 32 then (d AND b) OR (NOT d AND c)
      else if i < 48 then b XOR c XOR d
      else c XOR (b OR NOT d))"

definition md5_index :: "nat \<Rightarrow> nat" where
  "md5_index i =
     (if i < 16 then i
      else if i < 32 then (5 * i + 1) mod 16
      else if i < 48 then (3 * i + 5) mod 16
      else (7 * i) mod 16)"

definition rotate_left :: "nat \<Rightarrow> u32 \<Rightarrow> u32" where
  "rotate_left n x = push_bit n x OR drop_bit (32 - n) x"

type_synonym md5_state = "u32 \<times> u32 \<times> u32 \<times> u32"

fun md5_step :: "u32 list \<Rightarrow> nat \<Rightarrow> md5_state \<Rightarrow> md5_state" where
  "md5_step m i (a, b, c, d) =
     (d, b + rotate_left (md5_shift ! i) (md5_mix i b c d + a + md5_K ! i + m ! md5_index i), b, c)"

definition word_of_le :: "bytes \<Rightarrow> u32" where
  "word_of_le bs = foldr (\<lambda>b w. push_bit 8 w OR ucast b) bs 0"

fun md5_words :: "nat \<Rightarrow> bytes \<Rightarrow> u32 list" where
  "md5_words 0 bs = []"
| "md5_words (Suc n) bs = word_of_le (take 4 bs) # md5_words n (drop 4 bs)"

fun md5_add :: "md5_state \<Rightarrow> md5_state \<Rightarrow> md5_state" where
  "md5_add (a, b, c, d) (a', b', c', d') = (a + a', b + b', c + c', d + d')"

definition md5_block :: "bytes \<Rightarrow> md5_state \<Rightarrow> md5_state" where
  "md5_block bs s = md5_add s (fold (md5_step (md5_words 16 bs)) [0..<64] s)"

fun md5_blocks :: "nat \<Rightarrow> bytes \<Rightarrow> md5_state \<Rightarrow> md5_state" where
  "md5_blocks 0 bs s = s"
| "md5_blocks (Suc n) bs s = md5_blocks n (drop 64 bs) (md5_block (take 64 bs) s)"

definition le_bytes :: "nat \<Rightarrow> 'a::len word \<Rightarrow> bytes" where
  "le_bytes n w = map (\<lambda>i. ucast (drop_bit (8 * i) w)) [0..<n]"

definition md5_pad :: "bytes \<Rightarrow> bytes" where
  "md5_pad bs =
     bs @ [0x80] @ replicate (nat ((55 - int (length bs)) mod 64)) 0
        @ le_bytes 8 (8 * uint_len bs)"

definition md5_init :: md5_state where
  "md5_init = (0x67452301, 0xefcdab89, 0x98badcfe, 0x10325476)"

text \<open>\<open>md5.Sum(data)\<close>: the 16 bytes of the digest.\<close>

definition md5_sum :: "bytes \<Rightarrow> bytes" where
  "md5_sum bs =
     (case md5_blocks (length (md5_pad bs) div 64) (md5_pad bs) md5_init of
        (a, b, c, d) \<Rightarrow>
          le_bytes 4 a @ le_bytes 4 b @ le_bytes 4 c @ le_bytes 4 d)"

lemma length_le_bytes [simp]: "length (le_bytes n w) = n"
  by (simp add: le_bytes_def)

lemma length_md5_sum [simp]: "length (md5_sum bs) = 16"
  by (simp add: md5_sum_def split: prod.split)

text \<open>The padded message is a whole number of blocks.\<close>

lemma length_md5_pad: "64 dvd length (md5_pad bs)"
proof -
  have "int (length (md5_pad bs)) = int (length bs) + 9 + (55 - int (length bs)) mod 64"
    by (simp add: md5_pad_def)
  also have "\<dots> mod 64 = (int (length bs) + 9 + (55 - int (length bs))) mod 64"
    by (rule mod_add_right_eq)
  also have "\<dots> = 0" by simp
  finally have "int 64 dvd int (length (md5_pad bs))" by (simp add: dvd_eq_mod_eq_0)
  then show ?thesis by (simp only: of_nat_dvd_iff)
qed

text \<open>Go's conversion \<open>[]byte(s)\<close>: the bytes of a string.\<close>

definition bytes_of_string :: "string \<Rightarrow> bytes" where
  "bytes_of_string s = map of_char s"

lemma md5_abc:
  "md5_sum (bytes_of_string ''abc'') =
     [0x90, 0x01, 0x50, 0x98, 0x3c, 0xd2, 0x4f, 0xb0, 0xd6, 0x96, 0x3f, 0x7d, 0x28, 0xe1, 0x7f, 0x72]"
  by code_simp

end
