(* ===== verification/Sharding.thy ===== *)
theory Sharding
  imports MD5
begin

text \<open>
  The sharding configuration of the OmniShard exporter: the protocol messages
  \<open>ShardDefinition\<close> and \<open>ShardingConfig\<close> (\<open>exporter/omnishard/omnishard.proto\<close>), their
  in-memory form, its validation and the routing of a partition key to a shard
  (\<open>exporter/omnishard/sharding_config.go\<close>).
\<close>

section \<open>Protocol messages\<close>

record ShardDefinition =
  ShardId :: string
  StartingHashKey :: bytes
  EndingHashKey :: bytes

record ShardingConfig =
  ShardDefinitions :: "ShardDefinition list"

section \<open>Hash keys\<close>

text \<open>
  \<open>big.Int.SetBytes\<close> reads its argument as a big-endian unsigned integer. The code never
  makes a negative \<open>big.Int\<close>, so hash keys are natural numbers.
\<close>

definition SetBytes :: "bytes \<Rightarrow> nat" where
  "SetBytes bs = foldl (\<lambda>k b. 256 * k + unat b) 0 bs"

definition minHashKey :: nat where
  "minHashKey = 0"

definition calcMaxHashKey :: nat where
  "calcMaxHashKey = SetBytes (replicate 16 0xff)"

definition maxHashKey :: nat where
  "maxHashKey = calcMaxHashKey"

lemma SetBytes_snoc: "SetBytes (bs @ [b]) = 256 * SetBytes bs + unat b"
  by (simp add: SetBytes_def)

lemma SetBytes_less: "SetBytes bs < 256 ^ length bs"
proof (induction bs rule: rev_induct)
  case Nil
  show ?case by (simp add: SetBytes_def)
next
  case (snoc b bs)
  have "unat b < 256" using unsigned_less [of b] by simp
  with snoc.IH show ?case by (simp add: SetBytes_snoc)
qed

text \<open>A leading zero byte does not change the key: equal keys can have different bytes.\<close>

lemma SetBytes_leading_zero: "SetBytes (0 # bs) = SetBytes bs"
  by (simp add: SetBytes_def)

lemma SetBytes_all_ones: "Suc (SetBytes (replicate n 0xff)) = 256 ^ n"
proof (induction n)
  case 0
  show ?case by (simp add: SetBytes_def)
next
  case (Suc n)
  have "SetBytes (replicate (Suc n) 0xff) = 256 * SetBytes (replicate n 0xff) + 255"
    using SetBytes_snoc [of "replicate n 0xff" "0xff"]
    by (simp flip: replicate_append_same)
  with Suc.IH show ?case by simp
qed

lemma maxHashKey_eq: "maxHashKey = 2 ^ 128 - 1"
proof -
  have "Suc maxHashKey = 256 ^ 16"
    unfolding maxHashKey_def calcMaxHashKey_def by (rule SetBytes_all_ones)
  then show ?thesis by simp
qed

section \<open>In-memory configuration\<close>

record shardInMemConfig =
  shardID :: string
  startingHashKey :: nat
  endingHashKey :: nat
  origin :: ShardDefinition

record shardingInMemConfig =
  shards :: "shardInMemConfig list"

datatype config_error =
    StartingBiggerThanEnding
  | EndingOverlapsNext

definition toInMem :: "ShardDefinition \<Rightarrow> shardInMemConfig" where
  "toInMem s =
     \<lparr>shardID = ShardId s, startingHashKey = SetBytes (StartingHashKey s),
      endingHashKey = SetBytes (EndingHashKey s), origin = s\<rparr>"

text \<open>The first loop of \<open>newShardingInMemConfig\<close>: convert, and stop at the first inverted range.\<close>

fun convertShards :: "ShardDefinition list \<Rightarrow> config_error + shardInMemConfig list" where
  "convertShards [] = Inr []"
| "convertShards (s # ss) =
     (let shard = toInMem s in
      if startingHashKey shard > endingHashKey shard then Inl StartingBiggerThanEnding
      else (case convertShards ss of Inl e \<Rightarrow> Inl e | Inr rest \<Rightarrow> Inr (shard # rest)))"

text \<open>
  The second loop: \<open>prev\<close> is absent for the first shard (\<open>i == 0\<close>), and otherwise the shard
  before.
\<close>

fun overlapLoop :: "shardInMemConfig option \<Rightarrow> shardInMemConfig list \<Rightarrow> bool" where
  "overlapLoop prev [] = False"
| "overlapLoop prev (shard # rest) =
     ((case prev of None \<Rightarrow> False | Some p \<Rightarrow> endingHashKey p \<ge> startingHashKey shard)
      \<or> overlapLoop (Some shard) rest)"

text \<open>
  \<open>sort.Sort\<close> sorts by \<open>byStartingHashKey.Less\<close> and promises no order among equal keys. The
  validation is therefore written over the sorting function, and \<open>newShardingInMemConfig\<close>
  takes the insertion sort of the library; the results are shown not to depend on it.
\<close>

definition byStartingHashKey_Less :: "shardInMemConfig \<Rightarrow> shardInMemConfig \<Rightarrow> bool" where
  "byStartingHashKey_Less a b \<longleftrightarrow> startingHashKey a < startingHashKey b"

definition newShardingInMemConfig_with ::
  "(shardInMemConfig list \<Rightarrow> shardInMemConfig list) \<Rightarrow> ShardingConfig \<Rightarrow>
     config_error + shardingInMemConfig" where
  "newShardingInMemConfig_with srt pbConf =
     (case convertShards (ShardDefinitions pbConf) of
        Inl e \<Rightarrow> Inl e
      | Inr ss \<Rightarrow>
          let sorted_shards = srt ss in
          if overlapLoop None sorted_shards then Inl EndingOverlapsNext
          else Inr \<lparr>shards = sorted_shards\<rparr>)"

definition newShardingInMemConfig ::
  "ShardingConfig \<Rightarrow> config_error + shardingInMemConfig" where
  "newShardingInMemConfig = newShardingInMemConfig_with (sort_key startingHashKey)"

section \<open>Routing\<close>

definition partitionKeyToHashKey :: "string \<Rightarrow> nat" where
  "partitionKeyToHashKey partitionKey = SetBytes (md5_sum (bytes_of_string partitionKey))"

definition belongsToShard :: "shardInMemConfig \<Rightarrow> string \<Rightarrow> bool" where
  "belongsToShard s partitionKey =
     (let key = partitionKeyToHashKey partitionKey
      in key \<ge> startingHashKey s \<and> key \<le> endingHashKey s)"

text \<open>Every partition key has a hash key between the two bounds of the key space.\<close>

lemma partitionKeyToHashKey_bounds:
  "minHashKey \<le> partitionKeyToHashKey pk \<and> partitionKeyToHashKey pk \<le> maxHashKey"
proof -
  have "partitionKeyToHashKey pk < 256 ^ 16"
    using SetBytes_less [of "md5_sum (bytes_of_string pk)"] by (simp add: partitionKeyToHashKey_def)
  then show ?thesis by (simp add: minHashKey_def maxHashKey_eq)
qed

section \<open>What a valid configuration is\<close>

text \<open>
  The abstract specification: every range is ordered, and the ranges are pairwise disjoint.
  It says nothing about the order in which the server lists the shards.
\<close>

definition rangeOrdered :: "shardInMemConfig \<Rightarrow> bool" where
  "rangeOrdered s \<longleftrightarrow> startingHashKey s \<le> endingHashKey s"

definition rangesDisjoint :: "shardInMemConfig \<Rightarrow> shardInMemConfig \<Rightarrow> bool" where
  "rangesDisjoint a b \<longleftrightarrow>
     endingHashKey a < startingHashKey b \<or> endingHashKey b < startingHashKey a"

definition rangeBefore :: "shardInMemConfig \<Rightarrow> shardInMemConfig \<Rightarrow> bool" where
  "rangeBefore a b \<longleftrightarrow> endingHashKey a < startingHashKey b"

definition validShards :: "shardInMemConfig list \<Rightarrow> bool" where
  "validShards ss \<longleftrightarrow> (\<forall>s \<in> set ss. rangeOrdered s) \<and> sorted_wrt rangeBefore ss"

definition acceptable :: "ShardingConfig \<Rightarrow> bool" where
  "acceptable pbConf \<longleftrightarrow>
     (let ss = map toInMem (ShardDefinitions pbConf)
      in (\<forall>s \<in> set ss. rangeOrdered s) \<and> sorted_wrt rangesDisjoint ss)"

lemmas range_defs = rangeOrdered_def rangesDisjoint_def rangeBefore_def

lemma convertShards_Inr:
  "convertShards defs = Inr ss \<longleftrightarrow>
     ss = map toInMem defs \<and> (\<forall>s \<in> set (map toInMem defs). rangeOrdered s)"
  by (induction defs arbitrary: ss)
    (auto simp: Let_def rangeOrdered_def not_le split: sum.splits)

lemma convertShards_Inl:
  "convertShards defs = Inl e \<longleftrightarrow>
     e = StartingBiggerThanEnding \<and> (\<exists>s \<in> set (map toInMem defs). \<not> rangeOrdered s)"
  by (induction defs) (auto simp: Let_def rangeOrdered_def not_le split: sum.splits)

text \<open>The loop only compares neighbours; on ordered ranges that is enough for all pairs.\<close>

lemma overlapLoop_Some:
  assumes "rangeOrdered p" and "\<forall>s \<in> set ss. rangeOrdered s"
  shows "\<not> overlapLoop (Some p) ss \<longleftrightarrow> sorted_wrt rangeBefore (p # ss)"
  using assms
proof (induction ss arbitrary: p)
  case Nil
  then show ?case by simp
next
  case (Cons s ss)
  then have "\<not> overlapLoop (Some s) ss \<longleftrightarrow> sorted_wrt rangeBefore (s # ss)" by simp
  moreover have "rangeBefore p t" if "rangeBefore p s" and "rangeBefore s t" for t
    using that Cons.prems(2) by (simp add: range_defs)
  moreover have "overlapLoop (Some p) (s # ss) \<longleftrightarrow> \<not> rangeBefore p s \<or> overlapLoop (Some s) ss"
    by (simp add: rangeBefore_def not_less)
  ultimately show ?case by auto
qed

lemma overlapLoop_None:
  assumes "\<forall>s \<in> set ss. rangeOrdered s"
  shows "\<not> overlapLoop None ss \<longleftrightarrow> sorted_wrt rangeBefore ss"
  using assms overlapLoop_Some by (cases ss) simp_all

lemma sorted_rangeBefore:
  assumes "\<forall>s \<in> set ss. rangeOrdered s" and "sorted (map startingHashKey ss)"
  shows "sorted_wrt rangeBefore ss \<longleftrightarrow> sorted_wrt rangesDisjoint ss"
proof
  assume "sorted_wrt rangeBefore ss"
  then show "sorted_wrt rangesDisjoint ss"
    by (rule sorted_wrt_mono_rel [rotated]) (simp add: range_defs)
next
  assume "sorted_wrt rangesDisjoint ss"
  with assms show "sorted_wrt rangeBefore ss"
  proof (induction ss)
    case (Cons s ss)
    have "rangeBefore s t" if "t \<in> set ss" for t
    proof -
      from Cons.prems that have "rangesDisjoint s t" "rangeOrdered t"
        and "startingHashKey s \<le> startingHashKey t" by auto
      then show ?thesis by (auto simp: range_defs)
    qed
    with Cons show ?case by simp
  qed simp
qed

lemma rangeBefore_strict:
  assumes "\<forall>s \<in> set ss. rangeOrdered s" and "sorted_wrt rangeBefore ss"
  shows "sorted_wrt (\<lambda>a b. startingHashKey a < startingHashKey b) ss"
  using assms(2) by (rule sorted_wrt_mono_rel [rotated]) (use assms(1) in \<open>auto simp: range_defs\<close>)

section \<open>Any sorting algorithm gives the same configuration\<close>

locale hash_sorter =
  fixes srt :: "shardInMemConfig list \<Rightarrow> shardInMemConfig list"
  assumes srt_mset: "mset (srt ss) = mset ss"
    and srt_sorted: "sorted (map startingHashKey (srt ss))"
begin

lemma srt_set: "set (srt ss) = set ss"
  by (metis srt_mset mset_eq_setD)

lemma srt_overlap:
  assumes "\<forall>s \<in> set ss. rangeOrdered s"
  shows "overlapLoop None (srt ss) \<longleftrightarrow> \<not> sorted_wrt rangesDisjoint ss"
proof -
  have ordered: "\<forall>s \<in> set (srt ss). rangeOrdered s" using assms by (simp add: srt_set)
  have "sorted_wrt rangesDisjoint (srt ss) \<longleftrightarrow> sorted_wrt rangesDisjoint ss"
    by (rule sorted_wrt_sym_perm) (auto simp: rangesDisjoint_def srt_mset)
  with overlapLoop_None [OF ordered] sorted_rangeBefore [OF ordered srt_sorted] show ?thesis
    by blast
qed

lemma with_accepts:
  assumes "newShardingInMemConfig_with srt pb = Inr cfg"
  shows "validShards (shards cfg)"
    and "mset (shards cfg) = mset (map toInMem (ShardDefinitions pb))"
    and "acceptable pb"
proof -
  from assms obtain ss where ss: "convertShards (ShardDefinitions pb) = Inr ss"
    and ok: "\<not> overlapLoop None (srt ss)" and cfg: "shards cfg = srt ss"
    by (auto simp: newShardingInMemConfig_with_def Let_def split: sum.splits if_splits)
  from ss have ord: "\<forall>s \<in> set ss. rangeOrdered s" and eq: "ss = map toInMem (ShardDefinitions pb)"
    by (auto simp: convertShards_Inr)
  from ord have ord': "\<forall>s \<in> set (srt ss). rangeOrdered s" by (simp add: srt_set)
  show "validShards (shards cfg)"
    using ord' ok overlapLoop_None [OF ord'] by (simp add: validShards_def cfg)
  show "mset (shards cfg) = mset (map toInMem (ShardDefinitions pb))"
    by (simp add: cfg srt_mset eq)
  show "acceptable pb"
    using ord ok srt_overlap [OF ord] by (simp add: acceptable_def eq)
qed

lemma with_accepts_iff: "(\<exists>cfg. newShardingInMemConfig_with srt pb = Inr cfg) \<longleftrightarrow> acceptable pb"
proof
  assume "acceptable pb"
  then have "convertShards (ShardDefinitions pb) = Inr (map toInMem (ShardDefinitions pb))"
    and "\<not> overlapLoop None (srt (map toInMem (ShardDefinitions pb)))"
    by (auto simp: acceptable_def Let_def convertShards_Inr srt_overlap)
  then show "\<exists>cfg. newShardingInMemConfig_with srt pb = Inr cfg"
    by (simp add: newShardingInMemConfig_with_def)
qed (auto dest: with_accepts(3))

lemma with_rejects:
  "newShardingInMemConfig_with srt pb = Inl e \<longleftrightarrow>
     \<not> acceptable pb \<and>
     e = (if \<exists>s \<in> set (ShardDefinitions pb). \<not> rangeOrdered (toInMem s)
          then StartingBiggerThanEnding else EndingOverlapsNext)"
proof (cases "convertShards (ShardDefinitions pb)")
  case (Inl e')
  then have "newShardingInMemConfig_with srt pb = Inl e'"
    by (simp add: newShardingInMemConfig_with_def)
  with Inl show ?thesis
    by (auto simp: convertShards_Inl acceptable_def Let_def)
next
  case (Inr ss)
  then have "\<forall>s \<in> set ss. rangeOrdered s" and "ss = map toInMem (ShardDefinitions pb)"
    by (auto simp: convertShards_Inr)
  with Inr show ?thesis
    by (auto simp: newShardingInMemConfig_with_def acceptable_def Let_def srt_overlap)
qed

end

interpretation library_sort: hash_sorter "sort_key startingHashKey"
  by unfold_locales simp_all

lemma sorter_independent:
  assumes "hash_sorter srt"
  shows "newShardingInMemConfig_with srt pb = newShardingInMemConfig pb"
proof (cases "newShardingInMemConfig_with srt pb")
  case (Inl e)
  then have "newShardingInMemConfig_with (sort_key startingHashKey) pb = Inl e"
    unfolding hash_sorter.with_rejects [OF assms] library_sort.with_rejects .
  with Inl show ?thesis by (simp add: newShardingInMemConfig_def)
next
  case (Inr cfg)
  then obtain cfg' where cfg': "newShardingInMemConfig pb = Inr cfg'"
    using hash_sorter.with_accepts(3) [OF assms Inr] library_sort.with_accepts_iff
    by (auto simp: newShardingInMemConfig_def)
  have "shards cfg = shards cfg'"
  proof (rule sorted_wrt_asym_unique [where R = "\<lambda>a b. startingHashKey a < startingHashKey b"])
    show "mset (shards cfg) = mset (shards cfg')"
      using hash_sorter.with_accepts(2) [OF assms Inr] cfg' library_sort.with_accepts(2)
      by (simp add: newShardingInMemConfig_def)
    have strict: "sorted_wrt (\<lambda>a b. startingHashKey a < startingHashKey b) ss" if "validShards ss" for ss
      using that by (simp add: validShards_def rangeBefore_strict)
    show "sorted_wrt (\<lambda>a b. startingHashKey a < startingHashKey b) (shards cfg)"
      by (rule strict) (rule hash_sorter.with_accepts(1) [OF assms Inr])
    show "sorted_wrt (\<lambda>a b. startingHashKey a < startingHashKey b) (shards cfg')"
      by (rule strict) (use cfg' library_sort.with_accepts(1) in \<open>simp add: newShardingInMemConfig_def\<close>)
  qed simp
  with Inr cfg' show ?thesis by simp
qed

section \<open>Every key has at most one shard\<close>

lemma shard_of_key_unique:
  assumes "validShards ss" and "i < length ss" and "j < length ss"
    and "belongsToShard (ss ! i) pk" and "belongsToShard (ss ! j) pk"
  shows "i = j"
  using assms unfolding validShards_def
  by (elim conjE sorted_wrt_nth_unique [where P = "\<lambda>s. belongsToShard s pk"])
    (auto simp: belongsToShard_def Let_def rangeBefore_def)

text \<open>
  Nothing in the validation asks that the ranges cover the key space: gaps are accepted, and
  keys that fall into one have no shard. A server that wants every span delivered sends
  adjoining ranges from \<open>minHashKey\<close> to \<open>maxHashKey\<close>, as \<open>contiguousFrom\<close> checks.
\<close>

fun contiguousFrom :: "nat \<Rightarrow> shardInMemConfig list \<Rightarrow> bool" where
  "contiguousFrom k [] \<longleftrightarrow> maxHashKey < k"
| "contiguousFrom k (s # ss) \<longleftrightarrow>
     startingHashKey s = k \<and> contiguousFrom (Suc (endingHashKey s)) ss"

lemma contiguousFrom_covers:
  assumes "contiguousFrom k ss" and "k \<le> key" and "key \<le> maxHashKey"
  shows "\<exists>s \<in> set ss. startingHashKey s \<le> key \<and> key \<le> endingHashKey s"
  using assms
proof (induction ss arbitrary: k)
  case Nil
  then show ?case by simp
next
  case (Cons s ss)
  show ?case
  proof (cases "key \<le> endingHashKey s")
    case True
    with Cons.prems show ?thesis by auto
  next
    case False
    with Cons.prems have "contiguousFrom (Suc (endingHashKey s)) ss" "Suc (endingHashKey s) \<le> key"
      by auto
    from Cons.IH [OF this Cons.prems(3)] show ?thesis by auto
  qed
qed

lemma contiguous_has_shard:
  assumes "contiguousFrom minHashKey ss"
  shows "\<exists>i < length ss. belongsToShard (ss ! i) pk"
proof -
  from partitionKeyToHashKey_bounds [of pk]
    contiguousFrom_covers [OF assms, of "partitionKeyToHashKey pk"]
  obtain s where "s \<in> set ss" "belongsToShard s pk"
    by (auto simp: belongsToShard_def)
  then show ?thesis by (metis in_set_conv_nth)
qed

section \<open>Properties\<close>

text \<open>
  C20: \<open>newShardingInMemConfig\<close> accepts a configuration exactly when every shard's range is
  ordered and no two ranges overlap, whatever the order the server lists the shards in; and
  it reports an inverted range before it looks for overlaps.
\<close>

theorem newShardingInMemConfig_accepts_iff:
  "((\<exists>cfg. newShardingInMemConfig pb = Inr cfg) \<longleftrightarrow> acceptable pb) \<and>
   (newShardingInMemConfig pb = Inl StartingBiggerThanEnding \<longleftrightarrow>
      (\<exists>s \<in> set (ShardDefinitions pb). \<not> rangeOrdered (toInMem s)))"
proof -
  have "(\<exists>s \<in> set (ShardDefinitions pb). \<not> rangeOrdered (toInMem s)) \<Longrightarrow> \<not> acceptable pb"
    by (auto simp: acceptable_def)
  then show ?thesis
    unfolding newShardingInMemConfig_def library_sort.with_accepts_iff library_sort.with_rejects
    by auto
qed

text \<open>
  C21: an accepted configuration holds exactly the shards the server sent, with ordered
  ranges in strictly increasing, disjoint order; and it is the same configuration for every
  algorithm that meets the contract of \<open>sort.Sort\<close>, stable or not.
\<close>

theorem newShardingInMemConfig_sorted:
  assumes "hash_sorter srt" and "newShardingInMemConfig_with srt pb = Inr cfg"
  shows "validShards (shards cfg) \<and>
    mset (map origin (shards cfg)) = mset (ShardDefinitions pb) \<and>
    newShardingInMemConfig pb = Inr cfg"
proof (intro conjI)
  show "validShards (shards cfg)" by (rule hash_sorter.with_accepts(1) [OF assms])
  have "mset (map origin (shards cfg)) = image_mset origin (mset (map toInMem (ShardDefinitions pb)))"
    using hash_sorter.with_accepts(2) [OF assms] by (simp only: mset_map)
  also have "\<dots> = mset (ShardDefinitions pb)"
    by (simp add: image_mset.compositionality comp_def toInMem_def)
  finally show "mset (map origin (shards cfg)) = mset (ShardDefinitions pb)" .
  show "newShardingInMemConfig pb = Inr cfg"
    using sorter_independent [OF assms(1), of pb] assms(2) by simp
qed

text \<open>The configuration of the unit test: shard \<open>def\<close> is listed first and sorted second.\<close>

definition testShards :: ShardingConfig where
  "testShards =
     \<lparr>ShardDefinitions =
       [\<lparr>ShardId = ''def'', StartingHashKey = [10], EndingHashKey = [20]\<rparr>,
        \<lparr>ShardId = ''abc'', StartingHashKey = [], EndingHashKey = [9]\<rparr>]\<rparr>"

lemma testShards_accepted:
  "newShardingInMemConfig testShards =
     Inr \<lparr>shards =
       [\<lparr>shardID = ''abc'', startingHashKey = 0, endingHashKey = 9,
          origin = \<lparr>ShardId = ''abc'', StartingHashKey = [], EndingHashKey = [9]\<rparr>\<rparr>,
        \<lparr>shardID = ''def'', startingHashKey = 10, endingHashKey = 20,
          origin = \<lparr>ShardId = ''def'', StartingHashKey = [10], EndingHashKey = [20]\<rparr>\<rparr>]\<rparr>"
  by (simp add: testShards_def newShardingInMemConfig_def newShardingInMemConfig_with_def
      toInMem_def SetBytes_def Let_def)

theorem newShardingInMemConfig_sorted_witness:
  "\<exists>cfg. newShardingInMemConfig testShards = Inr cfg \<and> validShards (shards cfg) \<and>
     map shardID (shards cfg) = [''abc'', ''def'']"
  using newShardingInMemConfig_sorted
      [OF library_sort.hash_sorter_axioms testShards_accepted [unfolded newShardingInMemConfig_def]]
    testShards_accepted
  by simp

text \<open>
  C22: routing is a partial function of the partition key. In an accepted configuration no
  key belongs to two shards, and when the ranges adjoin from \<open>minHashKey\<close> to \<open>maxHashKey\<close>
  every key belongs to exactly one.
\<close>

theorem belongsToShard_exactly_one:
  assumes "newShardingInMemConfig pb = Inr cfg"
  shows "(\<forall>i < length (shards cfg). \<forall>j < length (shards cfg).
      belongsToShard (shards cfg ! i) pk \<longrightarrow> belongsToShard (shards cfg ! j) pk \<longrightarrow> i = j) \<and>
    (contiguousFrom minHashKey (shards cfg) \<longrightarrow>
      (\<exists>!i. i < length (shards cfg) \<and> belongsToShard (shards cfg ! i) pk))"
proof -
  have "validShards (shards cfg)"
    using assms library_sort.with_accepts(1) by (simp add: newShardingInMemConfig_def)
  then have uniq: "i = j" if "i < length (shards cfg)" "j < length (shards cfg)"
    "belongsToShard (shards cfg ! i) pk" "belongsToShard (shards cfg ! j) pk" for i j
    using that by (rule shard_of_key_unique)
  moreover have "\<exists>i < length (shards cfg). belongsToShard (shards cfg ! i) pk"
    if "contiguousFrom minHashKey (shards cfg)" using that by (rule contiguous_has_shard)
  ultimately show ?thesis by blast
qed

text \<open>
  The configuration \<open>createTestShardConfig(4)\<close> of the unit tests: four adjoining quarters of
  the key space.
\<close>

definition quarterShard :: "string \<Rightarrow> u8 \<Rightarrow> u8 \<Rightarrow> ShardDefinition" where
  "quarterShard name lo hi =
     \<lparr>ShardId = name, StartingHashKey = lo # replicate 15 0, EndingHashKey = hi # replicate 15 0xff\<rparr>"

definition testConfig4 :: ShardingConfig where
  "testConfig4 =
     \<lparr>ShardDefinitions =
       [quarterShard ''shard#1'' 0 0x3f, quarterShard ''shard#2'' 0x40 0x7f,
        quarterShard ''shard#3'' 0x80 0xbf, quarterShard ''shard#4'' 0xc0 0xff]\<rparr>"

definition inMem4 :: shardingInMemConfig where
  "inMem4 = \<lparr>shards = map toInMem (ShardDefinitions testConfig4)\<rparr>"

lemma SetBytes_prefix_zeros: "SetBytes (b # replicate n 0) = unat b * 256 ^ n"
proof (induction n)
  case (Suc n)
  then show ?case
    using SetBytes_snoc [of "b # replicate n 0" 0] by (simp flip: replicate_append_same)
qed (simp add: SetBytes_def)

lemma SetBytes_prefix_ones: "Suc (SetBytes (b # replicate n 0xff)) = unat b * 256 ^ n + 256 ^ n"
proof (induction n)
  case (Suc n)
  have "SetBytes (b # replicate (Suc n) 0xff) = 256 * SetBytes (b # replicate n 0xff) + 255"
    using SetBytes_snoc [of "b # replicate n 0xff" "0xff"] by (simp flip: replicate_append_same)
  then have "Suc (SetBytes (b # replicate (Suc n) 0xff)) = 256 * Suc (SetBytes (b # replicate n 0xff))"
    by simp
  with Suc.IH show ?case by simp
qed (simp add: SetBytes_def)

lemma quarterShard_bounds:
  "startingHashKey (toInMem (quarterShard name lo hi)) = unat lo * 256 ^ 15"
  "endingHashKey (toInMem (quarterShard name lo hi)) = unat hi * 256 ^ 15 + (256 ^ 15 - 1)"
  using SetBytes_prefix_ones [of hi 15]
  by (simp_all add: toInMem_def quarterShard_def SetBytes_prefix_zeros)

lemma testConfig4_accepted: "newShardingInMemConfig testConfig4 = Inr inMem4"
proof -
  have "convertShards (ShardDefinitions testConfig4) = Inr (shards inMem4)"
    by (simp add: testConfig4_def inMem4_def Let_def quarterShard_bounds)
  moreover have "sort_key startingHashKey (shards inMem4) = shards inMem4"
    by (simp add: testConfig4_def inMem4_def quarterShard_bounds)
  moreover have "\<not> overlapLoop None (shards inMem4)"
    by (simp add: testConfig4_def inMem4_def quarterShard_bounds)
  ultimately show ?thesis
    by (simp add: newShardingInMemConfig_def newShardingInMemConfig_with_def Let_def)
qed

lemma inMem4_contiguous: "contiguousFrom minHashKey (shards inMem4)"
  by (simp add: testConfig4_def inMem4_def quarterShard_bounds minHashKey_def maxHashKey_eq)

text \<open>The unit test expects the key \<open>abc\<close> in the third quarter.\<close>

lemma abc_in_third: "belongsToShard (shards inMem4 ! 2) ''abc''"
  by (simp add: belongsToShard_def partitionKeyToHashKey_def md5_abc inMem4_def testConfig4_def
      quarterShard_bounds SetBytes_def)

theorem belongsToShard_exactly_one_witness:
  "belongsToShard (shards inMem4 ! 2) ''abc'' \<and> \<not> belongsToShard (shards inMem4 ! 1) ''abc'' \<and>
   (\<exists>!i. i < length (shards inMem4) \<and> belongsToShard (shards inMem4 ! i) ''abc'')"
proof -
  have len: "length (shards inMem4) = 4" by (simp add: inMem4_def testConfig4_def)
  note both = belongsToShard_exactly_one [OF testConfig4_accepted, of "''abc''"]
  from both inMem4_contiguous
  have one: "\<exists>!i. i < length (shards inMem4) \<and> belongsToShard (shards inMem4 ! i) ''abc''" by simp
  have "\<not> belongsToShard (shards inMem4 ! 1) ''abc''"
  proof
    assume "belongsToShard (shards inMem4 ! 1) ''abc''"
    with both [THEN conjunct1, rule_format, of 1 2] abc_in_third len have "(1::nat) = 2" by simp
    then show False by simp
  qed
  with one abc_in_third show ?thesis by simp
qed

end
