(* ===== verification/Messages.thy ===== *)
theory Messages
  imports Sharding
begin

text \<open>
  The data that travels through the OmniShard exporter: the part of a Jaeger span the code
  reads or writes, the records and responses of the protocol
  (\<open>exporter/omnishard/omnishard.proto\<close>), and the error and drop codes
  (\<open>errorcode.go\<close>, \<open>datadropcode.go\<close>, \<open>client.go\<close>). Spans are passed by value: the one
  place where the code changes a span in place (\<open>tryEncodeSpan\<close>) returns the changed span.
\<close>

section \<open>Spans\<close>

record TraceID =
  High :: u64
  Low :: u64

datatype ValueType = VT_STRING | VT_BOOL | VT_INT64 | VT_FLOAT64 | VT_BINARY

record KeyValue =
  Key :: string
  VType :: ValueType
  VStr :: string
  VBool :: bool
  VInt64 :: int
  VFloat64 :: u64
  VBinary :: bytes

record Log =
  LogTimestamp :: int
  LogFields :: "KeyValue list"

record Process =
  ServiceName :: string
  ProcessTags :: "KeyValue list"

text \<open>\<open>SpanRest\<close> stands for the fields the code neither reads nor writes.\<close>

record Span =
  SpanTraceID :: TraceID
  SpanID :: u64
  OperationName :: string
  SpanTags :: "KeyValue list"
  SpanLogs :: "Log list"
  SpanProcess :: "Process option"
  SpanRest :: bytes

text \<open>
  What identifies a span through the pipeline: everything but the tags and logs, which
  encoding may cut.
\<close>

definition spanKey :: "Span \<Rightarrow> Span" where
  "spanKey s = s\<lparr>SpanTags := [], SpanLogs := []\<rparr>"

definition spanKeys :: "Span list \<Rightarrow> Span multiset" where
  "spanKeys ss = mset (map spanKey ss)"

lemma spanKeys_simps [simp]:
  "spanKeys [] = {#}"
  "spanKeys (s # ss) = add_mset (spanKey s) (spanKeys ss)"
  "spanKeys (ss @ ts) = spanKeys ss + spanKeys ts"
  by (simp_all add: spanKeys_def)

lemma size_spanKeys [simp]: "size (spanKeys ss) = length ss"
  by (simp add: spanKeys_def)

lemma spanKeys_eq_empty [simp]: "spanKeys ss = {#} \<longleftrightarrow> ss = []"
  by (simp add: spanKeys_def)

lemma spanKey_TraceID: "spanKey s = spanKey t \<Longrightarrow> SpanTraceID s = SpanTraceID t"
  by (cases s; cases t) (simp add: spanKey_def)

section \<open>External code the encoder calls\<close>

text \<open>
  The code outside the repository that the encoder relies on, as functions the model takes
  as a parameter: \<open>TraceID.String\<close> of the Jaeger model, \<open>proto.Marshal\<close> of a span and of a
  span list, and one run of a \<open>gzip.Writer\<close> (\<open>Reset\<close>, \<open>Write\<close>, \<open>Close\<close>). The absent value
  is the error result.
\<close>

record codec =
  TraceID_String :: "TraceID \<Rightarrow> string"
  Marshal_Span :: "Span \<Rightarrow> bytes option"
  Marshal_SpanList :: "Span list \<Rightarrow> bytes option"
  gzip_Write :: "bytes \<Rightarrow> bytes option"

section \<open>Protocol records and responses\<close>

record EncodedRecord =
  RecData :: bytes
  PartitionKey :: string
  SpanCount :: int
  UncompressedBytes :: int

record ExportRequest =
  ReqRecord :: EncodedRecord
  ReqShard :: ShardDefinition

text \<open>Enumerations of proto3 are open: a server may send a code this version does not know.\<close>

datatype ResultCode =
    SUCCESS
  | FAILED_NOT_RETRYABLE
  | FAILED_RETRYABLE
  | SHARD_CONFIG_MISTMATCH
  | UnknownResultCode int

record ExportResponse =
  RespResultCode :: ResultCode
  RespShardingConfig :: "ShardingConfig option"

section \<open>Error and drop codes\<close>

datatype EncoderErrorCode = ErrEncoderStopped | ErrEncodingFailed

datatype SendErrorCode = ErrFailedRetryable | ErrFailedNotRetryable

datatype DataDropCode =
    RetryQueueFull
  | FatalEncodingError
  | ExportResponseNotRetryable
  | SendErrNotRetryable

end
