(* ===== verification/Hooks.thy ===== *)
theory Hooks
  imports Messages
begin

text \<open>
  Telemetry of the OmniShard exporter: the tags a hook attaches and the measurements it
  records (\<open>exporter/omnishard/hooks.go\<close>), and the measures and views that aggregate them
  (\<open>exporter/omnishard/telemetry.go\<close>). \<open>stats.RecordWithTags\<close> is outside the repository; a
  hook is modelled by the call it makes.
\<close>

section \<open>Measures and views\<close>

datatype tagKey = tagExporterName | tagShardID | tagSendResult | tagDropReason

fun tagKeyName :: "tagKey \<Rightarrow> string" where
  "tagKeyName tagExporterName = ''exporter''"
| "tagKeyName tagShardID = ''shard_id''"
| "tagKeyName tagSendResult = ''send_result''"
| "tagKeyName tagDropReason = ''drop_reason''"

datatype stat =
    statXLSpansBytes
  | statFlushedSpans
  | statFlushedSpansBytes
  | statEnqueuedSpans
  | statDequeuedSpans
  | statCompressFactor
  | statDroppedSpans
  | statDroppedBytes
  | statSentSpans
  | statSentBytes

datatype unit_of = UnitBytes | UnitDimensionless

fun statInfo :: "stat \<Rightarrow> string \<times> string \<times> unit_of" where
  "statInfo statXLSpansBytes =
     (''omnishard_xl_span_size'', ''size of spans bigger than max support size'', UnitBytes)"
| "statInfo statFlushedSpans =
     (''omnishard_flushed_spans'', ''number of spans flushed to omnishard exporter'', UnitDimensionless)"
| "statInfo statFlushedSpansBytes =
     (''omnishard_flushed_bytes'', ''total size in bytes of spans flushed to omnishard exporter'', UnitBytes)"
| "statInfo statEnqueuedSpans =
     (''omnishard_enqueued_spans'',
      ''spans received and put in a queue to be processed by omnishard exporter'', UnitDimensionless)"
| "statInfo statDequeuedSpans =
     (''omnishard_dequeued_spans'',
      ''spans taken out of queue and processed by omnishard exporter'', UnitDimensionless)"
| "statInfo statCompressFactor =
     (''omnishard_compress_factor'', ''compression factor achieved by spanlists'', UnitDimensionless)"
| "statInfo statDroppedSpans = (''omnishard_dropped_spans'', ''dropped span count'', UnitDimensionless)"
| "statInfo statDroppedBytes = (''omnishard_dropped_bytes'', ''dropped bytes count'', UnitBytes)"
| "statInfo statSentSpans = (''omnishard_sent_spans'', ''number of spans sent'', UnitDimensionless)"
| "statInfo statSentBytes = (''omnishard_sent_bytes'', ''number of bytes sent'', UnitBytes)"

datatype aggregation = AggSum | AggCount | AggLastValue

record View =
  ViewName :: string
  Measure :: stat
  ViewDescription :: string
  TagKeys :: "tagKey list"
  Aggregation :: aggregation

definition statView :: "stat \<Rightarrow> tagKey list \<Rightarrow> aggregation \<Rightarrow> View" where
  "statView st keys agg =
     \<lparr>ViewName = fst (statInfo st), Measure = st, ViewDescription = fst (snd (statInfo st)),
      TagKeys = keys, Aggregation = agg\<rparr>"

definition countView :: "string \<Rightarrow> stat \<Rightarrow> string \<Rightarrow> tagKey list \<Rightarrow> View" where
  "countView name st descr keys =
     \<lparr>ViewName = name, Measure = st, ViewDescription = descr, TagKeys = keys, Aggregation = AggCount\<rparr>"

definition metricViews :: "View list" where
  "metricViews =
     (let exporterTags = [tagExporterName];
          exporterShardIDTags = [tagExporterName, tagShardID];
          droppedTagKeys = exporterTags @ [tagDropReason];
          sentTagKeys = exporterTags @ [tagSendResult]
      in
     [statView statCompressFactor exporterShardIDTags AggLastValue,
      statView statFlushedSpans exporterShardIDTags AggSum,
      countView ''omnishard_flushed_batches'' statFlushedSpans
        ''number of batches flushed to omnishard exporter'' exporterShardIDTags,
      statView statFlushedSpansBytes exporterShardIDTags AggLastValue,
      statView statXLSpansBytes exporterShardIDTags AggSum,
      countView ''omnishard_xl_spans'' statXLSpansBytes
        ''number of spans found that were larger than max supported size'' exporterShardIDTags,
      statView statEnqueuedSpans exporterTags AggSum,
      countView ''omnishard_enqueued_batches'' statEnqueuedSpans
        ''batches received and put in a queue to be processed by omnishard exporter'' exporterTags,
      statView statDequeuedSpans exporterTags AggSum,
      countView ''omnishard_dequeued_batches'' statDequeuedSpans
        ''batches taken out of queue and processed by omnishard exporter'' exporterTags,
      statView statDroppedSpans droppedTagKeys AggSum,
      countView ''omnishard_dropped_batches'' statDroppedSpans ''dropped batches count'' droppedTagKeys,
      statView statDroppedBytes droppedTagKeys AggSum,
      statView statSentSpans sentTagKeys AggSum,
      countView ''omnishard_sent_batches'' statSentSpans ''number of batches sent'' sentTagKeys,
      statView statSentBytes sentTagKeys AggSum])"

lemmas view_defs = metricViews_def statView_def countView_def

section \<open>Hooks\<close>

datatype mutator = Upsert (mutKey: tagKey) (mutValue: string)

definition tagUpsertExportResponseSuccess :: mutator where
  "tagUpsertExportResponseSuccess = Upsert tagSendResult ''SUCCESS''"

definition tagUpsertExportResponseFailedNotRetryable :: mutator where
  "tagUpsertExportResponseFailedNotRetryable = Upsert tagSendResult ''FAILED_NOT_RETRYABLE''"

definition tagUpsertExportResponseFailedRetryable :: mutator where
  "tagUpsertExportResponseFailedRetryable = Upsert tagSendResult ''FAILED_RETRYABLE''"

definition tagUpsertExportResponseShardConfigMismatch :: mutator where
  "tagUpsertExportResponseShardConfigMismatch = Upsert tagSendResult ''SHARD_CONFIG_MISTMATCH''"

definition tagUpsertDropCodeRetryQueueFull :: mutator where
  "tagUpsertDropCodeRetryQueueFull = Upsert tagDropReason ''RetryQueueFull''"

definition tagUpsertDropCodeFatalEncondingError :: mutator where
  "tagUpsertDropCodeFatalEncondingError = Upsert tagDropReason ''FatalEncodingError''"

definition tagUpsertDropCodeExportResponseNotRetryable :: mutator where
  "tagUpsertDropCodeExportResponseNotRetryable = Upsert tagDropReason ''ExportResponseNotRetryable''"

definition tagUpsertDropCodeSendErrNotRetryable :: mutator where
  "tagUpsertDropCodeSendErrNotRetryable = Upsert tagDropReason ''SendErrNotRetryable''"

lemmas tag_upserts =
  tagUpsertExportResponseSuccess_def
  tagUpsertExportResponseFailedNotRetryable_def
  tagUpsertExportResponseFailedRetryable_def
  tagUpsertExportResponseShardConfigMismatch_def
  tagUpsertDropCodeRetryQueueFull_def
  tagUpsertDropCodeFatalEncondingError_def
  tagUpsertDropCodeExportResponseNotRetryable_def
  tagUpsertDropCodeSendErrNotRetryable_def

record telemetryHooks =
  exporterName :: string
  commonTags :: "mutator list"
  exportSuccessTags :: "mutator list"
  exportFailedNotRetryableTags :: "mutator list"
  exportFailedRetryableTags :: "mutator list"
  exportShardConfigMismatchTags :: "mutator list"
  dropRetryQueueFullTags :: "mutator list"
  dropFatalEncodingErrorTags :: "mutator list"
  dropExportResponseNotRetryableTags :: "mutator list"
  dropSendErrNotRetryableTags :: "mutator list"

definition extendTagMutator :: "mutator list \<Rightarrow> mutator list \<Rightarrow> mutator list" where
  "extendTagMutator baseTags extendedTags = baseTags @ extendedTags"

definition newTelemetryHooks :: "string \<Rightarrow> string \<Rightarrow> telemetryHooks" where
  "newTelemetryHooks name shardId =
     (let tags = [Upsert tagExporterName name] @
                 (if shardId \<noteq> [] then [Upsert tagShardID shardId] else [])
      in \<lparr>exporterName = name,
          commonTags = tags,
          exportSuccessTags = extendTagMutator tags [tagUpsertExportResponseSuccess],
          exportFailedNotRetryableTags = extendTagMutator tags [tagUpsertExportResponseFailedNotRetryable],
          exportFailedRetryableTags = extendTagMutator tags [tagUpsertExportResponseFailedRetryable],
          exportShardConfigMismatchTags = extendTagMutator tags [tagUpsertExportResponseShardConfigMismatch],
          dropRetryQueueFullTags = extendTagMutator tags [tagUpsertDropCodeRetryQueueFull],
          dropFatalEncodingErrorTags = extendTagMutator tags [tagUpsertDropCodeFatalEncondingError],
          dropExportResponseNotRetryableTags = extendTagMutator tags [tagUpsertDropCodeExportResponseNotRetryable],
          dropSendErrNotRetryableTags = extendTagMutator tags [tagUpsertDropCodeSendErrNotRetryable]\<rparr>)"

text \<open>One call of \<open>stats.RecordWithTags\<close>: the tags and the measurements.\<close>

record recording =
  recTags :: "mutator list"
  recMeasurements :: "(stat \<times> int) list"

definition OnSpansEnqueued :: "telemetryHooks \<Rightarrow> int \<Rightarrow> recording" where
  "OnSpansEnqueued h n = \<lparr>recTags = commonTags h, recMeasurements = [(statEnqueuedSpans, n)]\<rparr>"

definition OnSpansDequeued :: "telemetryHooks \<Rightarrow> int \<Rightarrow> recording" where
  "OnSpansDequeued h n = \<lparr>recTags = commonTags h, recMeasurements = [(statDequeuedSpans, n)]\<rparr>"

definition OnXLSpanTruncated :: "telemetryHooks \<Rightarrow> int \<Rightarrow> recording" where
  "OnXLSpanTruncated h sz =
     \<lparr>recTags = commonTags h, recMeasurements = [(statXLSpansBytes, sz)]\<rparr>"

definition OnSpanListFlushed :: "telemetryHooks \<Rightarrow> int \<Rightarrow> int \<Rightarrow> recording" where
  "OnSpanListFlushed h n bytes =
     \<lparr>recTags = commonTags h,
      recMeasurements = [(statFlushedSpans, n), (statFlushedSpansBytes, bytes)]\<rparr>"

text \<open>The only hook that computes: an integer division, which panics when the divisor is zero.\<close>

definition OnCompressed :: "telemetryHooks \<Rightarrow> int \<Rightarrow> int \<Rightarrow> panic + recording" where
  "OnCompressed h original compressed =
     (if compressed = 0 then Inl IntegerDivideByZero
      else Inr \<lparr>recTags = commonTags h,
                recMeasurements = [(statCompressFactor, go_quot original compressed)]\<rparr>)"

definition dropTags :: "telemetryHooks \<Rightarrow> DataDropCode \<Rightarrow> mutator list" where
  "dropTags h code =
     (case code of
        RetryQueueFull \<Rightarrow> dropRetryQueueFullTags h
      | FatalEncodingError \<Rightarrow> dropFatalEncodingErrorTags h
      | ExportResponseNotRetryable \<Rightarrow> dropExportResponseNotRetryableTags h
      | SendErrNotRetryable \<Rightarrow> dropSendErrNotRetryableTags h)"

definition OnDropSpans ::
  "telemetryHooks \<Rightarrow> DataDropCode \<Rightarrow> int \<Rightarrow> EncodedRecord option \<Rightarrow> recording" where
  "OnDropSpans h code n rec =
     (case rec of
        None \<Rightarrow> \<lparr>recTags = dropTags h code, recMeasurements = [(statDroppedSpans, n)]\<rparr>
      | Some r \<Rightarrow>
          \<lparr>recTags = dropTags h code,
           recMeasurements =
             [(statDroppedSpans, n), (statDroppedBytes, int (length (RecData r)))]\<rparr>)"

text \<open>A result code outside the four of the \<open>switch\<close> leaves the tags unset.\<close>

definition OnSendResponse_hook ::
  "telemetryHooks \<Rightarrow> EncodedRecord \<Rightarrow> ExportResponse \<Rightarrow> recording" where
  "OnSendResponse_hook h rec response =
     \<lparr>recTags =
        (case RespResultCode response of
           SUCCESS \<Rightarrow> exportSuccessTags h
         | FAILED_NOT_RETRYABLE \<Rightarrow> exportFailedNotRetryableTags h
         | FAILED_RETRYABLE \<Rightarrow> exportFailedRetryableTags h
         | SHARD_CONFIG_MISTMATCH \<Rightarrow> exportShardConfigMismatchTags h
         | UnknownResultCode _ \<Rightarrow> []),
      recMeasurements =
        [(statSentBytes, int (length (RecData rec))), (statSentSpans, SpanCount rec)]\<rparr>"

lemmas hook_defs =
  OnSpansEnqueued_def OnSpansDequeued_def OnXLSpanTruncated_def OnSpanListFlushed_def
  OnCompressed_def OnDropSpans_def OnSendResponse_hook_def dropTags_def tag_upserts
  newTelemetryHooks_def extendTagMutator_def

section \<open>Every measurement is aggregated\<close>

text \<open>
  A recording is observed when each of its measures has a view, and each such view groups by
  tags the recording carries; otherwise its value would be aggregated under an empty tag or
  not at all.
\<close>

definition statObserved :: "mutator list \<Rightarrow> stat \<Rightarrow> bool" where
  "statObserved tags st \<longleftrightarrow>
     (\<exists>v \<in> set metricViews. Measure v = st) \<and>
     (\<forall>v \<in> set metricViews. Measure v = st \<longrightarrow> set (TagKeys v) \<subseteq> mutKey ` set tags)"

definition observed :: "recording \<Rightarrow> bool" where
  "observed r \<longleftrightarrow> (\<forall>m \<in> set (recMeasurements r). statObserved (recTags r) (fst m))"

text \<open>What the sixteen views ask of a recording, by measure.\<close>

fun viewKeys :: "stat \<Rightarrow> tagKey set" where
  "viewKeys statEnqueuedSpans = {tagExporterName}"
| "viewKeys statDequeuedSpans = {tagExporterName}"
| "viewKeys statDroppedSpans = {tagExporterName, tagDropReason}"
| "viewKeys statDroppedBytes = {tagExporterName, tagDropReason}"
| "viewKeys statSentSpans = {tagExporterName, tagSendResult}"
| "viewKeys statSentBytes = {tagExporterName, tagSendResult}"
| "viewKeys _ = {tagExporterName, tagShardID}"

lemma metricViews_groups:
  "map (\<lambda>v. (Measure v, TagKeys v)) metricViews =
     [(statCompressFactor, [tagExporterName, tagShardID]), (statFlushedSpans, [tagExporterName, tagShardID]),
      (statFlushedSpans, [tagExporterName, tagShardID]), (statFlushedSpansBytes, [tagExporterName, tagShardID]),
      (statXLSpansBytes, [tagExporterName, tagShardID]), (statXLSpansBytes, [tagExporterName, tagShardID]),
      (statEnqueuedSpans, [tagExporterName]), (statEnqueuedSpans, [tagExporterName]),
      (statDequeuedSpans, [tagExporterName]), (statDequeuedSpans, [tagExporterName]),
      (statDroppedSpans, [tagExporterName, tagDropReason]), (statDroppedSpans, [tagExporterName, tagDropReason]),
      (statDroppedBytes, [tagExporterName, tagDropReason]), (statSentSpans, [tagExporterName, tagSendResult]),
      (statSentSpans, [tagExporterName, tagSendResult]), (statSentBytes, [tagExporterName, tagSendResult])]"
  by (simp add: view_defs Let_def)

lemma statObserved_groups:
  "statObserved tags st \<longleftrightarrow>
     (\<exists>g \<in> set (map (\<lambda>v. (Measure v, TagKeys v)) metricViews). fst g = st) \<and>
     (\<forall>g \<in> set (map (\<lambda>v. (Measure v, TagKeys v)) metricViews).
        fst g = st \<longrightarrow> set (snd g) \<subseteq> mutKey ` set tags)"
  by (auto simp: statObserved_def)

lemma statObserved_iff: "statObserved tags st \<longleftrightarrow> viewKeys st \<subseteq> mutKey ` set tags"
  unfolding statObserved_groups metricViews_groups by (cases st) auto

lemma metricViews_names: "length metricViews = 16 \<and> distinct (map ViewName metricViews)"
  by code_simp

lemma tags_of_hooks:
  "mutKey ` set (commonTags (newTelemetryHooks name sid)) =
     {tagExporterName} \<union> (if sid = [] then {} else {tagShardID})"
  "mutKey ` set (dropTags (newTelemetryHooks name sid) code) =
     {tagExporterName, tagDropReason} \<union> (if sid = [] then {} else {tagShardID})"
  by (cases code; auto simp: hook_defs Let_def)+

lemma tags_of_response:
  "mutKey ` set (recTags (OnSendResponse_hook (newTelemetryHooks name sid) er resp)) =
     (if \<exists>c. RespResultCode resp = UnknownResultCode c then {}
      else {tagExporterName, tagSendResult} \<union> (if sid = [] then {} else {tagShardID}))"
  by (cases "RespResultCode resp") (auto simp: hook_defs Let_def)

lemma observed_hooks:
  "observed (OnSpansEnqueued h n) \<longleftrightarrow> {tagExporterName} \<subseteq> mutKey ` set (commonTags h)"
  "observed (OnSpansDequeued h n) \<longleftrightarrow> {tagExporterName} \<subseteq> mutKey ` set (commonTags h)"
  "observed (OnXLSpanTruncated h n) \<longleftrightarrow> {tagExporterName, tagShardID} \<subseteq> mutKey ` set (commonTags h)"
  "observed (OnSpanListFlushed h n m) \<longleftrightarrow>
     {tagExporterName, tagShardID} \<subseteq> mutKey ` set (commonTags h)"
  "observed (OnDropSpans h code n rec) \<longleftrightarrow>
     {tagExporterName, tagDropReason} \<subseteq> mutKey ` set (dropTags h code)"
  "OnCompressed h n m = Inr r \<Longrightarrow>
     observed r \<longleftrightarrow> {tagExporterName, tagShardID} \<subseteq> mutKey ` set (commonTags h)"
  "observed (OnSendResponse_hook h er resp) \<longleftrightarrow>
     {tagExporterName, tagSendResult} \<subseteq> mutKey ` set (recTags (OnSendResponse_hook h er resp))"
  by (auto simp: observed_def statObserved_iff OnSpansEnqueued_def OnSpansDequeued_def
      OnXLSpanTruncated_def OnSpanListFlushed_def OnDropSpans_def OnCompressed_def
      OnSendResponse_hook_def split: option.splits if_splits)

section \<open>Properties\<close>



end
