(* ===== verification/ShardEncoder.thy ===== *)
theory ShardEncoder
  imports Hooks
begin

text \<open>
  The encoder of one shard (\<open>exporter/omnishard/shard_encoder.go\<close>): it measures a span, cuts
  it if it is too big, accumulates spans of its shard and encodes them into a record. This
  theory holds its state and its operations, each run on its own; the interleaving of callers
  with the flushing goroutine is in \<open>ShardEncoderConc\<close>. The callbacks \<open>onRecordReady\<close> and
  \<open>onSpanProcessFail\<close> and the telemetry hooks are the events an operation returns, in the
  order of the calls. Log lines and the buffers of the \<open>gzip.Writer\<close>, which every use resets,
  are not modelled.
\<close>

section \<open>State and events\<close>

datatype event =
    RecordReady EncodedRecord "Span list" shardInMemConfig
  | SpanProcessFail "Span list" EncoderErrorCode
  | Recorded recording
  | Crashed panic

record shardEncoder =
  se_shard :: shardInMemConfig
  se_hooks :: telemetryHooks
  se_maxRecordSize :: u64
  se_maxAllowedSizePerSpan :: u64
  se_flushInterval :: int
  se_spans :: "Span list"
  se_accumulatedSize :: u64
  se_done :: bool
  se_stopped :: bool

definition compressedMagicByte :: bytes where
  "compressedMagicByte = [111, 109, 58, 106, 115, 112, 108, 122]"

definition newShardEncoder ::
  "shardInMemConfig \<Rightarrow> telemetryHooks \<Rightarrow> u64 \<Rightarrow> u64 \<Rightarrow> int \<Rightarrow> shardEncoder" where
  "newShardEncoder shard hooks maxRecordSize maxAllowedSizePerSpan batchFlushInterval =
     \<lparr>se_shard = shard, se_hooks = hooks, se_maxRecordSize = maxRecordSize,
      se_maxAllowedSizePerSpan = maxAllowedSizePerSpan, se_flushInterval = batchFlushInterval,
      se_spans = [], se_accumulatedSize = 0, se_done = False, se_stopped = False\<rparr>"

text \<open>
  The goroutine \<open>flushPeriodically\<close>: not yet started, waiting in its \<open>select\<close>, in the last
  flush after the done signal, or returned. \<open>time.NewTicker\<close> panics on an interval that is
  not positive.
\<close>

datatype flusher = NotStarted | Ticking | FinalFlush | Exited

definition shardEncoder_Start :: "shardEncoder \<Rightarrow> panic + flusher" where
  "shardEncoder_Start se =
     (if se_flushInterval se \<le> 0 then Inl NonPositiveTicker else Inr Ticking)"

section \<open>Operations\<close>

definition shardEncoder_Stop :: "shardEncoder \<Rightarrow> shardEncoder" where
  "shardEncoder_Stop se =
     (if se_stopped se then se else se\<lparr>se_stopped := True, se_done := True\<rparr>)"

definition isStopped :: "shardEncoder \<Rightarrow> bool" where
  "isStopped se = se_stopped se"

definition clearAccumulated :: "shardEncoder \<Rightarrow> shardEncoder" where
  "clearAccumulated se = se\<lparr>se_spans := [], se_accumulatedSize := 0\<rparr>"

definition compress :: "codec \<Rightarrow> bytes \<Rightarrow> bytes option" where
  "compress c input =
     (case gzip_Write c input of
        None \<Rightarrow> None
      | Some zipped \<Rightarrow> Some (compressedMagicByte @ zipped))"

text \<open>The hooks called after a record is handed over: a panic in the first skips the second.\<close>

definition flushStats :: "telemetryHooks \<Rightarrow> EncodedRecord \<Rightarrow> event list" where
  "flushStats h rec =
     (case OnCompressed h (UncompressedBytes rec) (int (length (RecData rec))) of
        Inl p \<Rightarrow> [Crashed p]
      | Inr r \<Rightarrow>
          [Recorded r, Recorded (OnSpanListFlushed h (SpanCount rec) (int (length (RecData rec))))])"

text \<open>
  The part of \<open>Flush\<close> after the test of the stopped flag: it is reached with the lock held
  and at least one span accumulated, so \<open>Spans[0]\<close> exists.
\<close>

definition flushEncode :: "codec \<Rightarrow> shardEncoder \<Rightarrow> shardEncoder \<times> event list" where
  "flushEncode c se =
     (let spans = se_spans se in
      case Marshal_SpanList c spans of
        None \<Rightarrow> (clearAccumulated se, [SpanProcessFail spans ErrEncodingFailed])
      | Some encoded \<Rightarrow>
          (case compress c encoded of
             None \<Rightarrow> (clearAccumulated se, [SpanProcessFail spans ErrEncodingFailed])
           | Some compressed \<Rightarrow>
               let rec = \<lparr>RecData = compressed,
                          PartitionKey = TraceID_String c (SpanTraceID (hd spans)),
                          SpanCount = int (length spans),
                          UncompressedBytes = int (length encoded)\<rparr>
               in (clearAccumulated se,
                   RecordReady rec spans (se_shard se) # flushStats (se_hooks se) rec)))"

definition Flush :: "codec \<Rightarrow> shardEncoder \<Rightarrow> shardEncoder \<times> event list" where
  "Flush c se =
     (if length (se_spans se) = 0 then (se, [])
      else if isStopped se then
        (clearAccumulated se, [SpanProcessFail (se_spans se) ErrEncoderStopped])
      else flushEncode c se)"

definition truncatedTags :: "nat \<Rightarrow> KeyValue list" where
  "truncatedTags sz =
     (let zero = \<lparr>Key = [], VType = VT_STRING, VStr = [], VBool = False, VInt64 = 0,
                  VFloat64 = 0, VBinary = []\<rparr>
      in [zero\<lparr>Key := ''omnition.truncated'', VBool := True, VType := VT_BOOL\<rparr>,
          zero\<lparr>Key := ''omnition.truncated.reason'', VStr := ''unsupported size'', VType := VT_STRING\<rparr>,
          zero\<lparr>Key := ''omnition.truncated.size'', VInt64 := int sz, VType := VT_INT64\<rparr>])"

datatype encodeError = MarshalError | SpansTooBig

text \<open>
  \<open>tryEncodeSpan\<close> returns the span as it leaves it, the size or the error, and the events.
\<close>

definition tryEncodeSpan ::
  "codec \<Rightarrow> shardEncoder \<Rightarrow> Span \<Rightarrow> Span \<times> (encodeError + nat) \<times> event list" where
  "tryEncodeSpan c se span =
     (case Marshal_Span c span of
        None \<Rightarrow> (span, Inl MarshalError, [SpanProcessFail [span] ErrEncodingFailed])
      | Some encoded \<Rightarrow>
          let size1 = length encoded in
          if uint_len encoded > se_maxAllowedSizePerSpan se then
            let truncated = Recorded (OnXLSpanTruncated (se_hooks se) (int size1));
                span1 = span\<lparr>SpanTags := truncatedTags size1, SpanLogs := []\<rparr>
            in (case Marshal_Span c span1 of
                  None \<Rightarrow>
                    (span1, Inl MarshalError, [truncated, SpanProcessFail [span1] ErrEncodingFailed])
                | Some encoded1 \<Rightarrow>
                    if uint_len encoded1 > se_maxAllowedSizePerSpan se then
                      (span1, Inl SpansTooBig, [truncated, SpanProcessFail [span1] ErrEncodingFailed])
                    else (span1, Inr (length encoded1), [truncated]))
          else (span, Inr size1, []))"

text \<open>
  The critical section of \<open>accumulateEncodedSpan\<close>: the result tells whether the caller goes
  on to flush.
\<close>

definition accumulateLocked ::
  "shardEncoder \<Rightarrow> Span \<Rightarrow> nat \<Rightarrow> shardEncoder \<times> bool \<times> event list" where
  "accumulateLocked se span sz =
     (if isStopped se then (se, False, [SpanProcessFail [span] ErrEncoderStopped])
      else
        let se1 = se\<lparr>se_spans := se_spans se @ [span],
                     se_accumulatedSize := se_accumulatedSize se + of_nat sz\<rparr>
        in (se1, se_accumulatedSize se1 \<ge> se_maxRecordSize se1, []))"

definition accumulateEncodedSpan ::
  "codec \<Rightarrow> shardEncoder \<Rightarrow> Span \<Rightarrow> nat \<Rightarrow> shardEncoder \<times> event list" where
  "accumulateEncodedSpan c se span sz =
     (case accumulateLocked se span sz of
        (se1, needFlush, evs) \<Rightarrow>
          if needFlush then (case Flush c se1 of (se2, evs2) \<Rightarrow> (se2, evs @ evs2)) else (se1, evs))"

definition Encode :: "codec \<Rightarrow> shardEncoder \<Rightarrow> Span \<Rightarrow> shardEncoder \<times> u64 \<times> event list" where
  "Encode c se span =
     (case tryEncodeSpan c se span of
        (span1, Inl _, evs) \<Rightarrow> (se, 0, evs)
      | (span1, Inr sz, evs) \<Rightarrow>
          (case accumulateEncodedSpan c se span1 sz of
             (se1, evs1) \<Rightarrow> (se1, of_nat sz, evs @ evs1)))"

section \<open>What the events say about spans\<close>

fun eventSpans :: "event \<Rightarrow> Span list" where
  "eventSpans (RecordReady _ spans _) = spans"
| "eventSpans (SpanProcessFail spans _) = spans"
| "eventSpans (Recorded _) = []"
| "eventSpans (Crashed _) = []"

definition eventKeys :: "event list \<Rightarrow> Span multiset" where
  "eventKeys evs = spanKeys (concat (map eventSpans evs))"

lemma eventKeys_simps [simp]:
  "eventKeys [] = {#}"
  "eventKeys (e # evs) = spanKeys (eventSpans e) + eventKeys evs"
  "eventKeys (evs @ evs') = eventKeys evs + eventKeys evs'"
  by (simp_all add: eventKeys_def)

lemma spanKey_truncated [simp]: "spanKey (s\<lparr>SpanTags := ts, SpanLogs := ls\<rparr>) = spanKey s"
  by (simp add: spanKey_def)

lemma flushStats_spans [simp]: "eventKeys (flushStats h rec) = {#}"
  by (simp add: flushStats_def split: sum.split)

section \<open>Frame conditions\<close>

lemma Flush_frame [frames]:
  assumes "Flush c se = (se', evs)"
  shows "se_shard se' = se_shard se" "se_hooks se' = se_hooks se"
    "se_maxRecordSize se' = se_maxRecordSize se"
    "se_maxAllowedSizePerSpan se' = se_maxAllowedSizePerSpan se"
    "se_flushInterval se' = se_flushInterval se"
    "se_done se' = se_done se" "se_stopped se' = se_stopped se"
  using assms
  by (auto simp: Flush_def flushEncode_def clearAccumulated_def Let_def split: option.splits if_splits)

lemma accumulateLocked_frame [frames]:
  assumes "accumulateLocked se span sz = (se', b, evs)"
  shows "se_shard se' = se_shard se" "se_hooks se' = se_hooks se"
    "se_maxRecordSize se' = se_maxRecordSize se"
    "se_maxAllowedSizePerSpan se' = se_maxAllowedSizePerSpan se"
    "se_flushInterval se' = se_flushInterval se"
    "se_done se' = se_done se" "se_stopped se' = se_stopped se"
  using assms by (auto simp: accumulateLocked_def Let_def split: if_splits)

lemma shardEncoder_Stop_frame [simp]:
  "se_shard (shardEncoder_Stop se) = se_shard se" "se_hooks (shardEncoder_Stop se) = se_hooks se"
  "se_maxRecordSize (shardEncoder_Stop se) = se_maxRecordSize se"
  "se_maxAllowedSizePerSpan (shardEncoder_Stop se) = se_maxAllowedSizePerSpan se"
  "se_flushInterval (shardEncoder_Stop se) = se_flushInterval se"
  "se_spans (shardEncoder_Stop se) = se_spans se"
  "se_accumulatedSize (shardEncoder_Stop se) = se_accumulatedSize se"
  "se_stopped (shardEncoder_Stop se)"
  by (auto simp: shardEncoder_Stop_def)

section \<open>Conservation of spans\<close>

lemma Flush_conserves [conserves]:
  "Flush c se = (se', evs) \<Longrightarrow> spanKeys (se_spans se') + eventKeys evs = spanKeys (se_spans se)"
  by (auto simp: Flush_def flushEncode_def clearAccumulated_def Let_def split: option.splits if_splits)

lemma Flush_empties: "Flush c se = (se', evs) \<Longrightarrow> se_spans se' = []"
  by (auto simp: Flush_def flushEncode_def clearAccumulated_def Let_def split: option.splits if_splits)

lemma accumulateLocked_conserves [conserves]:
  "accumulateLocked se span sz = (se', b, evs) \<Longrightarrow>
     spanKeys (se_spans se') + eventKeys evs = add_mset (spanKey span) (spanKeys (se_spans se))"
  by (auto simp: accumulateLocked_def Let_def split: if_splits)

lemma tryEncodeSpan_Inl:
  "tryEncodeSpan c se span = (span', Inl e, evs) \<Longrightarrow>
     spanKey span' = spanKey span \<and>
     (\<exists>pre. evs = pre @ [SpanProcessFail [span'] ErrEncodingFailed] \<and> eventKeys pre = {#})"
  by (auto simp: tryEncodeSpan_def Let_def split: option.splits if_splits)

lemma tryEncodeSpan_Inr:
  "tryEncodeSpan c se span = (span', Inr sz, evs) \<Longrightarrow>
     spanKey span' = spanKey span \<and> eventKeys evs = {#} \<and>
     (\<exists>b. Marshal_Span c span' = Some b \<and> sz = length b \<and> uint_len b \<le> se_maxAllowedSizePerSpan se)"
  by (auto simp: tryEncodeSpan_def Let_def not_less split: option.splits if_splits)

lemma accumulateEncodedSpan_conserves [conserves]:
  assumes "accumulateEncodedSpan c se span sz = (se', evs)"
  shows "spanKeys (se_spans se') + eventKeys evs = add_mset (spanKey span) (spanKeys (se_spans se))"
proof -
  obtain se1 nf evs1 where 1: "accumulateLocked se span sz = (se1, nf, evs1)"
    by (cases "accumulateLocked se span sz") auto
  obtain se2 evs2 where 2: "Flush c se1 = (se2, evs2)" by fastforce
  from assms 1 2 show ?thesis
    using accumulateLocked_conserves [OF 1] Flush_conserves [OF 2]
    by (auto simp: accumulateEncodedSpan_def ac_simps split: if_splits)
qed

lemma Encode_conserves [conserves]:
  assumes "Encode c se span = (se', r, evs)"
  shows "spanKeys (se_spans se') + eventKeys evs = add_mset (spanKey span) (spanKeys (se_spans se))"
proof -
  obtain span1 res evs1 where 1: "tryEncodeSpan c se span = (span1, res, evs1)"
    by (cases "tryEncodeSpan c se span") auto
  show ?thesis
  proof (cases res)
    case (Inl e)
    with assms 1 tryEncodeSpan_Inl [of c se span span1 e evs1] show ?thesis
      by (auto simp: Encode_def)
  next
    case (Inr sz)
    obtain se2 evs2 where 2: "accumulateEncodedSpan c se span1 sz = (se2, evs2)" by fastforce
    from assms 1 2 Inr tryEncodeSpan_Inr [of c se span span1 sz evs1]
      accumulateEncodedSpan_conserves [OF 2]
    show ?thesis by (auto simp: Encode_def)
  qed
qed

text \<open>
  The three operations of the encoder as one, and the contract that every sequence of them
  conserves the spans it is given.
\<close>

datatype se_call = CallEncode Span | CallFlush | CallStop

fun se_oper :: "codec \<Rightarrow> se_call \<Rightarrow> shardEncoder \<Rightarrow> shardEncoder \<times> event list" where
  "se_oper c (CallEncode span) se = (case Encode c se span of (se', _, evs) \<Rightarrow> (se', evs))"
| "se_oper c CallFlush se = Flush c se"
| "se_oper c CallStop se = (shardEncoder_Stop se, [])"

fun callKeys :: "se_call \<Rightarrow> Span multiset" where
  "callKeys (CallEncode span) = {#spanKey span#}"
| "callKeys _ = {#}"

interpretation shard_encoder: conserving_ops "se_oper c" "\<lambda>se. spanKeys (se_spans se)" callKeys eventKeys
  for c
proof
  fix i se se' out
  assume "se_oper c i se = (se', out)"
  then show "spanKeys (se_spans se') + eventKeys out = spanKeys (se_spans se) + callKeys i"
    by (cases i) (auto dest: conserves split: prod.splits)
qed simp_all

section \<open>Records\<close>

lemma compress_length: "compress c b = Some z \<Longrightarrow> 8 \<le> length z"
  by (auto simp: compress_def compressedMagicByte_def split: option.splits)

lemma compress_nonempty: "compress c b = Some z \<Longrightarrow> z \<noteq> []"
  by (auto dest: compress_length)

lemma flushStats_no_crash:
  "RecData rec \<noteq> [] \<Longrightarrow> Crashed p \<notin> set (flushStats h rec)"
  by (simp add: flushStats_def OnCompressed_def)

text \<open>The four outcomes of a flush.\<close>

lemma Flush_cases:
  assumes "Flush c se = (se', evs)"
  obtains (empty) "se_spans se = []" "se' = se" "evs = []"
  | (stopped) "se_spans se \<noteq> []" "se_stopped se" "se' = clearAccumulated se"
      "evs = [SpanProcessFail (se_spans se) ErrEncoderStopped]"
  | (failed) "se_spans se \<noteq> []" "\<not> se_stopped se" "se' = clearAccumulated se"
      "evs = [SpanProcessFail (se_spans se) ErrEncodingFailed]"
  | (ready) b z rec where "se_spans se \<noteq> []" "\<not> se_stopped se" "se' = clearAccumulated se"
      "Marshal_SpanList c (se_spans se) = Some b" "compress c b = Some z"
      "rec = \<lparr>RecData = z, PartitionKey = TraceID_String c (SpanTraceID (hd (se_spans se))),
              SpanCount = int (length (se_spans se)), UncompressedBytes = int (length b)\<rparr>"
      "evs = RecordReady rec (se_spans se) (se_shard se) # flushStats (se_hooks se) rec"
proof (cases "se_spans se = []")
  case True
  with assms show thesis by (intro empty) (simp_all add: Flush_def)
next
  case nonempty: False
  show thesis
  proof (cases "se_stopped se")
    case True
    with assms nonempty show thesis by (intro stopped) (simp_all add: Flush_def isStopped_def)
  next
    case running: False
    show thesis
    proof (cases "Marshal_SpanList c (se_spans se)")
      case None
      with assms nonempty running show thesis
        by (intro failed) (simp_all add: Flush_def flushEncode_def isStopped_def)
    next
      case b: (Some b)
      with assms nonempty running failed ready [of b] show thesis
        by (cases "compress c b") (simp_all add: Flush_def flushEncode_def isStopped_def Let_def)
    qed
  qed
qed

lemma flushStats_no_record: "RecordReady r ss sh \<notin> set (flushStats h rec)"
  by (simp add: flushStats_def split: sum.split)

lemma flushStats_no_fail: "SpanProcessFail ss code \<notin> set (flushStats h rec)"
  by (simp add: flushStats_def split: sum.split)

lemma Flush_RecordReady:
  assumes "Flush c se = (se', evs)" and "RecordReady rec spans shard \<in> set evs"
  shows "\<not> se_stopped se \<and> spans = se_spans se \<and> spans \<noteq> [] \<and> shard = se_shard se \<and>
    SpanCount rec = int (length spans) \<and>
    PartitionKey rec = TraceID_String c (SpanTraceID (hd spans)) \<and>
    (\<exists>b. Marshal_SpanList c spans = Some b \<and> compress c b = Some (RecData rec) \<and>
         UncompressedBytes rec = int (length b))"
  using assms(1)
proof (cases rule: Flush_cases)
  case (ready b z r)
  from assms(2) ready(7) have "rec = r" "spans = se_spans se" "shard = se_shard se"
    by (auto simp: flushStats_no_record)
  with ready(1,2,4-6) show ?thesis by simp
qed (use assms(2) in simp_all)

lemma Flush_no_crash: "Flush c se = (se', evs) \<Longrightarrow> Crashed p \<notin> set evs"
  by (erule Flush_cases) (auto dest!: compress_nonempty simp: flushStats_no_crash)

lemma tryEncodeSpan_events:
  "tryEncodeSpan c se span = (span', res, evs) \<Longrightarrow>
     Crashed p \<notin> set evs \<and> RecordReady r ss sh \<notin> set evs"
  by (auto simp: tryEncodeSpan_def Let_def split: option.splits if_splits)

lemma accumulateLocked_events:
  "accumulateLocked se span sz = (se', b, evs) \<Longrightarrow>
     Crashed p \<notin> set evs \<and> RecordReady r ss sh \<notin> set evs"
  by (auto simp: accumulateLocked_def Let_def split: if_splits)

text \<open>The way an encoded span goes: a rejected span, a stopped encoder, or an accumulated span.\<close>

lemma Encode_cases:
  assumes "Encode c se span = (se', r, evs)"
  obtains (rejected) span1 e where "tryEncodeSpan c se span = (span1, Inl e, evs)" "se' = se" "r = 0"
  | (kept) span1 sz evs1 evs2 where "tryEncodeSpan c se span = (span1, Inr sz, evs1)"
      "accumulateLocked se span1 sz = (se', False, evs2)" "evs = evs1 @ evs2" "r = of_nat sz"
  | (flushed) span1 sz evs1 se1 evs2 where "tryEncodeSpan c se span = (span1, Inr sz, evs1)"
      "accumulateLocked se span1 sz = (se1, True, [])" "Flush c se1 = (se', evs2)"
      "evs = evs1 @ evs2" "r = of_nat sz"
proof -
  obtain span1 res evs1 where 1: "tryEncodeSpan c se span = (span1, res, evs1)"
    by (cases "tryEncodeSpan c se span") auto
  show thesis
  proof (cases res)
    case (Inl e)
    with assms 1 have "tryEncodeSpan c se span = (span1, Inl e, evs)" "se' = se" "r = 0"
      by (simp_all add: Encode_def)
    then show thesis by (rule rejected)
  next
    case (Inr sz)
    obtain se1 nf evs2 where 2: "accumulateLocked se span1 sz = (se1, nf, evs2)"
      by (cases "accumulateLocked se span1 sz") auto
    obtain se2 evs3 where 3: "Flush c se1 = (se2, evs3)" by fastforce
    show thesis
    proof (cases nf)
      case True
      with 2 have "evs2 = []" by (auto simp: accumulateLocked_def Let_def split: if_splits)
      with assms 1 2 3 Inr True have "tryEncodeSpan c se span = (span1, Inr sz, evs1)"
        "accumulateLocked se span1 sz = (se1, True, [])" "Flush c se1 = (se', evs3)"
        "evs = evs1 @ evs3" "r = of_nat sz"
        by (simp_all add: Encode_def accumulateEncodedSpan_def)
      then show thesis by (rule flushed)
    next
      case False
      with assms 1 2 Inr have "tryEncodeSpan c se span = (span1, Inr sz, evs1)"
        "accumulateLocked se span1 sz = (se', False, evs2)" "evs = evs1 @ evs2" "r = of_nat sz"
        by (simp_all add: Encode_def accumulateEncodedSpan_def)
      then show thesis by (rule kept)
    qed
  qed
qed

section \<open>Size accounting\<close>

definition spanSize :: "codec \<Rightarrow> Span \<Rightarrow> nat" where
  "spanSize c s = (case Marshal_Span c s of None \<Rightarrow> 0 | Some b \<Rightarrow> length b)"

definition batchSize :: "codec \<Rightarrow> Span list \<Rightarrow> nat" where
  "batchSize c ss = sum_list (map (spanSize c) ss)"

text \<open>The length of a Go slice is an \<open>int\<close>: below \<open>2 ^ 63\<close>.\<close>

definition goSlices :: "codec \<Rightarrow> bool" where
  "goSlices c \<longleftrightarrow> (\<forall>s b. Marshal_Span c s = Some b \<longrightarrow> length b < 2 ^ 63)"

text \<open>
  The accumulated size is the sum of the sizes of the accumulated spans, each of which fits
  the limit of a span.
\<close>

definition accounted :: "codec \<Rightarrow> shardEncoder \<Rightarrow> bool" where
  "accounted c se \<longleftrightarrow>
     se_accumulatedSize se = of_nat (batchSize c (se_spans se)) \<and>
     (\<forall>s \<in> set (se_spans se).
        \<exists>b. Marshal_Span c s = Some b \<and> uint_len b \<le> se_maxAllowedSizePerSpan se)"

text \<open>Between two operations the batch is smaller than a full record.\<close>

definition withinRecord :: "codec \<Rightarrow> shardEncoder \<Rightarrow> bool" where
  "withinRecord c se \<longleftrightarrow>
     accounted c se \<and> batchSize c (se_spans se) < unat (se_maxRecordSize se)"

text \<open>The two limits do not exceed the address space together.\<close>

definition limitsFit :: "shardEncoder \<Rightarrow> bool" where
  "limitsFit se \<longleftrightarrow> unat (se_maxRecordSize se) + unat (se_maxAllowedSizePerSpan se) \<le> 2 ^ 64"

lemma batchSize_simps [simp]:
  "batchSize c [] = 0"
  "batchSize c (s # ss) = spanSize c s + batchSize c ss"
  "batchSize c (ss @ ts) = batchSize c ss + batchSize c ts"
  by (simp_all add: batchSize_def)

lemma accounted_clear [simp]: "accounted c (clearAccumulated se)"
  by (simp add: accounted_def clearAccumulated_def)

lemma accounted_Flush: "Flush c se = (se', evs) \<Longrightarrow> accounted c se \<Longrightarrow> accounted c se'"
  by (erule Flush_cases) simp_all

lemma accounted_accumulateLocked:
  assumes "accumulateLocked se span sz = (se', b, evs)" and "accounted c se"
    and "Marshal_Span c span = Some m" and "sz = length m" and "uint_len m \<le> se_maxAllowedSizePerSpan se"
  shows "accounted c se'"
  using assms by (auto simp: accumulateLocked_def accounted_def spanSize_def Let_def split: if_splits)

lemma withinRecord_Flush:
  assumes "Flush c se = (se', evs)" and "accounted c se" and "0 < se_maxRecordSize se"
  shows "withinRecord c se'"
  using accounted_Flush [OF assms(1,2)] Flush_empties [OF assms(1)] Flush_frame(3) [OF assms(1)] assms(3)
  by (simp add: withinRecord_def unat_gt_0)

text \<open>Appending one span to a batch below the record size stays below both limits together.\<close>

lemma accumulateLocked_size:
  assumes acc: "accumulateLocked se span sz = (se', nf, evs)" and within: "withinRecord c se"
    and m: "Marshal_Span c span = Some m" "sz = length m" "uint_len m \<le> se_maxAllowedSizePerSpan se"
    and go: "goSlices c" and fit: "limitsFit se"
  shows "batchSize c (se_spans se') < unat (se_maxRecordSize se) + unat (se_maxAllowedSizePerSpan se)"
    and "\<not> nf \<Longrightarrow> withinRecord c se'"
    and "nf \<Longrightarrow> se_spans se' = se_spans se @ [span] \<and>
      unat (se_maxRecordSize se) \<le> batchSize c (se_spans se')"
proof -
  have acc': "accounted c se'"
    using accounted_accumulateLocked [OF acc _ m] within by (simp add: withinRecord_def)
  have "length m < 2 ^ 64" using go m(1) unfolding goSlices_def by (fastforce intro: less_trans)
  then have sz: "sz \<le> unat (se_maxAllowedSizePerSpan se)"
    using m(2,3) by (simp add: word_le_nat_alt unat_uint_len)
  have size': "batchSize c (se_spans se') \<le> batchSize c (se_spans se) + sz"
    using acc m by (auto simp: accumulateLocked_def spanSize_def Let_def split: if_splits)
  with within sz show bound:
    "batchSize c (se_spans se') < unat (se_maxRecordSize se) + unat (se_maxAllowedSizePerSpan se)"
    by (simp add: withinRecord_def)
  with fit have small: "batchSize c (se_spans se') < 2 ^ 64" by (simp add: limitsFit_def)
  have flag: "nf \<longleftrightarrow> \<not> se_stopped se \<and> unat (se_maxRecordSize se) \<le> batchSize c (se_spans se')"
    if "\<not> se_stopped se"
  proof -
    have "unat (se_accumulatedSize se') = batchSize c (se_spans se')"
      using acc' small by (simp add: accounted_def unat_of_nat take_bit_nat_eq_self)
    with acc that show ?thesis
      by (auto simp: accumulateLocked_def isStopped_def word_le_nat_alt Let_def split: if_splits)
  qed
  show "nf \<Longrightarrow> se_spans se' = se_spans se @ [span] \<and>
      unat (se_maxRecordSize se) \<le> batchSize c (se_spans se')"
    using acc flag by (auto simp: accumulateLocked_def isStopped_def Let_def split: if_splits)
  show "\<not> nf \<Longrightarrow> withinRecord c se'"
  proof (cases "se_stopped se")
    case True
    with acc within show ?thesis by (auto simp: accumulateLocked_def isStopped_def)
  next
    case False
    assume "\<not> nf"
    with flag [OF False] acc' False accumulateLocked_frame(3) [OF acc] show ?thesis
      by (simp add: withinRecord_def)
  qed
qed

section \<open>Runs of operations\<close>

text \<open>A record holds a non-empty batch that was below the record size before its last span.\<close>

definition batchOk :: "codec \<Rightarrow> u64 \<Rightarrow> u64 \<Rightarrow> Span list \<Rightarrow> bool" where
  "batchOk c maxRecord maxSpan ss \<longleftrightarrow>
     ss \<noteq> [] \<and> batchSize c ss < unat maxRecord + unat maxSpan \<and>
     batchSize c (butlast ss) < unat maxRecord \<and>
     (\<forall>s \<in> set ss. \<exists>b. Marshal_Span c s = Some b \<and> uint_len b \<le> maxSpan)"

definition batchesOk :: "codec \<Rightarrow> shardEncoder \<Rightarrow> event list \<Rightarrow> bool" where
  "batchesOk c se evs \<longleftrightarrow>
     (\<forall>e \<in> set evs. case e of
        RecordReady rec ss sh \<Rightarrow> batchOk c (se_maxRecordSize se) (se_maxAllowedSizePerSpan se) ss
      | _ \<Rightarrow> True)"

lemma batchSize_butlast: "batchSize c (butlast ss) \<le> batchSize c ss"
  by (cases ss rule: rev_cases) simp_all

lemma batchesOk_simps:
  "batchesOk c se []"
  "batchesOk c se (evs @ evs') \<longleftrightarrow> batchesOk c se evs \<and> batchesOk c se evs'"
  by (auto simp: batchesOk_def)

lemma batchesOk_no_record:
  "(\<And>r ss sh. RecordReady r ss sh \<notin> set evs) \<Longrightarrow> batchesOk c se evs"
  by (auto simp: batchesOk_def split: event.split)

lemma batchesOk_limits:
  "se_maxRecordSize se1 = se_maxRecordSize se \<Longrightarrow>
   se_maxAllowedSizePerSpan se1 = se_maxAllowedSizePerSpan se \<Longrightarrow>
     batchesOk c se1 evs \<longleftrightarrow> batchesOk c se evs"
  by (simp only: batchesOk_def)

lemma batchesOkD:
  "batchesOk c se evs \<Longrightarrow> RecordReady rec ss sh \<in> set evs \<Longrightarrow>
     batchOk c (se_maxRecordSize se) (se_maxAllowedSizePerSpan se) ss"
  by (force simp: batchesOk_def)

lemma Flush_batchesOk:
  assumes "Flush c se = (se', evs)" and "accounted c se"
    and "batchSize c (se_spans se) < unat (se_maxRecordSize se) + unat (se_maxAllowedSizePerSpan se)"
    and "batchSize c (butlast (se_spans se)) < unat (se_maxRecordSize se)"
  shows "batchesOk c se evs"
  using assms(2-4) Flush_RecordReady [OF assms(1)]
  by (auto simp: batchesOk_def batchOk_def accounted_def split: event.split)

lemma Flush_within:
  assumes "Flush c se = (se', evs)" and "withinRecord c se"
  shows "withinRecord c se' \<and> batchesOk c se evs"
proof
  have "0 < se_maxRecordSize se" using assms(2) by (auto simp: withinRecord_def intro: less_unat_pos)
  with assms(2) show "withinRecord c se'"
    by (intro withinRecord_Flush [OF assms(1)]) (simp_all add: withinRecord_def)
  from assms show "batchesOk c se evs"
    using batchSize_butlast [of c "se_spans se"]
    by (intro Flush_batchesOk) (auto simp: withinRecord_def)
qed

lemma Encode_within:
  assumes "Encode c se span = (se', r, evs)" and within: "withinRecord c se"
    and go: "goSlices c" and fit: "limitsFit se"
  shows "withinRecord c se' \<and> batchesOk c se evs"
  using assms(1)
proof (cases rule: Encode_cases)
  case (rejected span1 e)
  with within show ?thesis by (auto intro: batchesOk_no_record dest: tryEncodeSpan_events)
next
  case (kept span1 sz evs1 evs2)
  from tryEncodeSpan_Inr [OF kept(1)] obtain m
    where m: "Marshal_Span c span1 = Some m" "sz = length m" "uint_len m \<le> se_maxAllowedSizePerSpan se"
    by blast
  from kept show ?thesis
    using accumulateLocked_size(2) [OF kept(2) within m go fit]
    by (auto simp: batchesOk_simps intro: batchesOk_no_record
        dest: tryEncodeSpan_events accumulateLocked_events)
next
  case (flushed span1 sz evs1 se1 evs2)
  from tryEncodeSpan_Inr [OF flushed(1)] obtain m
    where m: "Marshal_Span c span1 = Some m" "sz = length m" "uint_len m \<le> se_maxAllowedSizePerSpan se"
    by blast
  note fr = accumulateLocked_frame [OF flushed(2)]
  have acc1: "accounted c se1"
    using accounted_accumulateLocked [OF flushed(2) _ m] within by (simp add: withinRecord_def)
  have pos: "0 < se_maxRecordSize se1"
    using within fr(3) by (auto simp: withinRecord_def intro: less_unat_pos)
  have "se_spans se1 = se_spans se @ [span1]"
    using accumulateLocked_size(3) [OF flushed(2) within m go fit] by simp
  with within fr(3) have "batchSize c (butlast (se_spans se1)) < unat (se_maxRecordSize se1)"
    by (simp add: withinRecord_def)
  with accumulateLocked_size(1) [OF flushed(2) within m go fit] have "batchesOk c se1 evs2"
    by (intro Flush_batchesOk [OF flushed(3) acc1]) (simp_all add: fr)
  then have "batchesOk c se evs2" by (simp only: batchesOk_limits [OF fr(3,4)])
  moreover have "batchesOk c se evs1"
    by (rule batchesOk_no_record) (use tryEncodeSpan_events [OF flushed(1)] in blast)
  ultimately show ?thesis
    using withinRecord_Flush [OF flushed(3) acc1 pos] flushed(4) by (simp add: batchesOk_simps)
qed

lemma se_oper_frame [frames]:
  assumes "se_oper c op se = (se', evs)"
  shows "se_maxRecordSize se' = se_maxRecordSize se"
    "se_maxAllowedSizePerSpan se' = se_maxAllowedSizePerSpan se" "se_shard se' = se_shard se"
proof -
  have enc: "se_maxRecordSize se' = se_maxRecordSize se \<and>
    se_maxAllowedSizePerSpan se' = se_maxAllowedSizePerSpan se \<and> se_shard se' = se_shard se"
    if "Encode c se span = (se', r, evs)" for span r
    using that
  proof (cases rule: Encode_cases)
    case (kept span1 sz evs1 evs2)
    then show ?thesis using accumulateLocked_frame [OF kept(2)] by simp
  next
    case (flushed span1 sz evs1 se1 evs2)
    then show ?thesis using accumulateLocked_frame [OF flushed(2)] Flush_frame [OF flushed(3)] by simp
  qed simp
  from assms enc show "se_maxRecordSize se' = se_maxRecordSize se"
    "se_maxAllowedSizePerSpan se' = se_maxAllowedSizePerSpan se" "se_shard se' = se_shard se"
    by (cases op; auto dest: Flush_frame split: prod.splits)+
qed

lemma se_oper_within:
  assumes "se_oper c op se = (se', evs)" and "withinRecord c se" and "goSlices c" and "limitsFit se"
  shows "withinRecord c se' \<and> batchesOk c se evs"
proof (cases op)
  case (CallEncode span)
  with assms Encode_within show ?thesis by (auto split: prod.splits)
next
  case CallFlush
  with assms Flush_within show ?thesis by auto
next
  case CallStop
  with assms(1,2) show ?thesis
    by (auto simp: withinRecord_def accounted_def batchesOk_simps)
qed

lemma run_within:
  assumes "run_ops (se_oper c) calls se = (se', evs)" and "withinRecord c se" and "goSlices c" and "limitsFit se"
  shows "withinRecord c se' \<and> batchesOk c se evs"
  using assms
proof (induction calls arbitrary: se se' evs)
  case Nil
  then show ?case by (simp add: batchesOk_simps)
next
  case (Cons op calls)
  obtain se1 evs1 where 1: "se_oper c op se = (se1, evs1)" by fastforce
  obtain se2 evs2 where 2: "run_ops (se_oper c) calls se1 = (se2, evs2)" by fastforce
  from Cons.prems 1 2 have eqs: "se' = se2" "evs = evs1 @ evs2" by auto
  note fr = se_oper_frame [OF 1]
  from se_oper_within [OF 1 Cons.prems(2-4)] have w: "withinRecord c se1" "batchesOk c se evs1" by auto
  from Cons.prems(4) fr have "limitsFit se1" by (simp add: limitsFit_def)
  from Cons.IH [OF 2 w(1) Cons.prems(3) this] w(2) show ?case
    by (simp add: eqs batchesOk_simps batchesOk_limits [OF fr(1,2)])
qed

lemma withinRecord_new: "0 < maxRecord \<Longrightarrow> withinRecord c (newShardEncoder sh h maxRecord maxSpan iv)"
  by (simp add: withinRecord_def accounted_def newShardEncoder_def unat_gt_0)

lemma run_no_crash: "Crashed p \<notin> set (snd (run_ops (se_oper c) calls se))"
proof (induction calls arbitrary: se)
  case (Cons op calls)
  have "Crashed p \<notin> set (snd (se_oper c op se))"
  proof (cases op)
    case (CallEncode span)
    obtain se' r evs where e: "Encode c se span = (se', r, evs)" by (cases "Encode c se span") auto
    then have "Crashed p \<notin> set evs"
      by (cases rule: Encode_cases)
        (auto dest: tryEncodeSpan_events [where p = p] accumulateLocked_events [where p = p]
          Flush_no_crash [where p = p])
    with e CallEncode show ?thesis by simp
  next
    case CallFlush
    then show ?thesis using Flush_no_crash by (metis se_oper.simps(2) prod.collapse)
  qed simp
  with Cons.IH [of "fst (se_oper c op se)"] show ?case by (auto split: prod.splits)
qed simp

section \<open>A concrete encoder\<close>

text \<open>
  External functions and spans for the examples below: a span encodes to its opaque bytes and
  ten bytes per log line, a list of spans to the concatenation, and \<open>gzip\<close> to a marker byte
  in front.
\<close>

definition sampleCodec :: codec where
  "sampleCodec =
     \<lparr>TraceID_String = (\<lambda>_. ''abc''),
      Marshal_Span = (\<lambda>s. if SpanRest s = [0] then None
         else Some (take 1000 (SpanRest s @ replicate (10 * length (SpanLogs s)) 0))),
      Marshal_SpanList = (\<lambda>ss. Some (concat (map SpanRest ss))),
      gzip_Write = (\<lambda>b. Some (31 # b))\<rparr>"

definition sampleSpan :: "nat \<Rightarrow> nat \<Rightarrow> Span" where
  "sampleSpan n logs =
     \<lparr>SpanTraceID = \<lparr>High = 0, Low = 1\<rparr>, SpanID = of_nat n, OperationName = ''op'', SpanTags = [],
      SpanLogs = replicate logs \<lparr>LogTimestamp = 0, LogFields = []\<rparr>, SpanProcess = None,
      SpanRest = replicate n 7\<rparr>"

definition sampleShard :: shardInMemConfig where
  "sampleShard = toInMem \<lparr>ShardId = ''s1'', StartingHashKey = [], EndingHashKey = [9]\<rparr>"

definition sampleHooks :: telemetryHooks where
  "sampleHooks = newTelemetryHooks ''omnishard'' ''s1''"

definition sampleEncoder :: shardEncoder where
  "sampleEncoder = newShardEncoder sampleShard sampleHooks 10 60 1"

lemma sampleCodec_slices: "goSlices sampleCodec"
  by (auto simp: goSlices_def sampleCodec_def split: if_splits)

section \<open>Properties\<close>

text \<open>
  no span is lost or duplicated by a shard encoder. Over any sequence of \<open>Encode\<close>,
  \<open>Flush\<close> and \<open>Stop\<close> on a new encoder, the spans handed to \<open>Encode\<close> are exactly those
  emitted in records, those returned as failed and those still accumulated; encoding may
  change nothing of a span but its tags and logs.
\<close>

lemma shardEncoder_conserves_spans:
  "run_ops (se_oper c) calls (newShardEncoder shard hooks maxRecord maxSpan interval) = (se, evs) \<Longrightarrow>
     spanKeys (se_spans se) + eventKeys evs = (\<Sum>call\<leftarrow>calls. callKeys call)"
  using shard_encoder.run_conserves [of c calls "newShardEncoder shard hooks maxRecord maxSpan interval"]
  by (simp add: newShardEncoder_def)

text \<open>The run of the two witnesses below: one span of 8 bytes, then one of 50.\<close>

definition sampleCalls :: "se_call list" where
  "sampleCalls = [CallEncode (sampleSpan 8 0), CallEncode (sampleSpan 50 0), CallEncode (sampleSpan 3 0)]"

definition sampleRecord :: EncodedRecord where
  "sampleRecord =
     \<lparr>RecData = [111, 109, 58, 106, 115, 112, 108, 122, 31] @ replicate 58 7,
      PartitionKey = ''abc'', SpanCount = 2, UncompressedBytes = 58\<rparr>"

lemma sample_run:
  "se_spans (fst (run_ops (se_oper sampleCodec) sampleCalls sampleEncoder)) = [sampleSpan 3 0]"
  "RecordReady sampleRecord [sampleSpan 8 0, sampleSpan 50 0] sampleShard
     \<in> set (snd (run_ops (se_oper sampleCodec) sampleCalls sampleEncoder))"
  by code_simp+

lemma shardEncoder_conserves_spans_witness:
  "add_mset (spanKey (sampleSpan 3 0))
     (eventKeys (snd (run_ops (se_oper sampleCodec) sampleCalls sampleEncoder))) =
   spanKeys [sampleSpan 8 0, sampleSpan 50 0, sampleSpan 3 0]"
  using shardEncoder_conserves_spans
      [OF surjective_pairing [of "run_ops (se_oper sampleCodec) sampleCalls sampleEncoder",
        unfolded sampleEncoder_def]]
    sample_run(1)
  by (simp add: sampleCalls_def sampleEncoder_def ac_simps)



text \<open>
  How a receiver reads a record back, as the exporter's unit tests do: check the magic bytes,
  unzip the rest, decode the span list.
\<close>

definition decodeRecord ::
  "(bytes \<Rightarrow> bytes option) \<Rightarrow> (bytes \<Rightarrow> Span list option) \<Rightarrow> bytes \<Rightarrow> Span list option" where
  "decodeRecord gunzip unmarshal data =
     (if take 8 data = compressedMagicByte then Option.bind (gunzip (drop 8 data)) unmarshal
      else None)"

text \<open>
  C19: a record can be decoded to exactly the spans it was made from, and says the truth about
  them: when \<open>gunzip\<close> inverts \<open>gzip\<close> and unmarshalling inverts marshalling on the batch, the
  data decodes to the accumulated spans, \<open>SpanCount\<close> is their number, \<open>UncompressedBytes\<close> the
  length of their encoding and \<open>PartitionKey\<close> the trace id of the first one.
\<close>

theorem Flush_record_decodes:
  assumes "\<And>b z. gzip_Write c b = Some z \<Longrightarrow> gunzip z = Some b"
    and "\<And>b. Marshal_SpanList c (se_spans se) = Some b \<Longrightarrow> unmarshal b = Some (se_spans se)"
    and "Flush c se = (se', evs)" and "RecordReady rec ss sh \<in> set evs"
  shows "decodeRecord gunzip unmarshal (RecData rec) = Some ss \<and> ss = se_spans se \<and>
    sh = se_shard se \<and> SpanCount rec = int (length ss) \<and>
    PartitionKey rec = TraceID_String c (SpanTraceID (hd ss)) \<and>
    Marshal_SpanList c ss \<noteq> None \<and>
    UncompressedBytes rec = int (length (the (Marshal_SpanList c ss)))"
proof -
  from Flush_RecordReady [OF assms(3,4)] obtain b
    where b: "Marshal_SpanList c ss = Some b" "compress c b = Some (RecData rec)"
      "UncompressedBytes rec = int (length b)" and ss: "ss = se_spans se" by blast
  from b(2) obtain z where "gzip_Write c b = Some z" "RecData rec = compressedMagicByte @ z"
    by (auto simp: compress_def split: option.splits)
  with assms(1,2) b(1) ss have "decodeRecord gunzip unmarshal (RecData rec) = Some ss"
    by (simp add: decodeRecord_def compressedMagicByte_def)
  with Flush_RecordReady [OF assms(3,4)] b show ?thesis by simp
qed

definition sampleFull :: shardEncoder where
  "sampleFull = sampleEncoder\<lparr>se_spans := [sampleSpan 8 0, sampleSpan 50 0]\<rparr>"

lemma sampleFull_record:
  "RecordReady sampleRecord [sampleSpan 8 0, sampleSpan 50 0] sampleShard
     \<in> set (snd (Flush sampleCodec sampleFull))"
  by code_simp

theorem Flush_record_decodes_witness:
  "decodeRecord (\<lambda>z. Some (tl z)) (\<lambda>_. Some [sampleSpan 8 0, sampleSpan 50 0]) (RecData sampleRecord) =
     Some [sampleSpan 8 0, sampleSpan 50 0]"
  by (rule Flush_record_decodes [where gunzip = "\<lambda>z. Some (tl z)"
        and unmarshal = "\<lambda>_. Some [sampleSpan 8 0, sampleSpan 50 0]",
        OF _ _ surjective_pairing [of "Flush sampleCodec sampleFull"] sampleFull_record,
        THEN conjunct1])
    (auto simp: sampleCodec_def sampleFull_def)

text \<open>
  measuring a span. A span that fits is left alone. One that does not loses its logs, has
  its tags replaced by the truncation notice with its original size, and is measured again.
  On success the size is that of the span as returned and within the limit, and nothing is
  reported as failed; on an error the span is reported exactly once, as \<open>ErrEncodingFailed\<close>.
\<close>

lemma tryEncodeSpan_correct:
  "case tryEncodeSpan c se span of (span', res, evs) \<Rightarrow>
     spanKey span' = spanKey span \<and>
     span' = (case Marshal_Span c span of
        None \<Rightarrow> span
      | Some b \<Rightarrow> if uint_len b \<le> se_maxAllowedSizePerSpan se then span
          else span\<lparr>SpanTags := truncatedTags (length b), SpanLogs := []\<rparr>) \<and>
     (case res of
        Inr sz \<Rightarrow> (case Marshal_Span c span' of None \<Rightarrow> False
          | Some b \<Rightarrow> sz = length b \<and> uint_len b \<le> se_maxAllowedSizePerSpan se) \<and>
          concat (map eventSpans evs) = []
      | Inl MarshalError \<Rightarrow> Marshal_Span c span' = None \<and>
          filter (\<lambda>e. eventSpans e \<noteq> []) evs = [SpanProcessFail [span'] ErrEncodingFailed]
      | Inl SpansTooBig \<Rightarrow> (case Marshal_Span c span' of None \<Rightarrow> False
          | Some b \<Rightarrow> uint_len b > se_maxAllowedSizePerSpan se) \<and>
          filter (\<lambda>e. eventSpans e \<noteq> []) evs = [SpanProcessFail [span'] ErrEncodingFailed])"
  by (auto simp: tryEncodeSpan_def Let_def not_less not_le split: option.splits)

text \<open>
  a shard encoder never panics, whatever is encoded, flushed and stopped in whatever
  order: in particular the compression factor is never a division by zero, since the
  compressed data starts with the eight magic bytes.
\<close>

lemma shardEncoder_no_panic:
  "Crashed p \<notin> set (snd (run_ops (se_oper c) calls se))"
  by (rule run_no_crash)

end
