(* ===== verification/ShardEncoderConc.thy ===== *)
theory ShardEncoderConc
  imports ShardEncoder
begin

text \<open>
  A shard encoder under concurrency (\<open>exporter/omnishard/shard_encoder.go\<close>): any number of
  goroutines in \<open>Encode\<close>, \<open>Flush\<close> and \<open>Stop\<close>, and the goroutine \<open>flushPeriodically\<close>. A step is
  what one goroutine does between two points at which another can interfere: taking the lock,
  reading the stopped flag, releasing the lock, setting the flag, closing the done channel.
  The stopped flag is not protected by the lock, so it can change while the lock is held. A
  callback runs right after the lock is released and is recorded there. \<open>sy_given\<close> is a
  history variable: the spans handed to \<open>Encode\<close> so far.
\<close>

section \<open>State\<close>

datatype lock =
    Unlocked
  | AccHeld Span nat
  | FlushHeld

record se_sys =
  sy_se :: shardEncoder
  sy_lock :: lock
  sy_flusher :: flusher
  sy_encoding :: "(Span \<times> nat) list"
  sy_flushes :: nat
  sy_given :: "Span list"
  sy_events :: "event list"

definition se_sys_init :: "shardEncoder \<Rightarrow> se_sys" where
  "se_sys_init se =
     \<lparr>sy_se = se, sy_lock = Unlocked, sy_flusher = NotStarted, sy_encoding = [], sy_flushes = 0,
      sy_given = [], sy_events = []\<rparr>"

definition emitEvents :: "event list \<Rightarrow> se_sys \<Rightarrow> se_sys" where
  "emitEvents evs s = s\<lparr>sy_events := sy_events s @ evs\<rparr>"

text \<open>
  Who runs a flush: a caller that has asked for one (\<open>accumulateEncodedSpan\<close> on a full batch,
  or the encoder that owns the shard encoders), or the ticker of \<open>flushPeriodically\<close>.
\<close>

inductive mayFlush :: "se_sys \<Rightarrow> se_sys \<Rightarrow> bool" where
  by_caller: "sy_flushes s = Suc n \<Longrightarrow> mayFlush s (s\<lparr>sy_flushes := n\<rparr>)"
| by_ticker: "sy_flusher s = Ticking \<Longrightarrow> mayFlush s s"

section \<open>Steps\<close>

inductive se_step :: "codec \<Rightarrow> se_sys \<Rightarrow> se_sys \<Rightarrow> bool" for c where
  start: "sy_flusher s = NotStarted \<Longrightarrow> shardEncoder_Start (sy_se s) = Inr fl \<Longrightarrow>
     se_step c s (s\<lparr>sy_flusher := fl\<rparr>)"
| encode_rejected: "tryEncodeSpan c (sy_se s) span = (span', Inl e, evs) \<Longrightarrow>
     se_step c s (emitEvents evs (s\<lparr>sy_given := span # sy_given s\<rparr>))"
| encode_measured: "tryEncodeSpan c (sy_se s) span = (span', Inr sz, evs) \<Longrightarrow>
     se_step c s (emitEvents evs
       (s\<lparr>sy_given := span # sy_given s, sy_encoding := (span', sz) # sy_encoding s\<rparr>))"
| accumulate_stopped: "sy_encoding s = xs @ (span, sz) # ys \<Longrightarrow> sy_lock s = Unlocked \<Longrightarrow>
     isStopped (sy_se s) \<Longrightarrow>
     se_step c s (emitEvents [SpanProcessFail [span] ErrEncoderStopped] (s\<lparr>sy_encoding := xs @ ys\<rparr>))"
| accumulate_locked: "sy_encoding s = xs @ (span, sz) # ys \<Longrightarrow> sy_lock s = Unlocked \<Longrightarrow>
     \<not> isStopped (sy_se s) \<Longrightarrow>
     se_step c s (s\<lparr>sy_encoding := xs @ ys, sy_lock := AccHeld span sz\<rparr>)"
| accumulate_append: "sy_lock s = AccHeld span sz \<Longrightarrow>
     se1 = (sy_se s)\<lparr>se_spans := se_spans (sy_se s) @ [span],
                    se_accumulatedSize := se_accumulatedSize (sy_se s) + of_nat sz\<rparr> \<Longrightarrow>
     se_step c s (s\<lparr>sy_se := se1, sy_lock := Unlocked,
       sy_flushes := sy_flushes s + (if se_accumulatedSize se1 \<ge> se_maxRecordSize se1 then 1 else 0)\<rparr>)"
| flush_asked: "se_step c s (s\<lparr>sy_flushes := Suc (sy_flushes s)\<rparr>)"
| flush_empty: "mayFlush s s' \<Longrightarrow> sy_lock s = Unlocked \<Longrightarrow> se_spans (sy_se s) = [] \<Longrightarrow>
     se_step c s s'"
| flush_stopped: "mayFlush s s' \<Longrightarrow> sy_lock s = Unlocked \<Longrightarrow> se_spans (sy_se s) \<noteq> [] \<Longrightarrow>
     isStopped (sy_se s) \<Longrightarrow>
     se_step c s (emitEvents [SpanProcessFail (se_spans (sy_se s)) ErrEncoderStopped]
       (s'\<lparr>sy_se := clearAccumulated (sy_se s)\<rparr>))"
| flush_locked: "mayFlush s s' \<Longrightarrow> sy_lock s = Unlocked \<Longrightarrow> se_spans (sy_se s) \<noteq> [] \<Longrightarrow>
     \<not> isStopped (sy_se s) \<Longrightarrow> se_step c s (s'\<lparr>sy_lock := FlushHeld\<rparr>)"
| flush_encode: "sy_lock s = FlushHeld \<Longrightarrow> flushEncode c (sy_se s) = (se1, evs) \<Longrightarrow>
     se_step c s (emitEvents evs (s\<lparr>sy_se := se1, sy_lock := Unlocked\<rparr>))"
| stop_flag: "\<not> se_stopped (sy_se s) \<Longrightarrow>
     se_step c s (s\<lparr>sy_se := (sy_se s)\<lparr>se_stopped := True\<rparr>\<rparr>)"
| stop_close: "se_stopped (sy_se s) \<Longrightarrow> \<not> se_done (sy_se s) \<Longrightarrow>
     se_step c s (s\<lparr>sy_se := (sy_se s)\<lparr>se_done := True\<rparr>\<rparr>)"
| done_signal: "sy_flusher s = Ticking \<Longrightarrow> se_done (sy_se s) \<Longrightarrow>
     se_step c s (s\<lparr>sy_flusher := FinalFlush\<rparr>)"
| final_flush: "sy_flusher s = FinalFlush \<Longrightarrow> sy_lock s = Unlocked \<Longrightarrow>
     Flush c (sy_se s) = (se1, evs) \<Longrightarrow>
     se_step c s (emitEvents evs (s\<lparr>sy_se := se1, sy_flusher := Exited\<rparr>))"

lemmas se_step_rules = se_step.intros mayFlush.intros

inductive_cases mayFlushE [elim!]: "mayFlush s s'"

text \<open>The two steps of \<open>Stop\<close> together are the operation.\<close>

lemma stop_steps_are_Stop:
  "\<not> se_stopped se \<Longrightarrow> se\<lparr>se_stopped := True\<rparr>\<lparr>se_done := True\<rparr> = shardEncoder_Stop se"
  by (simp add: shardEncoder_Stop_def)

section \<open>The invariant\<close>

fun lockKeys :: "lock \<Rightarrow> Span multiset" where
  "lockKeys (AccHeld span sz) = {#spanKey span#}"
| "lockKeys _ = {#}"

definition pendingKeys :: "se_sys \<Rightarrow> Span multiset" where
  "pendingKeys s =
     spanKeys (se_spans (sy_se s)) + spanKeys (map fst (sy_encoding s)) + lockKeys (sy_lock s)"

definition se_conserved :: "se_sys \<Rightarrow> bool" where
  "se_conserved s \<longleftrightarrow> spanKeys (sy_given s) = eventKeys (sy_events s) + pendingKeys s"

definition se_stop_order :: "se_sys \<Rightarrow> bool" where
  "se_stop_order s \<longleftrightarrow>
     (se_done (sy_se s) \<longrightarrow> se_stopped (sy_se s)) \<and>
     (sy_flusher s = FinalFlush \<or> sy_flusher s = Exited \<longrightarrow> se_done (sy_se s)) \<and>
     (sy_flusher s = Exited \<longrightarrow> se_spans (sy_se s) = [] \<and> sy_lock s = Unlocked)"

definition se_inv :: "se_sys \<Rightarrow> bool" where
  "se_inv s \<longleftrightarrow> se_conserved s \<and> se_stop_order s"

lemma flushEncode_frame:
  assumes "flushEncode c se = (se', evs)"
  shows "se_spans se' = []" "se_done se' = se_done se" "se_stopped se' = se_stopped se"
    "se_shard se' = se_shard se" "se_maxRecordSize se' = se_maxRecordSize se"
  using assms
  by (auto simp: flushEncode_def clearAccumulated_def Let_def split: option.splits)

lemma flushEncode_conserves:
  "flushEncode c se = (se', evs) \<Longrightarrow> eventKeys evs = spanKeys (se_spans se)"
  by (auto simp: flushEncode_def Let_def split: option.splits)

lemmas se_inv_defs = se_inv_def se_conserved_def se_stop_order_def pendingKeys_def emitEvents_def

lemma se_step_conserved: "se_step c s t \<Longrightarrow> se_conserved s \<Longrightarrow> se_conserved t"
proof (induction rule: se_step.induct)
  case (encode_rejected s span span' e evs)
  then show ?case
    using tryEncodeSpan_Inl [OF encode_rejected(1)] by (auto simp: se_inv_defs)
next
  case (encode_measured s span span' sz evs)
  then show ?case
    using tryEncodeSpan_Inr [OF encode_measured(1)] by (auto simp: se_inv_defs)
next
  case (flush_encode s se1 evs)
  then show ?case
    using flushEncode_conserves [OF flush_encode(2)] flushEncode_frame [OF flush_encode(2)]
    by (simp add: se_inv_defs)
next
  case (final_flush s se1 evs)
  then show ?case
    using Flush_conserves [OF final_flush(3)] Flush_empties [OF final_flush(3)]
    by (simp add: se_inv_defs)
qed (auto simp: se_inv_defs clearAccumulated_def)

lemma se_step_stop_order: "se_step c s t \<Longrightarrow> se_stop_order s \<Longrightarrow> se_stop_order t"
proof (induction rule: se_step.induct)
  case (flush_encode s se1 evs)
  then show ?case
    using flushEncode_frame [OF flush_encode(2)] by (auto simp: se_inv_defs)
next
  case (final_flush s se1 evs)
  then show ?case
    using Flush_frame [OF final_flush(3)] Flush_empties [OF final_flush(3)]
    by (auto simp: se_inv_defs)
next
  case (start s fl)
  then show ?case by (auto simp: se_inv_defs shardEncoder_Start_def split: if_splits)
qed (auto simp: se_inv_defs clearAccumulated_def isStopped_def)

definition se_started :: "shardEncoder \<Rightarrow> se_sys \<Rightarrow> bool" where
  "se_started se s \<longleftrightarrow> s = se_sys_init se \<and> se_spans se = [] \<and> \<not> se_done se \<and> \<not> se_stopped se"

interpretation se_inv: transition_invariant "se_started se" "se_step c" se_inv for se c
proof
  fix s assume "se_started se s"
  then show "se_inv s" by (auto simp: se_started_def se_sys_init_def se_inv_defs)
next
  fix s t assume "se_step c s t" "se_inv s"
  then show "se_inv t"
    by (auto simp: se_inv_def intro: se_step_conserved se_step_stop_order)
qed

section \<open>Stopping completes\<close>

text \<open>From a stopped encoder, the goroutines it has left can always run to their end.\<close>

definition stoppedLike :: "se_sys \<Rightarrow> se_sys \<Rightarrow> bool" where
  "stoppedLike s t \<longleftrightarrow>
     se_stopped (sy_se t) \<and> sy_given t = sy_given s \<and>
     (sy_flusher s \<noteq> NotStarted \<longrightarrow> sy_flusher t \<noteq> NotStarted)"

lemma stoppedLike_trans: "stoppedLike s t \<Longrightarrow> stoppedLike t u \<Longrightarrow> stoppedLike s u"
  by (auto simp: stoppedLike_def)

lemma reach_by_step: "se_step c s t \<Longrightarrow> P t \<Longrightarrow> \<exists>t. (se_step c)\<^sup>*\<^sup>* s t \<and> P t"
  by blast

lemma can_unlock:
  assumes "se_stopped (sy_se s)"
  shows "\<exists>t. (se_step c)\<^sup>*\<^sup>* s t \<and> stoppedLike s t \<and> sy_lock t = Unlocked \<and>
    sy_flusher t = sy_flusher s"
proof (cases "sy_lock s")
  case Unlocked
  with assms show ?thesis by (intro exI [of _ s]) (simp add: stoppedLike_def)
next
  case (AccHeld span sz)
  show ?thesis
    by (rule reach_by_step [OF se_step.accumulate_append [OF AccHeld refl, of c]])
      (use assms in \<open>auto simp: stoppedLike_def\<close>)
next
  case FlushHeld
  obtain se1 evs where e: "flushEncode c (sy_se s) = (se1, evs)" by fastforce
  show ?thesis
    by (rule reach_by_step [OF se_step.flush_encode [OF FlushHeld e]])
      (use assms flushEncode_frame [OF e] in \<open>auto simp: stoppedLike_def emitEvents_def\<close>)
qed

lemma can_close:
  assumes "se_stopped (sy_se s)"
  shows "\<exists>t. (se_step c)\<^sup>*\<^sup>* s t \<and> stoppedLike s t \<and> se_done (sy_se t) \<and> sy_flusher t = sy_flusher s"
proof (cases "se_done (sy_se s)")
  case True
  with assms show ?thesis by (intro exI [of _ s]) (simp add: stoppedLike_def)
next
  case False
  show ?thesis
    by (rule reach_by_step [OF se_step.stop_close [OF assms False, of c]])
      (use assms in \<open>auto simp: stoppedLike_def\<close>)
qed

lemma can_receive_done:
  assumes "se_stopped (sy_se s)" and "se_done (sy_se s)" and "sy_flusher s \<noteq> NotStarted"
  shows "\<exists>t. (se_step c)\<^sup>*\<^sup>* s t \<and> stoppedLike s t \<and> sy_flusher t \<in> {FinalFlush, Exited}"
proof (cases "sy_flusher s = Ticking")
  case True
  show ?thesis
    by (rule reach_by_step [OF se_step.done_signal [OF True assms(2), of c]])
      (use assms in \<open>auto simp: stoppedLike_def\<close>)
next
  case False
  with assms have "sy_flusher s \<in> {FinalFlush, Exited}" by (cases "sy_flusher s") auto
  with assms(1) show ?thesis by (intro exI [of _ s]) (simp add: stoppedLike_def)
qed

lemma can_finish:
  assumes "se_stopped (sy_se s)" and "sy_flusher s \<in> {FinalFlush, Exited}" and "sy_lock s = Unlocked"
  shows "\<exists>t. (se_step c)\<^sup>*\<^sup>* s t \<and> stoppedLike s t \<and> sy_flusher t = Exited"
proof (cases "sy_flusher s = Exited")
  case True
  with assms(1) show ?thesis by (intro exI [of _ s]) (simp add: stoppedLike_def)
next
  case False
  with assms(2) have f: "sy_flusher s = FinalFlush" by auto
  obtain se1 evs where e: "Flush c (sy_se s) = (se1, evs)" by fastforce
  show ?thesis
    by (rule reach_by_step [OF se_step.final_flush [OF f assms(3) e]])
      (use assms(1) Flush_frame [OF e] in \<open>auto simp: stoppedLike_def emitEvents_def\<close>)
qed

lemma can_exit:
  assumes "se_stopped (sy_se s)" and "sy_flusher s \<noteq> NotStarted"
  shows "\<exists>t. (se_step c)\<^sup>*\<^sup>* s t \<and> stoppedLike s t \<and> sy_flusher t = Exited"
proof -
  from can_close [OF assms(1)] obtain s1 where 1: "(se_step c)\<^sup>*\<^sup>* s s1" "stoppedLike s s1"
    "se_done (sy_se s1)" "sy_flusher s1 = sy_flusher s" by blast
  with assms(2) can_receive_done [of s1 c] obtain s2 where 2: "(se_step c)\<^sup>*\<^sup>* s1 s2"
    "stoppedLike s1 s2" "sy_flusher s2 \<in> {FinalFlush, Exited}" by (auto simp: stoppedLike_def)
  with can_unlock [of s2 c] obtain s3 where 3: "(se_step c)\<^sup>*\<^sup>* s2 s3" "stoppedLike s2 s3"
    "sy_lock s3 = Unlocked" "sy_flusher s3 = sy_flusher s2" by (auto simp: stoppedLike_def)
  with 2(3) can_finish [of s3 c] obtain s4 where 4: "(se_step c)\<^sup>*\<^sup>* s3 s4" "stoppedLike s3 s4"
    "sy_flusher s4 = Exited" by (auto simp: stoppedLike_def)
  have "(se_step c)\<^sup>*\<^sup>* s s4" using 1(1) 2(1) 3(1) 4(1) by (meson rtranclp_trans)
  moreover have "stoppedLike s s4" using 1(2) 2(2) 3(2) 4(2) by (meson stoppedLike_trans)
  ultimately show ?thesis using 4(3) by blast
qed

text \<open>After the last flush, each span still being encoded is handed back.\<close>

lemma can_drain:
  assumes "sy_flusher s = Exited" and "sy_lock s = Unlocked" and "se_stopped (sy_se s)"
  shows "\<exists>t. (se_step c)\<^sup>*\<^sup>* s t \<and> stoppedLike s t \<and> sy_flusher t = Exited \<and> sy_encoding t = []"
  using assms
proof (induction "length (sy_encoding s)" arbitrary: s)
  case 0
  then show ?case by (intro exI [of _ s]) (simp add: stoppedLike_def)
next
  case (Suc n)
  then obtain span sz ys where e: "sy_encoding s = (span, sz) # ys" by (cases "sy_encoding s") auto
  let ?s1 = "emitEvents [SpanProcessFail [span] ErrEncoderStopped] (s\<lparr>sy_encoding := ys\<rparr>)"
  have step: "se_step c s ?s1"
    using se_step.accumulate_stopped [of s "[]" span sz ys c] Suc.prems e by (simp add: isStopped_def)
  have "\<exists>t. (se_step c)\<^sup>*\<^sup>* ?s1 t \<and> stoppedLike ?s1 t \<and> sy_flusher t = Exited \<and> sy_encoding t = []"
    using Suc.hyps(2) Suc.prems e by (intro Suc.hyps(1)) (auto simp: emitEvents_def)
  with step show ?case
    by (auto simp: stoppedLike_def emitEvents_def intro: converse_rtranclp_into_rtranclp)
qed

text \<open>
  A run for the two witnesses: the encoder is started, a span is measured and its caller gets
  the lock, and \<open>Stop\<close> sets the flag while the span is being appended.
\<close>

definition sampleSys :: "shardEncoder \<Rightarrow> lock \<Rightarrow> flusher \<Rightarrow> (Span \<times> nat) list \<Rightarrow> event list \<Rightarrow> se_sys" where
  "sampleSys se lk fl enc evs =
     \<lparr>sy_se = se, sy_lock = lk, sy_flusher = fl, sy_encoding = enc, sy_flushes = 0,
      sy_given = [sampleSpan 3 0], sy_events = evs\<rparr>"

abbreviation (input) sampleNew :: shardEncoder where
  "sampleNew \<equiv> newShardEncoder sampleShard sampleHooks 10 60 1"

definition sampleStopping :: se_sys where
  "sampleStopping =
     sampleSys (sampleNew\<lparr>se_stopped := True\<rparr>) (AccHeld (sampleSpan 3 0) 3) Ticking [] []"

definition sampleStopped :: se_sys where
  "sampleStopped =
     sampleSys (sampleNew\<lparr>se_stopped := True, se_done := True\<rparr>) Unlocked Exited []
       [SpanProcessFail [sampleSpan 3 0] ErrEncoderStopped]"

lemma sample_measured:
  "tryEncodeSpan sampleCodec sampleNew (sampleSpan 3 0) = (sampleSpan 3 0, Inr 3, [])"
  by code_simp

lemma sample_to_stopping: "(se_step sampleCodec)\<^sup>*\<^sup>* (se_sys_init sampleNew) sampleStopping"
proof -
  let ?s0 = "se_sys_init sampleNew"
  let ?s1 = "?s0\<lparr>sy_flusher := Ticking\<rparr>"
  let ?s2 = "sampleSys sampleNew Unlocked Ticking [(sampleSpan 3 0, 3)] []"
  let ?s3 = "sampleSys sampleNew (AccHeld (sampleSpan 3 0) 3) Ticking [] []"
  have "se_step sampleCodec ?s0 ?s1"
    by (rule se_step.start) (simp_all add: se_sys_init_def shardEncoder_Start_def newShardEncoder_def)
  moreover have "se_step sampleCodec ?s1 ?s2"
    using se_step.encode_measured [of sampleCodec ?s1 "sampleSpan 3 0" "sampleSpan 3 0" 3 "[]"]
    by (simp add: sample_measured sampleSys_def se_sys_init_def emitEvents_def)
  moreover have "se_step sampleCodec ?s2 ?s3"
    using se_step.accumulate_locked [of ?s2 "[]" "sampleSpan 3 0" 3 "[]" sampleCodec]
    by (simp add: sampleSys_def isStopped_def newShardEncoder_def)
  moreover have "se_step sampleCodec ?s3 sampleStopping"
    using se_step.stop_flag [of ?s3 sampleCodec]
    by (simp add: sampleStopping_def sampleSys_def newShardEncoder_def)
  ultimately show ?thesis by (meson converse_rtranclp_into_rtranclp rtranclp.rtrancl_refl)
qed

lemma sample_to_stopped: "(se_step sampleCodec)\<^sup>*\<^sup>* sampleStopping sampleStopped"
proof -
  let ?se = "sampleNew\<lparr>se_stopped := True, se_spans := [sampleSpan 3 0], se_accumulatedSize := 3\<rparr>"
  let ?s1 = "sampleSys ?se Unlocked Ticking [] []"
  let ?s2 = "sampleSys (?se\<lparr>se_done := True\<rparr>) Unlocked Ticking [] []"
  let ?s3 = "sampleSys (?se\<lparr>se_done := True\<rparr>) Unlocked FinalFlush [] []"
  have "se_step sampleCodec sampleStopping ?s1"
    using se_step.accumulate_append [of sampleStopping "sampleSpan 3 0" 3 ?se sampleCodec]
    by (simp add: sampleStopping_def sampleSys_def newShardEncoder_def)
  moreover have "se_step sampleCodec ?s1 ?s2"
    using se_step.stop_close [of ?s1 sampleCodec] by (simp add: sampleSys_def newShardEncoder_def)
  moreover have "se_step sampleCodec ?s2 ?s3"
    using se_step.done_signal [of ?s2 sampleCodec] by (simp add: sampleSys_def newShardEncoder_def)
  moreover have "se_step sampleCodec ?s3 sampleStopped"
    using se_step.final_flush [of ?s3 sampleCodec]
    by (simp add: sampleStopped_def sampleSys_def newShardEncoder_def Flush_def isStopped_def
        clearAccumulated_def emitEvents_def)
  ultimately show ?thesis by (meson converse_rtranclp_into_rtranclp rtranclp.rtrancl_refl)
qed

section \<open>Properties\<close>

text \<open>
  C16: whatever the interleaving of encoding, flushing, ticking and stopping goroutines, every
  span handed to a shard encoder is in exactly one place: in a record, in a failure report,
  accumulated, or with the goroutine that is encoding it. In particular no span is lost
  during stopping, as the comment on \<open>Stop\<close> promises: once \<open>flushPeriodically\<close> has returned
  and no call of \<open>Encode\<close> is in progress, all of them have been emitted or returned.
\<close>

theorem shardEncoder_no_span_lost:
  assumes "(se_step c)\<^sup>*\<^sup>*
      (se_sys_init (newShardEncoder shard hooks maxRecord maxSpan interval)) s"
  shows "spanKeys (sy_given s) = eventKeys (sy_events s) + pendingKeys s \<and>
    (sy_flusher s = Exited \<and> sy_encoding s = [] \<longrightarrow> spanKeys (sy_given s) = eventKeys (sy_events s))"
proof -
  have "se_started (newShardEncoder shard hooks maxRecord maxSpan interval)
      (se_sys_init (newShardEncoder shard hooks maxRecord maxSpan interval))"
    by (simp add: se_started_def newShardEncoder_def)
  from se_inv.reachable_inv [OF this assms] show ?thesis
    by (auto simp: se_inv_defs)
qed

theorem shardEncoder_no_span_lost_witness:
  "sy_flusher sampleStopped = Exited \<and>
   spanKeys (sy_given sampleStopped) = eventKeys (sy_events sampleStopped) \<and>
   sy_given sampleStopped = [sampleSpan 3 0]"
  using shardEncoder_no_span_lost [OF rtranclp_trans [OF sample_to_stopping sample_to_stopped]]
  by (simp add: sampleStopped_def sampleSys_def)

text \<open>
  C17: stopping a shard encoder completes: from every reachable state in which the encoder has
  been started and the stopped flag is set, the goroutines can go on to a state in which
  \<open>flushPeriodically\<close> has returned, no call is in progress, and every span given has been
  emitted or returned.
\<close>

theorem shardEncoder_stop_completes:
  assumes "(se_step c)\<^sup>*\<^sup>*
      (se_sys_init (newShardEncoder shard hooks maxRecord maxSpan interval)) s"
    and "se_stopped (sy_se s)" and "sy_flusher s \<noteq> NotStarted"
  shows "\<exists>t. (se_step c)\<^sup>*\<^sup>* s t \<and> sy_flusher t = Exited \<and> sy_encoding t = [] \<and>
    sy_given t = sy_given s \<and> spanKeys (sy_given s) = eventKeys (sy_events t)"
proof -
  let ?new = "newShardEncoder shard hooks maxRecord maxSpan interval"
  have start: "se_started ?new (se_sys_init ?new)"
    by (simp add: se_started_def newShardEncoder_def)
  from can_exit [OF assms(2,3)] obtain s1 where 1: "(se_step c)\<^sup>*\<^sup>* s s1" "stoppedLike s s1"
    "sy_flusher s1 = Exited" by blast
  from se_inv.reachable_inv [OF start rtranclp_trans [OF assms(1) 1(1)]] 1(3)
  have "sy_lock s1 = Unlocked" by (simp add: se_inv_defs)
  with 1 can_drain [of s1 c] obtain t where t: "(se_step c)\<^sup>*\<^sup>* s1 t" "stoppedLike s1 t"
    "sy_flusher t = Exited" "sy_encoding t = []" by (auto simp: stoppedLike_def)
  have st: "(se_step c)\<^sup>*\<^sup>* s t" using 1(1) t(1) by (rule rtranclp_trans)
  from se_inv.reachable_inv [OF start rtranclp_trans [OF assms(1) st]] t(3,4)
  have "spanKeys (sy_given t) = eventKeys (sy_events t)" by (simp add: se_inv_defs)
  with st t 1(2) show ?thesis by (auto simp: stoppedLike_def)
qed

theorem shardEncoder_stop_completes_witness:
  "\<exists>t. (se_step sampleCodec)\<^sup>*\<^sup>* sampleStopping t \<and> sy_flusher t = Exited \<and> sy_encoding t = [] \<and>
     sy_given t = [sampleSpan 3 0] \<and> eventKeys (sy_events t) = spanKeys [sampleSpan 3 0]"
proof -
  have "se_stopped (sy_se sampleStopping)" "sy_flusher sampleStopping \<noteq> NotStarted"
    "sy_given sampleStopping = [sampleSpan 3 0]"
    by (simp_all add: sampleStopping_def sampleSys_def)
  with shardEncoder_stop_completes [OF sample_to_stopping] show ?thesis by metis
qed

end
