(* ===== verification/Encoder.thy ===== *)
theory Encoder
  imports ShardEncoder
begin

text \<open>
  The encoder (\<open>exporter/omnishard/encoder.go\<close>): it queues batches of spans, routes each span
  to the shard encoder of its trace, and replaces the shard encoders when the server changes
  the sharding configuration. This theory holds the state and the operations, each run on its
  own; \<open>EncoderConc\<close> interleaves them.

  Shard encoders are shared: a worker keeps the pointer it has loaded while the list is
  swapped under it. They therefore live in a heap: \<open>en_heap\<close> holds every shard encoder made so
  far, an address is an index into it, and \<open>en_shardEncoders\<close>, the value of the
  \<open>atomic.Value\<close>, is a list of addresses.
\<close>

section \<open>Options and state\<close>

record Options =
  ExporterName :: string
  NumWorkers :: u64
  MaxRecordSize :: u64
  BatchFlushInterval :: int
  MaxAllowedSizePerSpan :: u64

text \<open>The defaults of \<open>factory.go\<close>; durations are in nanoseconds.\<close>

definition defNumWorkers :: u64 where
  "defNumWorkers = 1"

definition defMaxRecordSize :: u64 where
  "defMaxRecordSize = 100000"

definition defBatchFlushInterval :: int where
  "defBatchFlushInterval = 5 * 10 ^ 9"

definition defMaxAllowedSizePerSpan :: u64 where
  "defMaxAllowedSizePerSpan = 900000"

record encoder =
  en_options :: Options
  en_hooks :: telemetryHooks
  en_configChangeRequest :: "ShardingConfig option"
  en_configChangeStopped :: bool
  en_workersStarted :: bool
  en_spanBatchesToProcess :: "Span list chan"
  en_spansToProcessWg :: nat
  en_isStoppingFlag :: bool
  en_workerHardStop :: bool
  en_shardEncoders :: "nat list"
  en_metricViews :: "View list"
  en_heap :: "shardEncoder list"

definition populateDefaults :: "Options \<Rightarrow> Options" where
  "populateDefaults o1 =
     (let o2 = (if MaxRecordSize o1 = 0 then o1\<lparr>MaxRecordSize := defMaxRecordSize\<rparr> else o1);
          o3 = (if BatchFlushInterval o2 = 0 then o2\<lparr>BatchFlushInterval := defBatchFlushInterval\<rparr> else o2);
          o4 = (if MaxAllowedSizePerSpan o3 = 0
                then o3\<lparr>MaxAllowedSizePerSpan := defMaxAllowedSizePerSpan\<rparr> else o3)
      in if NumWorkers o4 = 0 then o4\<lparr>NumWorkers := 1\<rparr> else o4)"

text \<open>
  \<open>view.Register\<close> is outside the repository: \<open>register\<close> tells whether it accepts the views. The
  channel for batches is made with room for \<open>NumWorkers\<close> of them; that Go panics when asked for a channel
  larger than the address space is not modelled.
\<close>

definition newEncoder :: "(View list \<Rightarrow> bool) \<Rightarrow> Options \<Rightarrow> encoder option" where
  "newEncoder register opts =
     (let o1 = populateDefaults opts;
          e = \<lparr>en_options = o1, en_hooks = newTelemetryHooks (ExporterName o1) [],
               en_configChangeRequest = None, en_configChangeStopped = False,
               en_workersStarted = False,
               en_spanBatchesToProcess = make_chan (unat (NumWorkers o1)),
               en_spansToProcessWg = 0, en_isStoppingFlag = False, en_workerHardStop = False,
               en_shardEncoders = [], en_metricViews = metricViews, en_heap = []\<rparr>
      in if register metricViews then Some e else None)"

section \<open>Operations of the caller\<close>

definition SetConfig :: "ShardingConfig option \<Rightarrow> encoder \<Rightarrow> encoder" where
  "SetConfig config e = e\<lparr>en_configChangeRequest := config\<rparr>"

definition isStopping :: "encoder \<Rightarrow> bool" where
  "isStopping e = en_isStoppingFlag e"

definition wgAdd :: "encoder \<Rightarrow> encoder" where
  "wgAdd e = e\<lparr>en_spansToProcessWg := en_spansToProcessWg e + 1\<rparr>"

definition wgDone :: "encoder \<Rightarrow> encoder \<times> event list" where
  "wgDone e =
     (if en_spansToProcessWg e = 0 then (e, [Crashed NegativeWaitGroup])
      else (e\<lparr>en_spansToProcessWg := en_spansToProcessWg e - 1\<rparr>, []))"

text \<open>The send of \<open>EncodeSpans\<close>: the absent value is the blocked caller.\<close>

definition enqueueSpans :: "Span list \<Rightarrow> encoder \<Rightarrow> (encoder \<times> event list) option" where
  "enqueueSpans spans e =
     (case chan_send spans (en_spanBatchesToProcess e) of
        None \<Rightarrow> None
      | Some q \<Rightarrow> Some (e\<lparr>en_spanBatchesToProcess := q\<rparr>,
                        [Recorded (OnSpansEnqueued (en_hooks e) (int (length spans)))]))"

datatype encodeSpansResult = AlreadyStopped | Blocked | Enqueued

definition EncodeSpans :: "Span list \<Rightarrow> encoder \<Rightarrow> encoder \<times> encodeSpansResult \<times> event list" where
  "EncodeSpans spans e =
     (if isStopping e then (e, AlreadyStopped, [])
      else (let e1 = wgAdd e in
            case enqueueSpans spans e1 of
              None \<Rightarrow> (e1, Blocked, [])
            | Some (e2, evs) \<Rightarrow> (e2, Enqueued, evs)))"

section \<open>Operations on the shard encoders\<close>

fun stopAll :: "nat list \<Rightarrow> shardEncoder list \<Rightarrow> shardEncoder list" where
  "stopAll [] h = h"
| "stopAll (a # as) h = stopAll as (h[a := shardEncoder_Stop (h ! a)])"

definition stopShardEncoders :: "encoder \<Rightarrow> encoder" where
  "stopShardEncoders e = e\<lparr>en_heap := stopAll (en_shardEncoders e) (en_heap e)\<rparr>"

fun flushAll :: "codec \<Rightarrow> nat list \<Rightarrow> shardEncoder list \<Rightarrow> shardEncoder list \<times> event list" where
  "flushAll c [] h = (h, [])"
| "flushAll c (a # as) h =
     (case Flush c (h ! a) of (se, evs) \<Rightarrow>
        case flushAll c as (h[a := se]) of (h', evs') \<Rightarrow> (h', evs @ evs'))"

definition flushShardEncoders :: "codec \<Rightarrow> encoder \<Rightarrow> encoder \<times> event list" where
  "flushShardEncoders c e =
     (case flushAll c (en_shardEncoders e) (en_heap e) of (h, evs) \<Rightarrow> (e\<lparr>en_heap := h\<rparr>, evs))"

definition shardEncoderFor :: "Options \<Rightarrow> shardInMemConfig \<Rightarrow> shardEncoder" where
  "shardEncoderFor opts shard =
     newShardEncoder shard (newTelemetryHooks (ExporterName opts) (shardID shard))
       (MaxRecordSize opts) (MaxAllowedSizePerSpan opts) (BatchFlushInterval opts)"

definition startEvents :: "shardEncoder \<Rightarrow> event list" where
  "startEvents se = (case shardEncoder_Start se of Inl p \<Rightarrow> [Crashed p] | Inr _ \<Rightarrow> [])"

text \<open>
  \<open>startShardEncoders\<close> from beginning to end: create, start, store. \<open>EncoderConc\<close> cuts it where other
  goroutines can come between, so that there the new encoders run before the list holds them, and
  shows that the cut one comes to this when nothing comes between (\<open>applying_run\<close>).
\<close>

definition startShardEncoders :: "shardingInMemConfig \<Rightarrow> encoder \<Rightarrow> encoder \<times> event list" where
  "startShardEncoders cfg e =
     (let encoders = map (shardEncoderFor (en_options e)) (shards cfg);
          h = en_heap e
      in (e\<lparr>en_heap := h @ encoders, en_shardEncoders := [length h ..< length h + length encoders]\<rparr>,
          concat (map startEvents encoders)))"

text \<open>
  One turn of \<open>processConfigChanges\<close>. Its result tells what the goroutine does next; the
  local \<open>workersStarted\<close> is a field of the state here.
\<close>

datatype configTurn = ConfigWaits | ConfigReturns | ConfigRejected config_error | ConfigApplied bool

definition takeConfigRequest :: "encoder \<Rightarrow> (ShardingConfig \<times> encoder) option" where
  "takeConfigRequest e =
     (if en_configChangeStopped e then None
      else case en_configChangeRequest e of
        None \<Rightarrow> None
      | Some newConfig \<Rightarrow> Some (newConfig, e\<lparr>en_configChangeRequest := None\<rparr>))"

definition applyConfig :: "ShardingConfig \<Rightarrow> encoder \<Rightarrow> encoder \<times> configTurn \<times> event list" where
  "applyConfig newConfig e =
     (case newShardingInMemConfig newConfig of
        Inl err \<Rightarrow> (e, ConfigRejected err, [])
      | Inr cfg \<Rightarrow>
          (case startShardEncoders cfg e of
             (e1, evs) \<Rightarrow>
               (e1\<lparr>en_workersStarted := True\<rparr>, ConfigApplied (\<not> en_workersStarted e), evs)))"

definition processConfigChange :: "encoder \<Rightarrow> encoder \<times> configTurn \<times> event list" where
  "processConfigChange e =
     (case takeConfigRequest e of
        None \<Rightarrow> (e, if en_configChangeStopped e then ConfigReturns else ConfigWaits, [])
      | Some (newConfig, e1) \<Rightarrow> applyConfig newConfig (stopShardEncoders e1))"

text \<open>\<open>startWorkers\<close> starts \<open>int(NumWorkers)\<close> goroutines.\<close>

definition startWorkers :: "encoder \<Rightarrow> nat" where
  "startWorkers e = nat (int64_of_uint64 (NumWorkers (en_options e)))"

section \<open>Operations of a worker\<close>

definition getShardEncoder :: "encoder \<Rightarrow> string \<Rightarrow> nat option" where
  "getShardEncoder e partitionKey =
     List.find (\<lambda>a. belongsToShard (se_shard (en_heap e ! a)) partitionKey) (en_shardEncoders e)"

definition spanPartitionKey :: "codec \<Rightarrow> Span \<Rightarrow> string" where
  "spanPartitionKey c span = TraceID_String c (SpanTraceID span)"

definition processSpan :: "codec \<Rightarrow> Span \<Rightarrow> encoder \<Rightarrow> encoder \<times> event list" where
  "processSpan c span e =
     (case getShardEncoder e (spanPartitionKey c span) of
        None \<Rightarrow> (e, [SpanProcessFail [span] ErrEncodingFailed])
      | Some a \<Rightarrow>
          (case Encode c (en_heap e ! a) span of
             (se, _, evs) \<Rightarrow> (e\<lparr>en_heap := (en_heap e)[a := se]\<rparr>, evs)))"

fun processSpans :: "codec \<Rightarrow> Span list \<Rightarrow> encoder \<Rightarrow> encoder \<times> event list" where
  "processSpans c [] e = (e, [])"
| "processSpans c (span # spans) e =
     (case processSpan c span e of (e1, evs1) \<Rightarrow>
        case processSpans c spans e1 of (e2, evs2) \<Rightarrow> (e2, evs1 @ evs2))"

definition processSpanBatch :: "codec \<Rightarrow> Span list \<Rightarrow> encoder \<Rightarrow> encoder \<times> event list" where
  "processSpanBatch c spans e =
     (case processSpans c spans e of (e1, evs1) \<Rightarrow>
        case wgDone e1 of (e2, evs2) \<Rightarrow> (e2, evs1 @ evs2))"

text \<open>The receive of \<open>processQueuedSpans\<close>: the absent value is the worker that waits.\<close>

definition dequeueSpans :: "encoder \<Rightarrow> (Span list \<times> encoder \<times> event list) option" where
  "dequeueSpans e =
     (case chan_recv (en_spanBatchesToProcess e) of
        None \<Rightarrow> None
      | Some (spans, q) \<Rightarrow> Some (spans, e\<lparr>en_spanBatchesToProcess := q\<rparr>,
                                [Recorded (OnSpansDequeued (en_hooks e) (int (length spans)))]))"

section \<open>Stop\<close>

text \<open>
  What \<open>Stop\<close> does once the wait for the workers is over, whether they have drained the queue
  or the time is up.
\<close>

definition closeHardStop :: "encoder \<Rightarrow> encoder \<times> event list" where
  "closeHardStop e =
     (case close_signal (en_workerHardStop e) of
        Inl p \<Rightarrow> (e, [Crashed p])
      | Inr closed \<Rightarrow> (e\<lparr>en_workerHardStop := closed\<rparr>, []))"

definition stopConfigChanges :: "encoder \<Rightarrow> encoder" where
  "stopConfigChanges e = e\<lparr>en_configChangeStopped := True, en_metricViews := []\<rparr>"

definition beginStop :: "encoder \<Rightarrow> encoder" where
  "beginStop e = e\<lparr>en_isStoppingFlag := True\<rparr>"

text \<open>
  \<open>waitGroupTimeout\<close>: what its \<open>select\<close> can return, given the counter and whether the time is up;
  both branches may be ready, and with none it goes on waiting. \<open>Stop\<close> only logs the result.
\<close>

definition waitGroupTimeout :: "nat \<Rightarrow> bool \<Rightarrow> bool list" where
  "waitGroupTimeout counter timeUp = (if counter = 0 then [True] else []) @ (if timeUp then [False] else [])"

lemma waitGroupTimeout_ends: "waitGroupTimeout counter True \<noteq> []"
  by (simp add: waitGroupTimeout_def)

definition encoder_Stop :: "codec \<Rightarrow> encoder \<Rightarrow> encoder \<times> event list" where
  "encoder_Stop c e =
     (case flushShardEncoders c (beginStop e) of
        (e1, evs1) \<Rightarrow>
          (case closeHardStop (stopConfigChanges (stopShardEncoders e1)) of
             (e2, evs2) \<Rightarrow> (e2, evs1 @ evs2)))"

section \<open>Lemmas on the heap of shard encoders\<close>

definition addrsOk :: "encoder \<Rightarrow> bool" where
  "addrsOk e \<longleftrightarrow> (\<forall>a \<in> set (en_shardEncoders e). a < length (en_heap e)) \<and> distinct (en_shardEncoders e)"

definition heapKeys :: "shardEncoder list \<Rightarrow> Span multiset" where
  "heapKeys h = (\<Sum>se\<leftarrow>h. spanKeys (se_spans se))"

lemma heapKeys_simps [simp]:
  "heapKeys [] = {#}" "heapKeys (h @ h') = heapKeys h + heapKeys h'"
  by (simp_all add: heapKeys_def)

lemma heapKeys_update:
  assumes "a < length h" and "spanKeys (se_spans se) + d = spanKeys (se_spans (h ! a)) + e"
  shows "heapKeys (h[a := se]) + d = heapKeys h + e"
  unfolding heapKeys_def by (rule sum_list_update_mset) (use assms in simp_all)

lemma heapKeys_same: "se_spans se = se_spans (h ! a) \<Longrightarrow> heapKeys (h[a := se]) = heapKeys h"
  unfolding heapKeys_def by (rule sum_list_update_same) simp

text \<open>\<open>Stop\<close> on a list of addresses changes the two flags of the encoders at them, nothing else.\<close>

lemma stopAll_length [simp]: "length (stopAll as h) = length h"
  by (induction "as" arbitrary: h) simp_all

lemma stopAll_nth:
  "i < length h \<Longrightarrow> stopAll as h ! i = (if i \<in> set as then shardEncoder_Stop (h ! i) else h ! i)"
proof (induction "as" arbitrary: h)
  case (Cons a "as")
  have idem: "shardEncoder_Stop (shardEncoder_Stop se) = shardEncoder_Stop se" for se
    by (simp add: shardEncoder_Stop_def)
  from Cons show ?case by (cases "a = i") (auto simp: idem)
qed simp

lemma stopAll_keys [simp]: "heapKeys (stopAll as h) = heapKeys h"
  by (induction "as" arbitrary: h) (simp_all add: heapKeys_same)

lemma stopAll_stopped: "a \<in> set as \<Longrightarrow> a < length h \<Longrightarrow> se_stopped (stopAll as h ! a)"
  by (simp add: stopAll_nth)

lemma flushAll_length: "flushAll c as h = (h', evs) \<Longrightarrow> length h' = length h"
  by (induction "as" arbitrary: h h' evs) (auto split: prod.splits)

lemma flushAll_other:
  "flushAll c as h = (h', evs) \<Longrightarrow> i \<notin> set as \<Longrightarrow> h' ! i = h ! i"
  by (induction "as" arbitrary: h h' evs) (auto split: prod.splits)

lemma flushAll_at:
  assumes "flushAll c as h = (h', evs)" and "distinct as" and "\<forall>a \<in> set as. a < length h" and "i \<in> set as"
  shows "se_spans (h' ! i) = [] \<and> se_shard (h' ! i) = se_shard (h ! i)"
  using assms
proof (induction "as" arbitrary: h h' evs)
  case (Cons a "as")
  obtain se evs1 where 1: "Flush c (h ! a) = (se, evs1)" by fastforce
  obtain h2 evs2 where 2: "flushAll c as (h[a := se]) = (h2, evs2)" by fastforce
  from Cons.prems 1 2 have h': "h' = h2" by simp
  show ?case
  proof (cases "i = a")
    case True
    with Cons.prems flushAll_other [OF 2, of a] have "h' ! i = se" by (simp add: h')
    with True Flush_empties [OF 1] Flush_frame [OF 1] show ?thesis by simp
  next
    case False
    with Cons.prems Cons.IH [OF 2] show ?thesis by (auto simp: h')
  qed
qed simp

lemma flushAll_conserves:
  assumes "flushAll c as h = (h', evs)" and "\<forall>a \<in> set as. a < length h"
  shows "heapKeys h' + eventKeys evs = heapKeys h"
  using assms
proof (induction "as" arbitrary: h h' evs)
  case (Cons a "as")
  obtain se evs1 where 1: "Flush c (h ! a) = (se, evs1)" by fastforce
  obtain h2 evs2 where 2: "flushAll c as (h[a := se]) = (h2, evs2)" by fastforce
  from Cons.prems 1 2 have eqs: "h' = h2" "evs = evs1 @ evs2" by auto
  have "heapKeys (h[a := se]) + eventKeys evs1 = heapKeys h"
    using heapKeys_update [of a h se "eventKeys evs1" "{#}"] Flush_conserves [OF 1] Cons.prems(2)
    by simp
  moreover have "heapKeys h2 + eventKeys evs2 = heapKeys (h[a := se])"
    by (rule Cons.IH [OF 2]) (use Cons.prems(2) in simp)
  ultimately show ?case by (simp add: eqs) (metis add.assoc add.commute)
qed simp

lemma startShardEncoders_eq:
  assumes "startShardEncoders cfg e = (e', evs)"
  shows "en_heap e' = en_heap e @ map (shardEncoderFor (en_options e)) (shards cfg)"
    and "en_shardEncoders e' = [length (en_heap e) ..< length (en_heap e) + length (shards cfg)]"
    and "e' = e\<lparr>en_heap := en_heap e', en_shardEncoders := en_shardEncoders e'\<rparr>"
    and "0 < BatchFlushInterval (en_options e) \<Longrightarrow> evs = []"
proof -
  from assms show "en_heap e' = en_heap e @ map (shardEncoderFor (en_options e)) (shards cfg)"
    "en_shardEncoders e' = [length (en_heap e) ..< length (en_heap e) + length (shards cfg)]"
    "e' = e\<lparr>en_heap := en_heap e', en_shardEncoders := en_shardEncoders e'\<rparr>"
    by (auto simp: startShardEncoders_def Let_def)
  assume "0 < BatchFlushInterval (en_options e)"
  then have "startEvents (shardEncoderFor (en_options e) sh) = []" for sh
    by (simp add: startEvents_def shardEncoder_Start_def shardEncoderFor_def newShardEncoder_def)
  with assms show "evs = []" by (auto simp: startShardEncoders_def Let_def)
qed

lemma startShardEncoders_addrs:
  "startShardEncoders cfg e = (e', evs) \<Longrightarrow> addrsOk e'"
  using startShardEncoders_eq(1,2) [of cfg e e' evs] by (simp add: addrsOk_def)

lemma startShardEncoders_shards:
  assumes "startShardEncoders cfg e = (e', evs)"
  shows "map (\<lambda>a. en_heap e' ! a) (en_shardEncoders e') =
    map (shardEncoderFor (en_options e)) (shards cfg)"
  using startShardEncoders_eq(1,2) [OF assms]
  by (intro nth_equalityI) (simp_all add: nth_append)

lemma shardEncoderFor_simps [simp]:
  "se_shard (shardEncoderFor opts shard) = shard" "se_spans (shardEncoderFor opts shard) = []"
  "\<not> se_stopped (shardEncoderFor opts shard)" "\<not> se_done (shardEncoderFor opts shard)"
  "se_maxRecordSize (shardEncoderFor opts shard) = MaxRecordSize opts"
  "se_maxAllowedSizePerSpan (shardEncoderFor opts shard) = MaxAllowedSizePerSpan opts"
  by (simp_all add: shardEncoderFor_def newShardEncoder_def)

lemma heapKeys_fresh [simp]: "heapKeys (map (shardEncoderFor opts) shs) = {#}"
  by (induction shs) (simp_all add: heapKeys_def)

section \<open>Routing\<close>

text \<open>The shards of the list in use, in its order.\<close>

definition currentShards :: "encoder \<Rightarrow> shardInMemConfig list" where
  "currentShards e = map (\<lambda>a. se_shard (en_heap e ! a)) (en_shardEncoders e)"

lemma getShardEncoder_Some:
  assumes "getShardEncoder e pk = Some a"
  shows "a \<in> set (en_shardEncoders e) \<and> belongsToShard (se_shard (en_heap e ! a)) pk"
  using assms by (auto simp: getShardEncoder_def find_Some_iff in_set_conv_nth)

lemma getShardEncoder_None:
  "getShardEncoder e pk = None \<longleftrightarrow> (\<forall>sh \<in> set (currentShards e). \<not> belongsToShard sh pk)"
  by (auto simp: getShardEncoder_def find_None_conv currentShards_def)

text \<open>With valid shards the first match is the only one.\<close>

lemma getShardEncoder_iff:
  assumes "validShards (currentShards e)" and "distinct (en_shardEncoders e)"
  shows "getShardEncoder e pk = Some a \<longleftrightarrow>
    a \<in> set (en_shardEncoders e) \<and> belongsToShard (se_shard (en_heap e ! a)) pk"
proof
  assume r: "a \<in> set (en_shardEncoders e) \<and> belongsToShard (se_shard (en_heap e ! a)) pk"
  then have "getShardEncoder e pk \<noteq> None"
    by (auto simp: getShardEncoder_None currentShards_def)
  then obtain b where b: "getShardEncoder e pk = Some b" by blast
  from r obtain i where i: "i < length (en_shardEncoders e)" "en_shardEncoders e ! i = a"
    by (auto simp: in_set_conv_nth)
  from getShardEncoder_Some [OF b] obtain j where j: "j < length (en_shardEncoders e)"
    "en_shardEncoders e ! j = b" by (auto simp: in_set_conv_nth)
  have "i = j"
    by (rule shard_of_key_unique [OF assms(1), where pk = pk])
      (use i j r getShardEncoder_Some [OF b] in \<open>simp_all add: currentShards_def\<close>)
  with i j b show "getShardEncoder e pk = Some a" by simp
qed (rule getShardEncoder_Some)

lemma processSpan_conserves:
  assumes "processSpan c span e = (e', evs)" and "addrsOk e"
  shows "heapKeys (en_heap e') + eventKeys evs = add_mset (spanKey span) (heapKeys (en_heap e))"
proof (cases "getShardEncoder e (spanPartitionKey c span)")
  case None
  with assms show ?thesis by (auto simp: processSpan_def)
next
  case (Some a)
  obtain se r evs1 where 1: "Encode c (en_heap e ! a) span = (se, r, evs1)"
    by (cases "Encode c (en_heap e ! a) span") auto
  from getShardEncoder_Some [OF Some] assms(2) have "a < length (en_heap e)"
    by (auto simp: addrsOk_def)
  from heapKeys_update [OF this, of se "eventKeys evs1" "{#spanKey span#}"] Encode_conserves [OF 1]
  show ?thesis using assms(1) Some 1 by (auto simp: processSpan_def)
qed

lemma Encode_shard: "Encode c se span = (se', r, evs) \<Longrightarrow> se_shard se' = se_shard se"
  by (erule Encode_cases) (simp_all add: frames)

lemma Encode_stopped:
  assumes "Encode c se span = (se', r, evs)" and "se_stopped se"
  shows "se' = se \<and> (\<forall>rec ss sh. RecordReady rec ss sh \<notin> set evs)"
  using assms(1)
proof (cases rule: Encode_cases)
  case (rejected span1 e)
  with tryEncodeSpan_events [OF rejected(1)] show ?thesis by blast
next
  case (kept span1 sz evs1 evs2)
  with assms(2) tryEncodeSpan_events [OF kept(1)] show ?thesis
    by (auto simp: accumulateLocked_def isStopped_def)
next
  case (flushed span1 sz evs1 se1 evs2)
  with assms(2) show ?thesis by (auto simp: accumulateLocked_def isStopped_def)
qed

section \<open>A list of stopped encoders\<close>

lemma processSpan_stopped:
  assumes "processSpan c span e = (e', evs)" and "addrsOk e"
    and "\<forall>a \<in> set (en_shardEncoders e). se_stopped (en_heap e ! a)"
  shows "e' = e \<and> (\<forall>rec ss sh. RecordReady rec ss sh \<notin> set evs) \<and> eventKeys evs = {#spanKey span#}"
proof (cases "getShardEncoder e (spanPartitionKey c span)")
  case None
  with assms(1) show ?thesis by (auto simp: processSpan_def)
next
  case (Some a)
  obtain se r evs1 where 1: "Encode c (en_heap e ! a) span = (se, r, evs1)"
    by (cases "Encode c (en_heap e ! a) span") auto
  from getShardEncoder_Some [OF Some] assms(3) have st: "se_stopped (en_heap e ! a)" by blast
  from Encode_stopped [OF 1 st] Encode_conserves [OF 1] assms(1) Some 1 show ?thesis
    by (auto simp: processSpan_def)
qed

lemma processSpans_stopped:
  assumes "processSpans c spans e = (e', evs)" and "addrsOk e"
    and "\<forall>a \<in> set (en_shardEncoders e). se_stopped (en_heap e ! a)"
  shows "e' = e \<and> (\<forall>rec ss sh. RecordReady rec ss sh \<notin> set evs) \<and> eventKeys evs = spanKeys spans"
  using assms
proof (induction spans arbitrary: e e' evs)
  case (Cons span spans)
  obtain e1 evs1 where 1: "processSpan c span e = (e1, evs1)" by fastforce
  obtain e2 evs2 where 2: "processSpans c spans e1 = (e2, evs2)" by fastforce
  from processSpan_stopped [OF 1 Cons.prems(2,3)] have p: "e1 = e"
    "\<forall>rec ss sh. RecordReady rec ss sh \<notin> set evs1" "eventKeys evs1 = {#spanKey span#}" by auto
  from Cons.IH [OF 2] Cons.prems p(1) have q: "e2 = e1"
    "\<forall>rec ss sh. RecordReady rec ss sh \<notin> set evs2" "eventKeys evs2 = spanKeys spans" by auto
  from Cons.prems(1) 1 2 have "e' = e2" "evs = evs1 @ evs2" by auto
  with p q show ?case by auto
qed simp

section \<open>Spans go to their shard\<close>

text \<open>
  The contract of the client's \<open>Send\<close>: the partition key of a record lies in the range of the
  shard it is sent to. Here for all the spans of the record as well, and for a shard that is the
  in-memory form of the definition the server sent.
\<close>

definition wellRouted :: "codec \<Rightarrow> shardEncoder \<Rightarrow> bool" where
  "wellRouted c se \<longleftrightarrow> toInMem (origin (se_shard se)) = se_shard se \<and>
     (\<forall>s \<in> set (se_spans se). belongsToShard (se_shard se) (spanPartitionKey c s))"

fun eventRouted :: "codec \<Rightarrow> event \<Rightarrow> bool" where
  "eventRouted c (RecordReady rec ss sh) \<longleftrightarrow> toInMem (origin sh) = sh \<and>
     belongsToShard sh (PartitionKey rec) \<and> (\<forall>s \<in> set ss. belongsToShard sh (spanPartitionKey c s))"
| "eventRouted c _ \<longleftrightarrow> True"

lemma toInMem_origin: "newShardingInMemConfig pb = Inr cfg \<Longrightarrow> sh \<in> set (shards cfg) \<Longrightarrow> toInMem (origin sh) = sh"
proof -
  assume "newShardingInMemConfig pb = Inr cfg" and sh: "sh \<in> set (shards cfg)"
  then have "mset (shards cfg) = mset (map toInMem (ShardDefinitions pb))"
    using library_sort.with_accepts(2) by (simp add: newShardingInMemConfig_def)
  with sh have "sh \<in> set (map toInMem (ShardDefinitions pb))" by (metis mset_eq_setD)
  then show "toInMem (origin sh) = sh" by (auto simp: toInMem_def)
qed

lemma eventRouted_norecord:
  "(\<And>rec ss sh. RecordReady rec ss sh \<notin> set evs) \<Longrightarrow> \<forall>ev \<in> set evs. eventRouted c ev"
proof
  fix ev assume none: "\<And>rec ss sh. RecordReady rec ss sh \<notin> set evs" and ev: "ev \<in> set evs"
  show "eventRouted c ev"
  proof (cases ev)
    case (RecordReady rec ss sh)
    with none [of rec ss sh] ev show ?thesis by simp
  qed simp_all
qed

lemma spanPartitionKey_spanKey: "spanKey s = spanKey t \<Longrightarrow> spanPartitionKey c s = spanPartitionKey c t"
  unfolding spanPartitionKey_def by (drule spanKey_TraceID) simp

lemma Flush_routed:
  assumes "Flush c se = (se', evs)" and "wellRouted c se"
  shows "wellRouted c se' \<and> (\<forall>ev \<in> set evs. eventRouted c ev)"
proof
  show "wellRouted c se'"
    using Flush_empties [OF assms(1)] Flush_frame [OF assms(1)] assms(2) by (simp add: wellRouted_def)
  show "\<forall>ev \<in> set evs. eventRouted c ev"
  proof
    fix ev assume ev: "ev \<in> set evs"
    show "eventRouted c ev"
    proof (cases ev)
      case (RecordReady rec ss sh)
      with Flush_RecordReady [OF assms(1)] ev have "ss = se_spans se" "ss \<noteq> []" "sh = se_shard se"
        "PartitionKey rec = TraceID_String c (SpanTraceID (hd ss))" by auto
      with assms(2) show ?thesis
        by (auto simp: RecordReady wellRouted_def spanPartitionKey_def)
    qed simp_all
  qed
qed

lemma accumulateLocked_routed:
  assumes "accumulateLocked se span sz = (se', b, evs)" and "wellRouted c se"
    and "belongsToShard (se_shard se) (spanPartitionKey c span)"
  shows "wellRouted c se'"
  using assms by (auto simp: accumulateLocked_def wellRouted_def Let_def split: if_splits)

lemma tryEncodeSpan_key:
  "tryEncodeSpan c se span = (span', res, evs) \<Longrightarrow> spanPartitionKey c span' = spanPartitionKey c span"
  by (auto simp: tryEncodeSpan_def Let_def spanPartitionKey_def split: option.splits if_splits)

lemma Encode_routed:
  assumes "Encode c se span = (se', r, evs)" and "wellRouted c se"
    and "belongsToShard (se_shard se) (spanPartitionKey c span)"
  shows "wellRouted c se' \<and> (\<forall>ev \<in> set evs. eventRouted c ev)"
  using assms(1)
proof (cases rule: Encode_cases)
  case (rejected span1 e)
  have "\<forall>ev \<in> set evs. eventRouted c ev"
    by (rule eventRouted_norecord) (use tryEncodeSpan_events [OF rejected(1)] in blast)
  with assms(2) rejected(2) show ?thesis by simp
next
  case (kept span1 sz evs1 evs2)
  have "\<forall>ev \<in> set evs1. eventRouted c ev"
    by (rule eventRouted_norecord) (use tryEncodeSpan_events [OF kept(1)] in blast)
  moreover have "\<forall>ev \<in> set evs2. eventRouted c ev"
    by (rule eventRouted_norecord) (use accumulateLocked_events [OF kept(2)] in blast)
  moreover have "wellRouted c se'"
    using assms(2,3) tryEncodeSpan_key [OF kept(1)] by (intro accumulateLocked_routed [OF kept(2)]) simp_all
  ultimately show ?thesis by (auto simp: kept(3))
next
  case (flushed span1 sz evs1 se1 evs2)
  have "wellRouted c se1"
    using assms tryEncodeSpan_key [OF flushed(1)] by (intro accumulateLocked_routed [OF flushed(2)]) simp_all
  from Flush_routed [OF flushed(3) this] have "wellRouted c se'" "\<forall>ev \<in> set evs2. eventRouted c ev"
    by auto
  moreover have "\<forall>ev \<in> set evs1. eventRouted c ev"
    by (rule eventRouted_norecord) (use tryEncodeSpan_events [OF flushed(1)] in blast)
  ultimately show ?thesis by (auto simp: flushed(4))
qed

section \<open>A concrete encoder\<close>

text \<open>
  For the examples: a configuration with an inverted range, and an encoder that has been given
  the four quarters of the key space.
\<close>

definition sampleInverted :: ShardingConfig where
  "sampleInverted = \<lparr>ShardDefinitions = [\<lparr>ShardId = ''s'', StartingHashKey = [2], EndingHashKey = [1]\<rparr>]\<rparr>"

lemma sampleInverted_rejected: "newShardingInMemConfig sampleInverted = Inl StartingBiggerThanEnding"
  by (simp add: newShardingInMemConfig_def newShardingInMemConfig_with_def sampleInverted_def
      toInMem_def SetBytes_def Let_def)

definition sampleOptions :: Options where
  "sampleOptions =
     \<lparr>ExporterName = ''omnishard'', NumWorkers = 2, MaxRecordSize = 10, BatchFlushInterval = 1,
      MaxAllowedSizePerSpan = 60\<rparr>"

definition sampleEnc :: encoder where
  "sampleEnc =
     \<lparr>en_options = sampleOptions, en_hooks = newTelemetryHooks ''omnishard'' [],
      en_configChangeRequest = None, en_configChangeStopped = False, en_workersStarted = False,
      en_spanBatchesToProcess = make_chan 2, en_spansToProcessWg = 0, en_isStoppingFlag = False,
      en_workerHardStop = False, en_shardEncoders = [], en_metricViews = metricViews, en_heap = []\<rparr>"

lemma sampleEnc_new: "newEncoder (\<lambda>_. True) sampleOptions = Some sampleEnc"
  by (simp add: newEncoder_def sampleEnc_def sampleOptions_def populateDefaults_def Let_def)

definition sampleEnc4 :: encoder where
  "sampleEnc4 = sampleEnc\<lparr>en_workersStarted := True, en_shardEncoders := [0 ..< 4],
     en_heap := map (shardEncoderFor sampleOptions) (shards inMem4)\<rparr>"

lemma inMem4_length [simp]: "length (shards inMem4) = 4"
  by (simp add: inMem4_def testConfig4_def)

lemma sampleEnc4_apply: "applyConfig testConfig4 sampleEnc = (sampleEnc4, ConfigApplied True, [])"
proof -
  obtain e evs where s: "startShardEncoders inMem4 sampleEnc = (e, evs)" by fastforce
  note eqs = startShardEncoders_eq [OF s]
  have "evs = []" by (rule eqs(4)) (simp add: sampleEnc_def sampleOptions_def)
  moreover have "e\<lparr>en_workersStarted := True\<rparr> = sampleEnc4"
    by (subst eqs(3)) (simp add: eqs(1,2) sampleEnc4_def sampleEnc_def)
  moreover have "\<not> en_workersStarted sampleEnc" by (simp add: sampleEnc_def)
  ultimately show ?thesis by (simp add: applyConfig_def testConfig4_accepted s)
qed

lemma sampleEnc4_config:
  "processConfigChange (SetConfig (Some testConfig4) sampleEnc) = (sampleEnc4, ConfigApplied True, [])"
proof -
  have "takeConfigRequest (SetConfig (Some testConfig4) sampleEnc) = Some (testConfig4, sampleEnc)"
    "stopShardEncoders sampleEnc = sampleEnc"
    by (simp_all add: takeConfigRequest_def SetConfig_def stopShardEncoders_def sampleEnc_def)
  then show ?thesis by (simp add: processConfigChange_def sampleEnc4_apply)
qed

lemma sampleEnc4_addrs: "addrsOk sampleEnc4"
  by (simp add: addrsOk_def sampleEnc4_def)

lemma sampleEnc4_shards: "currentShards sampleEnc4 = shards inMem4"
  by (intro nth_equalityI) (simp_all add: currentShards_def sampleEnc4_def)

lemma inMem4_valid: "validShards (shards inMem4)"
  using testConfig4_accepted library_sort.with_accepts(1) by (simp add: newShardingInMemConfig_def)

lemma sampleEnc4_route: "getShardEncoder sampleEnc4 ''abc'' = Some 2"
  using getShardEncoder_iff [of sampleEnc4 "''abc''" 2] sampleEnc4_shards inMem4_valid abc_in_third
  by (simp add: sampleEnc4_def)

section \<open>Properties\<close>

text \<open>
  a new encoder has positive limits, at least one worker and a queue as long as there are
  workers, whatever options it is given; options that are set are kept; and it takes no
  records and no workers before the first configuration. It fails exactly when the metric
  views cannot be registered.
\<close>

lemma newEncoder_defaults:
  "case newEncoder register opts of
     None \<Rightarrow> \<not> register metricViews
   | Some e \<Rightarrow> register metricViews \<and>
       0 < MaxRecordSize (en_options e) \<and> 0 < MaxAllowedSizePerSpan (en_options e) \<and>
       0 < NumWorkers (en_options e) \<and> BatchFlushInterval (en_options e) \<noteq> 0 \<and>
       MaxRecordSize (en_options e) \<in> {MaxRecordSize opts, 100000} \<and>
       MaxAllowedSizePerSpan (en_options e) \<in> {MaxAllowedSizePerSpan opts, 900000} \<and>
       BatchFlushInterval (en_options e) \<in> {BatchFlushInterval opts, 5000000000} \<and>
       NumWorkers (en_options e) \<in> {NumWorkers opts, 1} \<and>
       chan_cap (en_spanBatchesToProcess e) = unat (NumWorkers (en_options e)) \<and>
       chan_cap (en_spanBatchesToProcess e) \<noteq> 0 \<and>
       getShardEncoder e pk = None \<and> en_heap e = [] \<and> \<not> en_workersStarted e"
  by (auto simp: newEncoder_def populateDefaults_def Let_def defs make_chan_def getShardEncoder_def
      word_neq_0_conv [symmetric] unat_eq_zero defMaxRecordSize_def defMaxAllowedSizePerSpan_def
      defBatchFlushInterval_def)

text \<open>
  C23: applying a valid configuration. Every shard encoder in use is stopped, with what it
  has accumulated untouched; the list is replaced by new, empty, running encoders, one for
  each shard of the configuration in hash order; the request is consumed, and the workers are
  started the first time only.
\<close>

theorem processConfigChange_applies:
  assumes "addrsOk e" and "\<not> en_configChangeStopped e" and "en_configChangeRequest e = Some req"
    and "newShardingInMemConfig req = Inr cfg" and "0 < BatchFlushInterval (en_options e)"
    and "processConfigChange e = (e', turn, evs)"
  shows "turn = ConfigApplied (\<not> en_workersStarted e) \<and> en_workersStarted e' \<and> evs = [] \<and>
    en_configChangeRequest e' = None \<and> addrsOk e' \<and> currentShards e' = shards cfg \<and>
    (\<forall>a \<in> set (en_shardEncoders e'). a \<ge> length (en_heap e) \<and>
       \<not> se_stopped (en_heap e' ! a) \<and> se_spans (en_heap e' ! a) = []) \<and>
    (\<forall>a \<in> set (en_shardEncoders e). se_stopped (en_heap e' ! a) \<and>
       se_spans (en_heap e' ! a) = se_spans (en_heap e ! a)) \<and>
    heapKeys (en_heap e') = heapKeys (en_heap e)"
proof -
  let ?e1 = "stopShardEncoders (e\<lparr>en_configChangeRequest := None\<rparr>)"
  obtain e2 evs2 where 2: "startShardEncoders cfg ?e1 = (e2, evs2)" by fastforce
  note st = startShardEncoders_eq [OF 2] startShardEncoders_addrs [OF 2]
  from assms(2-4,6) 2 have res: "e' = e2\<lparr>en_workersStarted := True\<rparr>"
    "turn = ConfigApplied (\<not> en_workersStarted e)" "evs = evs2"
    by (auto simp: processConfigChange_def takeConfigRequest_def applyConfig_def stopShardEncoders_def)
  have "evs2 = []" using assms(5) by (intro st(4)) (simp add: stopShardEncoders_def)
  moreover have "en_configChangeRequest e2 = None"
    by (subst st(3)) (simp add: stopShardEncoders_def)
  moreover have "currentShards e2 = shards cfg"
    using arg_cong [OF startShardEncoders_shards [OF 2], of "map se_shard"]
    by (simp add: currentShards_def comp_def)
  moreover have "a \<ge> length (en_heap e) \<and> \<not> se_stopped (en_heap e2 ! a) \<and> se_spans (en_heap e2 ! a) = []"
    if "a \<in> set (en_shardEncoders e2)" for a
    using that by (auto simp: st(1,2) nth_append stopShardEncoders_def)
  moreover have "se_stopped (en_heap e2 ! a) \<and> se_spans (en_heap e2 ! a) = se_spans (en_heap e ! a)"
    if "a \<in> set (en_shardEncoders e)" for a
    using that assms(1) by (auto simp: st(1) nth_append stopShardEncoders_def stopAll_nth addrsOk_def)
  moreover have "heapKeys (en_heap e2) = heapKeys (en_heap e)"
    by (simp add: st(1) stopShardEncoders_def)
  ultimately show ?thesis using st(5) by (simp add: res addrsOk_def currentShards_def)
qed

theorem processConfigChange_applies_witness:
  "currentShards sampleEnc4 = shards inMem4 \<and> en_configChangeRequest sampleEnc4 = None"
  using processConfigChange_applies [OF _ _ _ testConfig4_accepted _ sampleEnc4_config]
  by (simp add: SetConfig_def addrsOk_def sampleEnc_def sampleOptions_def)

text \<open>
  C24: an invalid configuration is logged as ignored, but it is not without effect: the shard
  encoders in use have been stopped before it is looked at, and the list still holds them. From
  then on no span is encoded: whatever batch a worker takes, nothing is emitted, every span is
  handed back, and no encoder is running until a valid configuration arrives.
\<close>

theorem processConfigChange_rejects:
  assumes "addrsOk e" and "\<not> en_configChangeStopped e" and "en_configChangeRequest e = Some req"
    and "newShardingInMemConfig req = Inl err" and "processConfigChange e = (e', turn, evs)"
  shows "turn = ConfigRejected err \<and> evs = [] \<and> en_shardEncoders e' = en_shardEncoders e \<and>
    (\<forall>a \<in> set (en_shardEncoders e). se_stopped (en_heap e' ! a)) \<and>
    (\<forall>spans. fst (processSpans c spans e') = e' \<and>
       eventKeys (snd (processSpans c spans e')) = spanKeys spans \<and>
       (\<forall>rec ss sh. RecordReady rec ss sh \<notin> set (snd (processSpans c spans e'))))"
proof -
  let ?e1 = "stopShardEncoders (e\<lparr>en_configChangeRequest := None\<rparr>)"
  from assms(2-5) have res: "e' = ?e1" "turn = ConfigRejected err" "evs = []"
    by (auto simp: processConfigChange_def takeConfigRequest_def applyConfig_def)
  have st: "\<forall>a \<in> set (en_shardEncoders e'). se_stopped (en_heap e' ! a)"
    using assms(1) by (auto simp: res stopShardEncoders_def addrsOk_def stopAll_stopped)
  have ok: "addrsOk e'" using assms(1) by (simp add: res stopShardEncoders_def addrsOk_def)
  have list: "en_shardEncoders e' = en_shardEncoders e" by (simp add: res stopShardEncoders_def)
  have none: "fst (processSpans c spans e') = e' \<and>
      eventKeys (snd (processSpans c spans e')) = spanKeys spans \<and>
      (\<forall>rec ss sh. RecordReady rec ss sh \<notin> set (snd (processSpans c spans e')))" for spans
    using processSpans_stopped [OF surjective_pairing [of "processSpans c spans e'"] ok st] by simp
  from res(2,3) list st none show ?thesis by simp
qed

theorem processConfigChange_rejects_witness:
  "\<exists>e'. processConfigChange (SetConfig (Some sampleInverted) sampleEnc4) =
       (e', ConfigRejected StartingBiggerThanEnding, []) \<and>
     se_stopped (en_heap e' ! 2) \<and> \<not> se_stopped (en_heap sampleEnc4 ! 2) \<and>
     eventKeys (snd (processSpans sampleCodec [sampleSpan 3 0] e')) = spanKeys [sampleSpan 3 0]"
proof -
  obtain e' turn evs
    where run: "processConfigChange (SetConfig (Some sampleInverted) sampleEnc4) = (e', turn, evs)"
    by (cases "processConfigChange (SetConfig (Some sampleInverted) sampleEnc4)") auto
  have pre: "addrsOk (SetConfig (Some sampleInverted) sampleEnc4)"
    "\<not> en_configChangeStopped (SetConfig (Some sampleInverted) sampleEnc4)"
    "en_configChangeRequest (SetConfig (Some sampleInverted) sampleEnc4) = Some sampleInverted"
    "2 \<in> set (en_shardEncoders (SetConfig (Some sampleInverted) sampleEnc4))"
    "\<not> se_stopped (en_heap sampleEnc4 ! 2)"
    by (simp_all add: SetConfig_def addrsOk_def sampleEnc4_def sampleEnc_def)
  from processConfigChange_rejects [OF pre(1-3) sampleInverted_rejected run, of sampleCodec] pre(4,5) run
  show ?thesis by (intro exI [of _ e']) metis
qed

text \<open>
  routing of a span by a worker, with valid shards in use. A span whose trace no shard
  takes is reported as \<open>ErrEncodingFailed\<close> and nothing changes. Otherwise exactly one
  shard encoder takes it, no other changes, and all its records go to its own shard with
  partition key and spans in that shard's range. No span is lost either way.
\<close>

lemma processSpan_routes:
  assumes "addrsOk e" and "validShards (currentShards e)" and "\<forall>se \<in> set (en_heap e). wellRouted c se"
    and "processSpan c span e = (e', evs)"
  shows "((\<forall>sh \<in> set (currentShards e). \<not> belongsToShard sh (spanPartitionKey c span)) \<and>
      e' = e \<and> evs = [SpanProcessFail [span] ErrEncodingFailed]
    \<or> (\<exists>!a. a \<in> set (en_shardEncoders e) \<and>
         belongsToShard (se_shard (en_heap e ! a)) (spanPartitionKey c span) \<and>
         e' = e\<lparr>en_heap := (en_heap e)[a := fst (Encode c (en_heap e ! a) span)]\<rparr>))
    \<and> (\<forall>ev \<in> set evs. eventRouted c ev)
    \<and> heapKeys (en_heap e') + eventKeys evs = add_mset (spanKey span) (heapKeys (en_heap e))"
proof (cases "getShardEncoder e (spanPartitionKey c span)")
  case None
  with assms(4) have "e' = e" "evs = [SpanProcessFail [span] ErrEncodingFailed]"
    by (auto simp: processSpan_def)
  with None processSpan_conserves [OF assms(4,1)] show ?thesis by (simp add: getShardEncoder_None)
next
  case (Some a)
  obtain se r evs1 where 1: "Encode c (en_heap e ! a) span = (se, r, evs1)"
    by (cases "Encode c (en_heap e ! a) span") auto
  with assms(4) Some have e': "e' = e\<lparr>en_heap := (en_heap e)[a := se]\<rparr>" "evs = evs1"
    by (auto simp: processSpan_def)
  have iff: "getShardEncoder e (spanPartitionKey c span) = Some b \<longleftrightarrow> b \<in> set (en_shardEncoders e) \<and>
      belongsToShard (se_shard (en_heap e ! b)) (spanPartitionKey c span)" for b
    using assms(1,2) by (intro getShardEncoder_iff) (simp_all add: addrsOk_def)
  then have b: "b = a" if "b \<in> set (en_shardEncoders e)"
      "belongsToShard (se_shard (en_heap e ! b)) (spanPartitionKey c span)" for b
    using that Some by (metis option.inject)
  from iff [of a] Some assms(1) have a: "a \<in> set (en_shardEncoders e)" "a < length (en_heap e)"
    "belongsToShard (se_shard (en_heap e ! a)) (spanPartitionKey c span)" by (auto simp: addrsOk_def)
  from Encode_routed [OF 1 _ a(3)] a(2) assms(3) have r: "\<forall>ev \<in> set evs. eventRouted c ev"
    by (auto simp: e')
  have u: "\<exists>!a. a \<in> set (en_shardEncoders e) \<and>
      belongsToShard (se_shard (en_heap e ! a)) (spanPartitionKey c span) \<and>
      e' = e\<lparr>en_heap := (en_heap e)[a := fst (Encode c (en_heap e ! a) span)]\<rparr>"
  proof (rule ex1I [of _ a])
    show "a \<in> set (en_shardEncoders e) \<and>
      belongsToShard (se_shard (en_heap e ! a)) (spanPartitionKey c span) \<and>
      e' = e\<lparr>en_heap := (en_heap e)[a := fst (Encode c (en_heap e ! a) span)]\<rparr>"
      using a 1 by (simp add: e')
  qed (use b in blast)
  show ?thesis by (intro conjI disjI2 u r processSpan_conserves [OF assms(4,1)])
qed

lemma processSpan_routes_witness:
  "getShardEncoder sampleEnc4 (spanPartitionKey sampleCodec (sampleSpan 3 0)) = Some 2 \<and>
   heapKeys (en_heap (fst (processSpan sampleCodec (sampleSpan 3 0) sampleEnc4)))
     + eventKeys (snd (processSpan sampleCodec (sampleSpan 3 0) sampleEnc4)) = {#spanKey (sampleSpan 3 0)#}"
proof -
  have "\<forall>se \<in> set (en_heap sampleEnc4). wellRouted sampleCodec se"
    by (auto simp: sampleEnc4_def wellRouted_def toInMem_origin [OF testConfig4_accepted])
  moreover have "validShards (currentShards sampleEnc4)"
    by (simp add: sampleEnc4_shards inMem4_valid)
  moreover have "heapKeys (en_heap sampleEnc4) = {#}" by (simp add: sampleEnc4_def)
  moreover have "spanPartitionKey sampleCodec (sampleSpan 3 0) = ''abc''"
    by (simp add: spanPartitionKey_def sampleCodec_def)
  ultimately show ?thesis
    using processSpan_routes [OF sampleEnc4_addrs _ _
        surjective_pairing [of "processSpan sampleCodec (sampleSpan 3 0) sampleEnc4"]]
      sampleEnc4_route by simp
qed

text \<open>
  Stopping the encoder. Afterwards no span is accepted, the configuration goroutine
  returns, the shard encoders in use are stopped and empty, and what they held has been
  emitted or handed back. The signal to the workers is closed once; a second \<open>Stop\<close> panics.
\<close>

lemma encoder_Stop_correct:
  assumes "addrsOk e" and "encoder_Stop c e = (e', evs)"
  shows "EncodeSpans spans e' = (e', AlreadyStopped, []) \<and>
    processConfigChange e' = (e', ConfigReturns, []) \<and>
    (\<forall>a \<in> set (en_shardEncoders e'). se_stopped (en_heap e' ! a) \<and> se_spans (en_heap e' ! a) = []) \<and>
    heapKeys (en_heap e') + eventKeys evs = heapKeys (en_heap e) \<and>
    en_workerHardStop e' \<and> en_metricViews e' = [] \<and>
    (Crashed CloseOfClosedChannel \<in> set (snd (encoder_Stop c e')))"
proof -
  obtain h evs1 where f: "flushAll c (en_shardEncoders e) (en_heap e) = (h, evs1)" by fastforce
  let ?e1 = "stopConfigChanges (stopShardEncoders (beginStop e\<lparr>en_heap := h\<rparr>))"
  obtain e2 evs2 where c: "closeHardStop ?e1 = (e2, evs2)" by fastforce
  from assms(2) f c have res: "e' = e2" "evs = evs1 @ evs2"
    by (auto simp: encoder_Stop_def flushShardEncoders_def beginStop_def)
  from c have e2: "e2 = ?e1\<lparr>en_workerHardStop := True\<rparr>" "eventKeys evs2 = {#}"
    by (auto simp: closeHardStop_def close_signal_def stopConfigChanges_def stopShardEncoders_def
        beginStop_def split: if_splits)
  note defs' = res e2 stopConfigChanges_def stopShardEncoders_def beginStop_def
  have "se_stopped (en_heap e' ! a) \<and> se_spans (en_heap e' ! a) = []"
    if "a \<in> set (en_shardEncoders e')" for a
  proof -
    have a: "a \<in> set (en_shardEncoders e)" using that by (simp add: defs')
    with assms(1) flushAll_length [OF f] have "a < length h" by (auto simp: addrsOk_def)
    with a flushAll_at [OF f, of a] assms(1) show ?thesis
      by (simp add: defs' addrsOk_def stopAll_nth)
  qed
  moreover have "heapKeys (en_heap e') + eventKeys evs = heapKeys (en_heap e)"
    using flushAll_conserves [OF f] assms(1) by (simp add: defs' addrsOk_def)
  moreover have "Crashed CloseOfClosedChannel \<in> set (snd (encoder_Stop c e'))"
  proof -
    obtain e3 evs3 where f3: "flushShardEncoders c (beginStop e') = (e3, evs3)" by fastforce
    then have "en_workerHardStop e3"
      by (auto simp: flushShardEncoders_def beginStop_def defs' split: prod.splits)
    then show ?thesis
      by (simp add: encoder_Stop_def f3 closeHardStop_def close_signal_def stopConfigChanges_def
          stopShardEncoders_def)
  qed
  ultimately show ?thesis
    by (simp add: EncodeSpans_def isStopping_def processConfigChange_def takeConfigRequest_def defs')
qed

lemma encoder_Stop_correct_witness:
  "\<exists>e' evs. encoder_Stop sampleCodec (fst (processSpan sampleCodec (sampleSpan 3 0) sampleEnc4)) = (e', evs) \<and>
     EncodeSpans [sampleSpan 8 0] e' = (e', AlreadyStopped, []) \<and> en_workerHardStop e'"
proof -
  let ?e = "fst (processSpan sampleCodec (sampleSpan 3 0) sampleEnc4)"
  obtain e' evs where run: "encoder_Stop sampleCodec ?e = (e', evs)" by fastforce
  have "addrsOk ?e"
    using sampleEnc4_addrs by (auto simp: processSpan_def addrsOk_def split: option.splits prod.splits)
  from encoder_Stop_correct [OF this run, of "[sampleSpan 8 0]"] run show ?thesis by blast
qed

end
