(* ===== verification/EncoderConc.thy ===== *)
theory EncoderConc
  imports Encoder
begin

text \<open>
  The encoder under concurrency (\<open>exporter/omnishard/encoder.go\<close>): callers of \<open>EncodeSpans\<close>
  and \<open>SetConfig\<close>, the workers, the goroutine \<open>processConfigChanges\<close>, the flushing goroutine
  of each shard encoder, and one call of \<open>Stop\<close>. An action names the goroutine that moves;
  \<open>enc_exec\<close> runs it, or is absent when that goroutine cannot move. The critical sections of a
  shard encoder are single steps here, since its lock lets one goroutine in at a time
  and each reads the stopped flag once; \<open>ShardEncoderConc\<close> opens them. A worker's work on a span
  is cut wherever another goroutine can come between: the load of the list of shard
  encoders, the measuring, the append and the flush. \<open>es_accepted\<close> and \<open>es_events\<close> are
  history: the spans accepted so far, and the events so far.
\<close>

section \<open>State\<close>

datatype worker =
    Idle
  | Processing "Span list"
  | Loaded nat Span "Span list"
  | Measured nat Span nat "Span list"
  | FlushDue nat "Span list"
  | WorkerExited

datatype configGoroutine =
    ConfigWaiting
  | ConfigStopping ShardingConfig "nat list"
  | ConfigStarting "shardInMemConfig list" "nat list"
  | ConfigStored
  | ConfigExited

datatype stopper =
    NotStopping
  | Draining
  | FlushingShards "nat list"
  | StoppingShards "nat list"
  | ClosingHardStop
  | StopReturned

record enc_sys =
  es_enc :: encoder
  es_flushers :: "flusher list"
  es_checked :: "Span list list"
  es_sending :: "Span list list"
  es_workers :: "worker list"
  es_config :: configGoroutine
  es_stop :: stopper
  es_accepted :: "Span list"
  es_events :: "event list"

definition enc_sys_init :: "encoder \<Rightarrow> enc_sys" where
  "enc_sys_init e =
     \<lparr>es_enc = e, es_flushers = [], es_checked = [], es_sending = [], es_workers = [],
      es_config = ConfigWaiting, es_stop = NotStopping, es_accepted = [], es_events = []\<rparr>"

section \<open>Steps of each goroutine\<close>

text \<open>\<open>processQueuedSpans\<close> and \<open>processSpanBatch\<close>, cut at the points of interference.\<close>

definition setShardEncoder :: "nat \<Rightarrow> shardEncoder \<Rightarrow> encoder \<Rightarrow> encoder" where
  "setShardEncoder a se e = e\<lparr>en_heap := (en_heap e)[a := se]\<rparr>"

fun worker_step :: "codec \<Rightarrow> encoder \<Rightarrow> worker \<Rightarrow> (encoder \<times> worker \<times> event list) option" where
  "worker_step c e Idle =
     (case dequeueSpans e of None \<Rightarrow> None | Some (spans, e1, evs) \<Rightarrow> Some (e1, Processing spans, evs))"
| "worker_step c e (Processing []) = (case wgDone e of (e1, evs) \<Rightarrow> Some (e1, Idle, evs))"
| "worker_step c e (Processing (span # rest)) =
     (case getShardEncoder e (spanPartitionKey c span) of
        None \<Rightarrow> Some (e, Processing rest, [SpanProcessFail [span] ErrEncodingFailed])
      | Some a \<Rightarrow> Some (e, Loaded a span rest, []))"
| "worker_step c e (Loaded a span rest) =
     (case tryEncodeSpan c (en_heap e ! a) span of
        (span1, Inl err, evs) \<Rightarrow> Some (e, Processing rest, evs)
      | (span1, Inr sz, evs) \<Rightarrow> Some (e, Measured a span1 sz rest, evs))"
| "worker_step c e (Measured a span sz rest) =
     (case accumulateLocked (en_heap e ! a) span sz of
        (se, needFlush, evs) \<Rightarrow>
          Some (setShardEncoder a se e, if needFlush then FlushDue a rest else Processing rest, evs))"
| "worker_step c e (FlushDue a rest) =
     (case Flush c (en_heap e ! a) of (se, evs) \<Rightarrow> Some (setShardEncoder a se e, Processing rest, evs))"
| "worker_step c e WorkerExited = None"

text \<open>The other branch of the \<open>select\<close>.\<close>

definition worker_quit :: "encoder \<Rightarrow> worker \<Rightarrow> worker option" where
  "worker_quit e w = (if w = Idle \<and> en_workerHardStop e then Some WorkerExited else None)"

text \<open>\<open>flushPeriodically\<close>: a tick flushes; the done signal leads to the last flush.\<close>

definition flusher_tick :: "codec \<Rightarrow> shardEncoder \<Rightarrow> flusher \<Rightarrow> (shardEncoder \<times> event list) option" where
  "flusher_tick c se fl = (if fl = Ticking then Some (Flush c se) else None)"

definition flusher_step ::
  "codec \<Rightarrow> shardEncoder \<Rightarrow> flusher \<Rightarrow> (shardEncoder \<times> flusher \<times> event list) option" where
  "flusher_step c se fl =
     (case fl of
        Ticking \<Rightarrow> if se_done se then Some (se, FinalFlush, []) else None
      | FinalFlush \<Rightarrow> (case Flush c se of (se1, evs) \<Rightarrow> Some (se1, Exited, evs))
      | _ \<Rightarrow> None)"

text \<open>
  \<open>processConfigChanges\<close>: take the request and load the list to stop, stop one encoder at a
  time, look at the new configuration, start one encoder at a time, store the new list, start the
  workers. \<open>ConfigStarting\<close> has the shards still to be started and the encoders that run but are not in
  the list yet; that an encoder is created just before it is started makes no difference, as no
  other goroutine knows it. The step yields the numbers of shard encoders and of workers it starts.
\<close>

fun config_step ::
  "encoder \<Rightarrow> configGoroutine \<Rightarrow> (encoder \<times> configGoroutine \<times> nat \<times> nat \<times> event list) option" where
  "config_step e ConfigWaiting =
     (if en_configChangeStopped e then Some (e, ConfigExited, 0, 0, [])
      else case takeConfigRequest e of
        None \<Rightarrow> None
      | Some (req, e1) \<Rightarrow> Some (e1, ConfigStopping req (en_shardEncoders e1), 0, 0, []))"
| "config_step e (ConfigStopping req (a # as)) =
     Some (setShardEncoder a (shardEncoder_Stop (en_heap e ! a)) e, ConfigStopping req as, 0, 0, [])"
| "config_step e (ConfigStopping req []) =
     (case newShardingInMemConfig req of
        Inl err \<Rightarrow> Some (e, ConfigWaiting, 0, 0, [])
      | Inr cfg \<Rightarrow> Some (e, ConfigStarting (shards cfg) [], 0, 0, []))"
| "config_step e (ConfigStarting (shard # shs) started) =
     (let se = shardEncoderFor (en_options e) shard
      in Some (e\<lparr>en_heap := en_heap e @ [se]\<rparr>, ConfigStarting shs (started @ [length (en_heap e)]), 1, 0,
               startEvents se))"
| "config_step e (ConfigStarting [] started) =
     Some (e\<lparr>en_shardEncoders := started\<rparr>, ConfigStored, 0, 0, [])"
| "config_step e ConfigStored =
     Some (e\<lparr>en_workersStarted := True\<rparr>, ConfigWaiting, 0,
           if en_workersStarted e then 0 else startWorkers e, [])"
| "config_step e ConfigExited = None"

text \<open>
  \<open>Stop\<close>: \<open>Draining\<close> ends when the wait group is zero or the time is up, so always at some
  point; the flushes of \<open>flushShardEncoders\<close> run in any order.
\<close>

fun stop_flush :: "codec \<Rightarrow> nat \<Rightarrow> encoder \<Rightarrow> stopper \<Rightarrow> (encoder \<times> stopper \<times> event list) option" where
  "stop_flush c a e (FlushingShards as) =
     (if a \<in> set as then
        (case Flush c (en_heap e ! a) of
           (se, evs) \<Rightarrow> Some (setShardEncoder a se e, FlushingShards (remove1 a as), evs))
      else None)"
| "stop_flush c a e _ = None"

fun stop_step :: "encoder \<Rightarrow> stopper \<Rightarrow> (encoder \<times> stopper \<times> event list) option" where
  "stop_step e NotStopping = Some (beginStop e, Draining, [])"
| "stop_step e Draining = Some (e, FlushingShards (en_shardEncoders e), [])"
| "stop_step e (FlushingShards as) =
     (if as = [] then Some (e, StoppingShards (en_shardEncoders e), []) else None)"
| "stop_step e (StoppingShards (a # as)) =
     Some (setShardEncoder a (shardEncoder_Stop (en_heap e ! a)) e, StoppingShards as, [])"
| "stop_step e (StoppingShards []) = Some (stopConfigChanges e, ClosingHardStop, [])"
| "stop_step e ClosingHardStop = (case closeHardStop e of (e1, evs) \<Rightarrow> Some (e1, StopReturned, evs))"
| "stop_step e StopReturned = None"

section \<open>The system\<close>

datatype action =
    CallerCheck "Span list"
  | CallerAdd nat
  | CallerSend nat
  | CallSetConfig "ShardingConfig option"
  | WorkerStep nat
  | WorkerQuit nat
  | FlusherTick nat
  | FlusherStep nat
  | ConfigStep
  | StopFlush nat
  | StopStep

definition removeNth :: "nat \<Rightarrow> 'a list \<Rightarrow> 'a list" where
  "removeNth i xs = take i xs @ drop (Suc i) xs"

definition emit :: "event list \<Rightarrow> enc_sys \<Rightarrow> enc_sys" where
  "emit evs s = s\<lparr>es_events := es_events s @ evs\<rparr>"

fun enc_exec :: "codec \<Rightarrow> action \<Rightarrow> enc_sys \<Rightarrow> enc_sys option" where
  "enc_exec c (CallerCheck spans) s =
     (if isStopping (es_enc s) then None
      else Some (s\<lparr>es_checked := spans # es_checked s, es_accepted := spans @ es_accepted s\<rparr>))"
| "enc_exec c (CallerAdd i) s =
     (if i < length (es_checked s)
      then Some (s\<lparr>es_enc := wgAdd (es_enc s), es_checked := removeNth i (es_checked s),
                  es_sending := (es_checked s ! i) # es_sending s\<rparr>)
      else None)"
| "enc_exec c (CallerSend i) s =
     (if i < length (es_sending s)
      then (case enqueueSpans (es_sending s ! i) (es_enc s) of
              None \<Rightarrow> None
            | Some (e, evs) \<Rightarrow>
                Some (emit evs (s\<lparr>es_enc := e, es_sending := removeNth i (es_sending s)\<rparr>)))
      else None)"
| "enc_exec c (CallSetConfig cfg) s = Some (s\<lparr>es_enc := SetConfig cfg (es_enc s)\<rparr>)"
| "enc_exec c (WorkerStep i) s =
     (if i < length (es_workers s)
      then (case worker_step c (es_enc s) (es_workers s ! i) of
              None \<Rightarrow> None
            | Some (e, w, evs) \<Rightarrow>
                Some (emit evs (s\<lparr>es_enc := e, es_workers := (es_workers s)[i := w]\<rparr>)))
      else None)"
| "enc_exec c (WorkerQuit i) s =
     (if i < length (es_workers s)
      then (case worker_quit (es_enc s) (es_workers s ! i) of
              None \<Rightarrow> None
            | Some w \<Rightarrow> Some (s\<lparr>es_workers := (es_workers s)[i := w]\<rparr>))
      else None)"
| "enc_exec c (FlusherTick a) s =
     (if a < length (es_flushers s)
      then (case flusher_tick c (en_heap (es_enc s) ! a) (es_flushers s ! a) of
              None \<Rightarrow> None
            | Some (se, evs) \<Rightarrow> Some (emit evs (s\<lparr>es_enc := setShardEncoder a se (es_enc s)\<rparr>)))
      else None)"
| "enc_exec c (FlusherStep a) s =
     (if a < length (es_flushers s)
      then (case flusher_step c (en_heap (es_enc s) ! a) (es_flushers s ! a) of
              None \<Rightarrow> None
            | Some (se, fl, evs) \<Rightarrow>
                Some (emit evs (s\<lparr>es_enc := setShardEncoder a se (es_enc s),
                                 es_flushers := (es_flushers s)[a := fl]\<rparr>)))
      else None)"
| "enc_exec c ConfigStep s =
     (case config_step (es_enc s) (es_config s) of
        None \<Rightarrow> None
      | Some (e, g, flushers, workers, evs) \<Rightarrow>
          Some (emit evs (s\<lparr>es_enc := e, es_config := g,
                           es_flushers := es_flushers s @ replicate flushers Ticking,
                           es_workers := es_workers s @ replicate workers Idle\<rparr>)))"
| "enc_exec c (StopFlush a) s =
     (case stop_flush c a (es_enc s) (es_stop s) of
        None \<Rightarrow> None
      | Some (e, st, evs) \<Rightarrow> Some (emit evs (s\<lparr>es_enc := e, es_stop := st\<rparr>)))"
| "enc_exec c StopStep s =
     (case stop_step (es_enc s) (es_stop s) of
        None \<Rightarrow> None
      | Some (e, st, evs) \<Rightarrow> Some (emit evs (s\<lparr>es_enc := e, es_stop := st\<rparr>)))"

inductive enc_step :: "codec \<Rightarrow> enc_sys \<Rightarrow> enc_sys \<Rightarrow> bool" for c where
  act: "enc_exec c a s = Some t \<Longrightarrow> enc_step c s t"

inductive_cases enc_stepE: "enc_step c s t"

fun enc_run :: "codec \<Rightarrow> action list \<Rightarrow> enc_sys \<Rightarrow> enc_sys option" where
  "enc_run c [] s = Some s"
| "enc_run c (a # as) s = (case enc_exec c a s of None \<Rightarrow> None | Some s1 \<Rightarrow> enc_run c as s1)"

lemma enc_run_reachable: "enc_run c as s = Some t \<Longrightarrow> (enc_step c)\<^sup>*\<^sup>* s t"
proof (induction "as" arbitrary: s)
  case (Cons a "as")
  then obtain s1 where "enc_exec c a s = Some s1" "enc_run c as s1 = Some t"
    by (auto split: option.splits)
  with Cons.IH show ?case by (meson act converse_rtranclp_into_rtranclp)
qed simp

section \<open>Addresses and shards\<close>

text \<open>The heap only grows, and the shard of an encoder never changes.\<close>

definition extends :: "encoder \<Rightarrow> encoder \<Rightarrow> bool" where
  "extends e e' \<longleftrightarrow> length (en_heap e) \<le> length (en_heap e') \<and>
     (\<forall>a < length (en_heap e). se_shard (en_heap e' ! a) = se_shard (en_heap e ! a))"

lemma extends_refl [simp]: "extends e e"
  by (simp add: extends_def)

lemma extends_same_heap: "en_heap e' = en_heap e \<Longrightarrow> extends e e'"
  by (simp add: extends_def)

lemma setShardEncoder_simps [simp]:
  "en_heap (setShardEncoder a se e) = (en_heap e)[a := se]"
  "en_shardEncoders (setShardEncoder a se e) = en_shardEncoders e"
  "en_spanBatchesToProcess (setShardEncoder a se e) = en_spanBatchesToProcess e"
  "en_spansToProcessWg (setShardEncoder a se e) = en_spansToProcessWg e"
  "en_options (setShardEncoder a se e) = en_options e"
  "en_isStoppingFlag (setShardEncoder a se e) = en_isStoppingFlag e"
  "en_workerHardStop (setShardEncoder a se e) = en_workerHardStop e"
  "en_workersStarted (setShardEncoder a se e) = en_workersStarted e"
  "en_configChangeStopped (setShardEncoder a se e) = en_configChangeStopped e"
  by (simp_all add: setShardEncoder_def)

lemma shard_update:
  "se_shard se = se_shard (h ! a) \<Longrightarrow> se_shard (h[a := se] ! i) = se_shard (h ! i)"
  by (cases "i = a"; cases "a < length h") (auto simp: list_update_beyond)

lemma extends_set:
  "se_shard se = se_shard (en_heap e ! a) \<Longrightarrow> extends e (setShardEncoder a se e)"
  by (simp add: extends_def shard_update)

fun workerOk :: "codec \<Rightarrow> encoder \<Rightarrow> worker \<Rightarrow> bool" where
  "workerOk c e (Loaded a span _) \<longleftrightarrow> a < length (en_heap e) \<and>
     belongsToShard (se_shard (en_heap e ! a)) (spanPartitionKey c span)"
| "workerOk c e (Measured a span _ _) \<longleftrightarrow> a < length (en_heap e) \<and>
     belongsToShard (se_shard (en_heap e ! a)) (spanPartitionKey c span)"
| "workerOk c e (FlushDue a _) \<longleftrightarrow> a < length (en_heap e)"
| "workerOk c e _ \<longleftrightarrow> True"

fun configOk :: "encoder \<Rightarrow> configGoroutine \<Rightarrow> bool" where
  "configOk e (ConfigStopping req as) \<longleftrightarrow> set as \<subseteq> set (en_shardEncoders e)"
| "configOk e (ConfigStarting shs started) \<longleftrightarrow> distinct started \<and> (\<forall>a \<in> set started. a < length (en_heap e)) \<and>
     validShards (map (\<lambda>a. se_shard (en_heap e ! a)) started @ shs) \<and> (\<forall>sh \<in> set shs. toInMem (origin sh) = sh)"
| "configOk e _ \<longleftrightarrow> True"

fun stopperOk :: "encoder \<Rightarrow> stopper \<Rightarrow> bool" where
  "stopperOk e (FlushingShards as) \<longleftrightarrow> (\<forall>a \<in> set as. a < length (en_heap e))"
| "stopperOk e (StoppingShards as) \<longleftrightarrow> (\<forall>a \<in> set as. a < length (en_heap e))"
| "stopperOk e _ \<longleftrightarrow> True"

lemma workerOk_mono: "workerOk c e w \<Longrightarrow> extends e e' \<Longrightarrow> workerOk c e' w"
  by (cases w) (auto simp: extends_def)

lemma stopperOk_mono: "stopperOk e st \<Longrightarrow> extends e e' \<Longrightarrow> stopperOk e' st"
  by (cases st) (auto simp: extends_def)

definition encOk :: "codec \<Rightarrow> encoder \<Rightarrow> bool" where
  "encOk c e \<longleftrightarrow> addrsOk e \<and> validShards (currentShards e) \<and> (\<forall>se \<in> set (en_heap e). wellRouted c se)"

text \<open>What every step of a goroutine keeps: a sound list in use, sound shard encoders.\<close>

definition goodStep :: "codec \<Rightarrow> encoder \<Rightarrow> encoder \<Rightarrow> event list \<Rightarrow> bool" where
  "goodStep c e e' evs \<longleftrightarrow> encOk c e' \<and> extends e e' \<and> (\<forall>ev \<in> set evs. eventRouted c ev)"

lemma currentShards_set [simp]:
  assumes "se_shard se = se_shard (en_heap e ! a)"
  shows "currentShards (setShardEncoder a se e) = currentShards e"
  by (simp add: currentShards_def shard_update [OF assms])

lemma encOk_nth: "encOk c e \<Longrightarrow> a < length (en_heap e) \<Longrightarrow> wellRouted c (en_heap e ! a)"
  by (simp add: encOk_def)

lemma encOk_set:
  assumes "encOk c e" and "se_shard se = se_shard (en_heap e ! a)"
    and "a < length (en_heap e) \<Longrightarrow> wellRouted c se"
  shows "encOk c (setShardEncoder a se e)"
proof -
  have "\<forall>x \<in> set ((en_heap e)[a := se]). wellRouted c x"
    by (rule all_set_update) (use assms(1,3) in \<open>simp_all add: encOk_def\<close>)
  with assms(1,2) show ?thesis by (simp add: encOk_def addrsOk_def)
qed

lemma encOk_same:
  assumes "encOk c e" and "en_heap e' = en_heap e" and "en_shardEncoders e' = en_shardEncoders e"
  shows "encOk c e'"
  using assms(1) unfolding encOk_def addrsOk_def currentShards_def assms(2,3) .

lemma goodStep_same:
  "encOk c e \<Longrightarrow> en_heap e' = en_heap e \<Longrightarrow> en_shardEncoders e' = en_shardEncoders e \<Longrightarrow>
     \<forall>ev \<in> set evs. eventRouted c ev \<Longrightarrow> goodStep c e e' evs"
  unfolding goodStep_def by (blast intro: encOk_same extends_same_heap)

lemma goodStep_flush:
  assumes "encOk c e" and "Flush c (en_heap e ! a) = (se, evs)" and "a < length (en_heap e)"
  shows "goodStep c e (setShardEncoder a se e) evs"
proof -
  have "se_shard se = se_shard (en_heap e ! a)" using Flush_frame [OF assms(2)] by simp
  with Flush_routed [OF assms(2) encOk_nth [OF assms(1,3)]] assms(1) show ?thesis
    by (simp add: goodStep_def encOk_set extends_set)
qed

lemma goodStep_stop:
  assumes "encOk c e"
  shows "goodStep c e (setShardEncoder a (shardEncoder_Stop (en_heap e ! a)) e) []"
  using encOk_nth [OF assms, of a] assms
  by (simp add: goodStep_def extends_set encOk_set wellRouted_def)

text \<open>The ways a worker can move.\<close>

lemma worker_step_cases:
  assumes "worker_step c e w = Some (e', w', evs)"
  obtains (dequeued) spans where "w = Idle" "dequeueSpans e = Some (spans, e', evs)" "w' = Processing spans"
  | (finished) "w = Processing []" "wgDone e = (e', evs)" "w' = Idle"
  | (unrouted) span rest where "w = Processing (span # rest)"
      "getShardEncoder e (spanPartitionKey c span) = None"
      "e' = e" "w' = Processing rest" "evs = [SpanProcessFail [span] ErrEncodingFailed]"
  | (routed) span rest a where "w = Processing (span # rest)"
      "getShardEncoder e (spanPartitionKey c span) = Some a"
      "e' = e" "w' = Loaded a span rest" "evs = []"
  | (rejected) a span rest span1 err where "w = Loaded a span rest"
      "tryEncodeSpan c (en_heap e ! a) span = (span1, Inl err, evs)" "e' = e" "w' = Processing rest"
  | (measured) a span rest span1 sz where "w = Loaded a span rest"
      "tryEncodeSpan c (en_heap e ! a) span = (span1, Inr sz, evs)" "e' = e" "w' = Measured a span1 sz rest"
  | (accumulated) a span sz rest se needFlush where "w = Measured a span sz rest"
      "accumulateLocked (en_heap e ! a) span sz = (se, needFlush, evs)" "e' = setShardEncoder a se e"
      "w' = (if needFlush then FlushDue a rest else Processing rest)"
  | (flushed) a rest se where "w = FlushDue a rest" "Flush c (en_heap e ! a) = (se, evs)"
      "e' = setShardEncoder a se e" "w' = Processing rest"
proof (cases w)
  case Idle
  with assms show thesis by (auto intro: dequeued split: option.splits)
next
  case (Processing spans)
  show thesis
  proof (cases spans)
    case Nil
    with assms Processing show thesis by (auto intro: finished split: prod.splits)
  next
    case (Cons span rest)
    note Processing [unfolded Cons]
    with assms show thesis
      by (cases "getShardEncoder e (spanPartitionKey c span)") (auto intro: unrouted routed)
  qed
next
  case (Loaded a span rest)
  obtain span1 r evs1 where 1: "tryEncodeSpan c (en_heap e ! a) span = (span1, r, evs1)"
    by (cases "tryEncodeSpan c (en_heap e ! a) span") auto
  with assms Loaded show thesis by (cases r) (auto intro: rejected measured)
next
  case (Measured a span sz rest)
  with assms show thesis by (auto intro: accumulated split: prod.splits)
next
  case (FlushDue a rest)
  with assms show thesis by (auto intro: flushed split: prod.splits)
next
  case WorkerExited
  with assms show thesis by simp
qed

lemma goodStep_accumulate:
  assumes "encOk c e" and "accumulateLocked (en_heap e ! a) span sz = (se, needFlush, evs)"
    and "a < length (en_heap e)" and "belongsToShard (se_shard (en_heap e ! a)) (spanPartitionKey c span)"
  shows "goodStep c e (setShardEncoder a se e) evs"
proof -
  have "\<forall>ev \<in> set evs. eventRouted c ev"
    by (rule eventRouted_norecord) (use accumulateLocked_events [OF assms(2)] in blast)
  moreover have sh: "se_shard se = se_shard (en_heap e ! a)" using accumulateLocked_frame [OF assms(2)] by simp
  moreover have "encOk c (setShardEncoder a se e)"
    by (rule encOk_set [OF assms(1) sh accumulateLocked_routed [OF assms(2) encOk_nth [OF assms(1,3)] assms(4)]])
  ultimately show ?thesis by (simp add: goodStep_def extends_set)
qed

lemma goodStep_worker:
  assumes "worker_step c e w = Some (e', w', evs)" and "encOk c e" and "workerOk c e w"
  shows "goodStep c e e' evs \<and> workerOk c e' w'"
  using assms(1)
proof (cases rule: worker_step_cases)
  case (dequeued spans)
  with assms(2) show ?thesis by (auto simp: dequeueSpans_def intro!: goodStep_same split: option.splits)
next
  case finished
  with assms(2) show ?thesis by (auto simp: wgDone_def intro!: goodStep_same split: if_splits)
next
  case (unrouted span rest)
  with assms(2) show ?thesis by (simp add: goodStep_same)
next
  case (routed span rest a)
  with assms(2) getShardEncoder_Some [OF routed(2)] show ?thesis
    by (auto simp: encOk_def addrsOk_def intro: goodStep_same)
next
  case (rejected a span rest span1 err)
  have "\<forall>ev \<in> set evs. eventRouted c ev"
    by (rule eventRouted_norecord) (use tryEncodeSpan_events [OF rejected(2)] in blast)
  with assms(2) rejected show ?thesis by (simp add: goodStep_same)
next
  case (measured a span rest span1 sz)
  have "\<forall>ev \<in> set evs. eventRouted c ev"
    by (rule eventRouted_norecord) (use tryEncodeSpan_events [OF measured(2)] in blast)
  with assms(2,3) measured tryEncodeSpan_key [OF measured(2)] show ?thesis by (simp add: goodStep_same)
next
  case (accumulated a span sz rest se needFlush)
  from assms(3) accumulated(1) have a: "a < length (en_heap e)"
    "belongsToShard (se_shard (en_heap e ! a)) (spanPartitionKey c span)" by auto
  from goodStep_accumulate [OF assms(2) accumulated(2) a] a accumulated show ?thesis by simp
next
  case (flushed a rest se)
  with goodStep_flush [OF assms(2) flushed(2)] assms(3) show ?thesis by simp
qed

lemma applyConfig_cases:
  assumes "applyConfig req e = (e', turn, evs)"
  obtains (rejected) err where "newShardingInMemConfig req = Inl err" "e' = e"
      "turn = ConfigRejected err" "evs = []"
  | (applied) cfg e1 where "newShardingInMemConfig req = Inr cfg"
      "startShardEncoders cfg e = (e1, evs)" "e' = e1\<lparr>en_workersStarted := True\<rparr>"
      "turn = ConfigApplied (\<not> en_workersStarted e)"
  using assms by (auto simp: applyConfig_def split: sum.splits prod.splits)

lemma startEvents_routed: "\<forall>ev \<in> set (startEvents se). eventRouted c ev"
  by (auto simp: startEvents_def split: sum.split)

lemma takeConfigRequest_Some:
  "takeConfigRequest e = Some (req, e') \<Longrightarrow>
     en_configChangeRequest e = Some req \<and> e' = e\<lparr>en_configChangeRequest := None\<rparr>"
  by (auto simp: takeConfigRequest_def split: if_splits option.splits)

text \<open>The ways the goroutine of configuration changes can move.\<close>

lemma config_step_cases:
  assumes "config_step e g = Some (e', g', fs, ws, evs)"
  obtains (exited) "g = ConfigWaiting" "e' = e" "g' = ConfigExited" "fs = 0" "ws = 0" "evs = []"
  | (taken) req where "g = ConfigWaiting" "en_configChangeRequest e = Some req"
      "e' = e\<lparr>en_configChangeRequest := None\<rparr>" "g' = ConfigStopping req (en_shardEncoders e)"
      "fs = 0" "ws = 0" "evs = []"
  | (stopped) req a as where "g = ConfigStopping req (a # as)"
      "e' = setShardEncoder a (shardEncoder_Stop (en_heap e ! a)) e" "g' = ConfigStopping req as"
      "fs = 0" "ws = 0" "evs = []"
  | (rejected) req err where "g = ConfigStopping req []" "newShardingInMemConfig req = Inl err"
      "e' = e" "g' = ConfigWaiting" "fs = 0" "ws = 0" "evs = []"
  | (accepted) req cfg where "g = ConfigStopping req []" "newShardingInMemConfig req = Inr cfg"
      "e' = e" "g' = ConfigStarting (shards cfg) []" "fs = 0" "ws = 0" "evs = []"
  | (started) sh shs started where "g = ConfigStarting (sh # shs) started"
      "e' = e\<lparr>en_heap := en_heap e @ [shardEncoderFor (en_options e) sh]\<rparr>"
      "g' = ConfigStarting shs (started @ [length (en_heap e)])" "fs = 1" "ws = 0"
      "evs = startEvents (shardEncoderFor (en_options e) sh)"
  | (stored) started where "g = ConfigStarting [] started" "e' = e\<lparr>en_shardEncoders := started\<rparr>"
      "g' = ConfigStored" "fs = 0" "ws = 0" "evs = []"
  | (workers) "g = ConfigStored" "e' = e\<lparr>en_workersStarted := True\<rparr>" "g' = ConfigWaiting" "fs = 0"
      "ws = (if en_workersStarted e then 0 else startWorkers e)" "evs = []"
proof (cases "(e, g)" rule: config_step.cases)
  case (1 e'')
  show thesis
  proof (cases "en_configChangeStopped e")
    case True
    with 1 assms show thesis by (intro exited) auto
  next
    case False
    with 1 assms obtain req e1 where "takeConfigRequest e = Some (req, e1)" by (auto split: option.splits)
    from this takeConfigRequest_Some [OF this] False 1 assms show thesis by (intro taken [of req]) auto
  qed
next
  case (2 e'' req a "as")
  with assms show thesis by (intro stopped [of req a "as"]) auto
next
  case (3 e'' req)
  with assms show thesis
    by (cases "newShardingInMemConfig req") (auto intro: rejected accepted)
next
  case (4 e'' sh shs began)
  with assms show thesis by (intro started [of sh shs began]) (auto simp: Let_def)
next
  case (5 e'' began)
  with assms show thesis by (intro stored [of began]) auto
next
  case (6 e'')
  with assms show thesis by (intro workers) auto
qed (use assms in simp)

lemma goodStep_start:
  assumes "encOk c e" and "toInMem (origin sh) = sh"
  shows "goodStep c e (e\<lparr>en_heap := en_heap e @ [shardEncoderFor (en_options e) sh]\<rparr>)
    (startEvents (shardEncoderFor (en_options e) sh))"
proof -
  let ?e = "e\<lparr>en_heap := en_heap e @ [shardEncoderFor (en_options e) sh]\<rparr>"
  have "addrsOk ?e" using assms(1) by (auto simp: encOk_def addrsOk_def)
  moreover have "currentShards ?e = currentShards e"
    using assms(1) by (auto simp: currentShards_def encOk_def addrsOk_def nth_append)
  moreover have "\<forall>se \<in> set (en_heap ?e). wellRouted c se"
    using assms by (auto simp: encOk_def wellRouted_def)
  ultimately have "encOk c ?e" using assms(1) by (simp add: encOk_def)
  moreover have "extends e ?e" by (simp add: extends_def nth_append)
  ultimately show ?thesis using startEvents_routed by (simp add: goodStep_def)
qed

lemma goodStep_store:
  assumes "encOk c e" and "configOk e (ConfigStarting [] started)"
  shows "goodStep c e (e\<lparr>en_shardEncoders := started\<rparr>) []"
  using assms by (simp add: goodStep_def encOk_def addrsOk_def currentShards_def extends_def)

lemma configOk_accepted:
  "newShardingInMemConfig req = Inr cfg \<Longrightarrow> configOk e (ConfigStarting (shards cfg) [])"
  using library_sort.with_accepts(1) by (auto simp: newShardingInMemConfig_def intro: toInMem_origin)

lemma goodStep_config:
  assumes "config_step e g = Some (e', g', fs, ws, evs)" and "encOk c e" and "configOk e g"
  shows "goodStep c e e' evs \<and> configOk e' g'"
  using assms(1)
proof (cases rule: config_step_cases)
  case (stopped req a "as")
  with goodStep_stop [OF assms(2), of a] assms(3) show ?thesis by auto
next
  case (accepted req cfg)
  with configOk_accepted [OF accepted(2), of e] assms(2) show ?thesis by (simp add: goodStep_same)
next
  case (started sh shs began)
  have "map (\<lambda>a. se_shard ((en_heap e @ [shardEncoderFor (en_options e) sh]) ! a)) (began @ [length (en_heap e)]) @ shs =
      map (\<lambda>a. se_shard (en_heap e ! a)) began @ sh # shs"
    using assms(3) by (auto simp: started(1) nth_append)
  with assms(3) have "validShards (map (\<lambda>a. se_shard ((en_heap e @ [shardEncoderFor (en_options e) sh]) ! a))
      (began @ [length (en_heap e)]) @ shs)"
    by (simp only: started(1) configOk.simps)
  with assms(3) have "configOk e' g'" by (auto simp: started)
  with goodStep_start [OF assms(2), of sh] assms(3) show ?thesis by (simp add: started)
next
  case (stored began)
  with goodStep_store [OF assms(2), of began] assms(3) show ?thesis by simp
qed (use assms(2) in \<open>auto intro: goodStep_same\<close>)

lemma goodStep_stop_flush:
  assumes "stop_flush c a e st = Some (e', st', evs)" and "encOk c e" and "stopperOk e st"
  shows "goodStep c e e' evs \<and> stopperOk e' st'"
proof -
  from assms(1) obtain "as" where st: "st = FlushingShards as" "a \<in> set as"
    by (cases st) (auto split: if_splits)
  obtain se evs1 where 1: "Flush c (en_heap e ! a) = (se, evs1)" by fastforce
  from st 1 assms(1) have eqs: "e' = setShardEncoder a se e" "evs = evs1" "st' = FlushingShards (remove1 a as)"
    by auto
  from goodStep_flush [OF assms(2) 1] assms(3) st set_remove1_subset [of a "as"]
  show ?thesis by (auto simp: eqs)
qed

lemma goodStep_stop_step:
  assumes "stop_step e st = Some (e', st', evs)" and "encOk c e" and "stopperOk e st"
  shows "goodStep c e e' evs \<and> stopperOk e' st'"
proof (cases "(e, st)" rule: stop_step.cases)
  case (4 e'' a "as")
  with assms goodStep_stop [OF assms(2), of a] show ?thesis by auto
qed (use assms in \<open>auto simp: beginStop_def stopConfigChanges_def closeHardStop_def encOk_def addrsOk_def
      close_signal_def intro!: goodStep_same split: if_splits sum.splits\<close>)

section \<open>What a step leaves alone\<close>

lemma worker_step_frame:
  assumes "worker_step c e w = Some (e', w', evs)"
  shows "en_shardEncoders e' = en_shardEncoders e \<and> length (en_heap e') = length (en_heap e) \<and>
    en_workerHardStop e' = en_workerHardStop e"
  using assms
  by (cases "(c, e, w)" rule: worker_step.cases)
    (auto simp: dequeueSpans_def wgDone_def split: option.splits prod.splits sum.splits if_splits)

lemma config_step_frame:
  assumes "config_step e g = Some (e', g', fs, ws, evs)"
  shows "length (en_heap e') = length (en_heap e) + fs \<and> en_workerHardStop e' = en_workerHardStop e \<and>
    en_spanBatchesToProcess e' = en_spanBatchesToProcess e \<and>
    en_spansToProcessWg e' = en_spansToProcessWg e \<and> en_hooks e' = en_hooks e"
  using assms
  by (cases rule: config_step_cases) (auto simp: setShardEncoder_def)

lemma stop_flush_frame:
  "stop_flush c a e st = Some (e', st', evs) \<Longrightarrow>
     en_shardEncoders e' = en_shardEncoders e \<and> length (en_heap e') = length (en_heap e) \<and>
     en_workerHardStop e' = en_workerHardStop e \<and>
     en_spanBatchesToProcess e' = en_spanBatchesToProcess e \<and>
     en_spansToProcessWg e' = en_spansToProcessWg e"
  by (cases "(c, a, e, st)" rule: stop_flush.cases) (auto split: if_splits prod.splits)

lemma stop_step_frame:
  "stop_step e st = Some (e', st', evs) \<Longrightarrow>
     en_shardEncoders e' = en_shardEncoders e \<and> length (en_heap e') = length (en_heap e) \<and>
     en_spanBatchesToProcess e' = en_spanBatchesToProcess e \<and>
     en_spansToProcessWg e' = en_spansToProcessWg e"
  by (cases "(e, st)" rule: stop_step.cases)
    (auto simp: beginStop_def stopConfigChanges_def closeHardStop_def split: if_splits sum.splits)

lemma enqueueSpans_frame:
  "enqueueSpans spans e = Some (e', evs) \<Longrightarrow>
     en_shardEncoders e' = en_shardEncoders e \<and> en_heap e' = en_heap e \<and>
     en_workerHardStop e' = en_workerHardStop e \<and> en_spansToProcessWg e' = en_spansToProcessWg e \<and>
     chan_items (en_spanBatchesToProcess e') = chan_items (en_spanBatchesToProcess e) @ [spans] \<and>
     eventKeys evs = {#} \<and> (\<forall>ev \<in> set evs. eventRouted c ev \<and> (\<forall>p. ev \<noteq> Crashed p))"
  by (auto simp: enqueueSpans_def dest: gochan.send_Some split: option.splits)

section \<open>Sound addresses, sound shards\<close>

definition inv_shape :: "codec \<Rightarrow> enc_sys \<Rightarrow> bool" where
  "inv_shape c s \<longleftrightarrow>
     encOk c (es_enc s) \<and> length (es_flushers s) = length (en_heap (es_enc s)) \<and>
     (\<forall>w \<in> set (es_workers s). workerOk c (es_enc s) w) \<and>
     configOk (es_enc s) (es_config s) \<and> stopperOk (es_enc s) (es_stop s) \<and>
     (\<forall>ev \<in> set (es_events s). eventRouted c ev)"

lemma inv_shapeI:
  assumes "inv_shape c s" and "goodStep c (es_enc s) (es_enc t) evs"
    and "es_events t = es_events s @ evs"
    and "length (es_flushers t) = length (en_heap (es_enc t))"
    and "\<And>w. w \<in> set (es_workers t) \<Longrightarrow> w \<in> set (es_workers s) \<or> workerOk c (es_enc t) w"
    and "configOk (es_enc t) (es_config t)"
    and "es_stop t = es_stop s \<or> stopperOk (es_enc t) (es_stop t)"
  shows "inv_shape c t"
proof -
  have "\<forall>w \<in> set (es_workers t). workerOk c (es_enc t) w"
    using assms(1,2,5) unfolding inv_shape_def goodStep_def by (blast intro: workerOk_mono)
  moreover have "stopperOk (es_enc t) (es_stop t)"
    using assms(1,2,7) unfolding inv_shape_def goodStep_def by (metis stopperOk_mono)
  ultimately show ?thesis
    using assms(1-4,6) by (auto simp: inv_shape_def goodStep_def)
qed

lemma configOk_mono:
  assumes "configOk e g" and "extends e e'" and "en_shardEncoders e' = en_shardEncoders e"
  shows "configOk e' g"
proof (cases g)
  case (ConfigStarting shs began)
  with assms(1,2) have "map (\<lambda>a. se_shard (en_heap e' ! a)) began = map (\<lambda>a. se_shard (en_heap e ! a)) began"
    by (auto simp: extends_def)
  with assms(1,2) show ?thesis by (auto simp: ConfigStarting extends_def simp del: map_eq_conv)
qed (use assms in auto)

lemma emit_simps [simp]:
  "es_enc (emit evs s) = es_enc s" "es_flushers (emit evs s) = es_flushers s"
  "es_checked (emit evs s) = es_checked s" "es_sending (emit evs s) = es_sending s"
  "es_workers (emit evs s) = es_workers s" "es_config (emit evs s) = es_config s"
  "es_stop (emit evs s) = es_stop s" "es_accepted (emit evs s) = es_accepted s"
  "es_events (emit evs s) = es_events s @ evs"
  by (simp_all add: emit_def)

lemma wgAdd_simps [simp]:
  "en_heap (wgAdd e) = en_heap e" "en_shardEncoders (wgAdd e) = en_shardEncoders e"
  "en_spanBatchesToProcess (wgAdd e) = en_spanBatchesToProcess e"
  "en_spansToProcessWg (wgAdd e) = Suc (en_spansToProcessWg e)"
  "en_workerHardStop (wgAdd e) = en_workerHardStop e"
  by (simp_all add: wgAdd_def)

lemma SetConfig_simps [simp]:
  "en_heap (SetConfig cfg e) = en_heap e" "en_shardEncoders (SetConfig cfg e) = en_shardEncoders e"
  "en_spanBatchesToProcess (SetConfig cfg e) = en_spanBatchesToProcess e"
  "en_spansToProcessWg (SetConfig cfg e) = en_spansToProcessWg e"
  "en_workerHardStop (SetConfig cfg e) = en_workerHardStop e"
  by (simp_all add: SetConfig_def)

text \<open>The ways an action can succeed.\<close>

lemma enc_exec_cases:
  assumes "enc_exec c act s = Some t"
  obtains (check) spans where "act = CallerCheck spans" "\<not> isStopping (es_enc s)"
      "t = s\<lparr>es_checked := spans # es_checked s, es_accepted := spans @ es_accepted s\<rparr>"
  | (add) i where "act = CallerAdd i" "i < length (es_checked s)"
      "t = s\<lparr>es_enc := wgAdd (es_enc s), es_checked := removeNth i (es_checked s),
             es_sending := (es_checked s ! i) # es_sending s\<rparr>"
  | (send) i e evs where "act = CallerSend i" "i < length (es_sending s)"
      "enqueueSpans (es_sending s ! i) (es_enc s) = Some (e, evs)"
      "t = emit evs (s\<lparr>es_enc := e, es_sending := removeNth i (es_sending s)\<rparr>)"
  | (set_config) cfg where "act = CallSetConfig cfg" "t = s\<lparr>es_enc := SetConfig cfg (es_enc s)\<rparr>"
  | (work) i e w evs where "act = WorkerStep i" "i < length (es_workers s)"
      "worker_step c (es_enc s) (es_workers s ! i) = Some (e, w, evs)"
      "t = emit evs (s\<lparr>es_enc := e, es_workers := (es_workers s)[i := w]\<rparr>)"
  | (quit) i where "act = WorkerQuit i" "i < length (es_workers s)" "es_workers s ! i = Idle"
      "en_workerHardStop (es_enc s)" "t = s\<lparr>es_workers := (es_workers s)[i := WorkerExited]\<rparr>"
  | (tick) a se evs where "act = FlusherTick a" "a < length (es_flushers s)"
      "es_flushers s ! a = Ticking" "Flush c (en_heap (es_enc s) ! a) = (se, evs)"
      "t = emit evs (s\<lparr>es_enc := setShardEncoder a se (es_enc s)\<rparr>)"
  | (signal) a where "act = FlusherStep a" "a < length (es_flushers s)" "es_flushers s ! a = Ticking"
      "se_done (en_heap (es_enc s) ! a)"
      "t = emit [] (s\<lparr>es_enc := setShardEncoder a (en_heap (es_enc s) ! a) (es_enc s),
                     es_flushers := (es_flushers s)[a := FinalFlush]\<rparr>)"
  | (final) a se evs where "act = FlusherStep a" "a < length (es_flushers s)"
      "es_flushers s ! a = FinalFlush" "Flush c (en_heap (es_enc s) ! a) = (se, evs)"
      "t = emit evs (s\<lparr>es_enc := setShardEncoder a se (es_enc s),
                      es_flushers := (es_flushers s)[a := Exited]\<rparr>)"
  | (config) e g fs ws evs where "act = ConfigStep"
      "config_step (es_enc s) (es_config s) = Some (e, g, fs, ws, evs)"
      "t = emit evs (s\<lparr>es_enc := e, es_config := g, es_flushers := es_flushers s @ replicate fs Ticking,
                      es_workers := es_workers s @ replicate ws Idle\<rparr>)"
  | (stop_flush) a e st evs where "act = StopFlush a"
      "stop_flush c a (es_enc s) (es_stop s) = Some (e, st, evs)"
      "t = emit evs (s\<lparr>es_enc := e, es_stop := st\<rparr>)"
  | (stop) e st evs where "act = StopStep" "stop_step (es_enc s) (es_stop s) = Some (e, st, evs)"
      "t = emit evs (s\<lparr>es_enc := e, es_stop := st\<rparr>)"
proof (cases act)
  case (CallerCheck spans)
  with assms check show thesis by (simp split: if_splits)
next
  case (CallerAdd i)
  with assms add show thesis by (simp split: if_splits)
next
  case (CallerSend i)
  with assms send show thesis by (auto split: if_splits option.splits)
next
  case (CallSetConfig cfg)
  with assms set_config show thesis by simp
next
  case (WorkerStep i)
  with assms work show thesis by (auto split: if_splits option.splits)
next
  case (WorkerQuit i)
  with assms quit show thesis by (auto simp: worker_quit_def split: if_splits option.splits)
next
  case (FlusherTick a)
  with assms tick [of a] show thesis
    by (auto simp: flusher_tick_def split: if_splits option.splits prod.splits)
next
  case (FlusherStep a)
  show thesis
  proof (cases "es_flushers s ! a")
    case Ticking
    with FlusherStep assms show thesis
      by (intro signal [of a]) (auto simp: flusher_step_def split: if_splits)
  next
    case FinalFlush
    with FlusherStep assms final [of a] show thesis
      by (auto simp: flusher_step_def split: if_splits prod.splits)
  qed (use FlusherStep assms in \<open>auto simp: flusher_step_def split: if_splits\<close>)
next
  case ConfigStep
  with assms config show thesis by (auto split: option.splits)
next
  case (StopFlush a)
  with assms stop_flush show thesis by (auto split: option.splits)
next
  case StopStep
  with assms stop show thesis by (auto split: option.splits)
qed

text \<open>Only a configuration change alters the list in use and the number of shard encoders.\<close>

lemma inv_shape_keep:
  assumes "inv_shape c s" and "goodStep c (es_enc s) (es_enc t) evs" and "es_events t = es_events s @ evs"
    and "en_shardEncoders (es_enc t) = en_shardEncoders (es_enc s)"
    and "length (en_heap (es_enc t)) = length (en_heap (es_enc s))"
    and "length (es_flushers t) = length (es_flushers s)" and "es_config t = es_config s"
    and "\<And>w. w \<in> set (es_workers t) \<Longrightarrow> w \<in> set (es_workers s) \<or> workerOk c (es_enc t) w"
    and "es_stop t = es_stop s \<or> stopperOk (es_enc t) (es_stop t)"
  shows "inv_shape c t"
  using assms(1,2,4-7)
  by (intro inv_shapeI [OF assms(1-3) _ assms(8) _ assms(9)])
    (auto simp: inv_shape_def goodStep_def intro: configOk_mono)

lemma inv_shape_flush:
  assumes "inv_shape c s" and "a < length (es_flushers s)" and "Flush c (en_heap (es_enc s) ! a) = (se, evs)"
    and "length fls = length (es_flushers s)"
  shows "inv_shape c (emit evs (s\<lparr>es_enc := setShardEncoder a se (es_enc s), es_flushers := fls\<rparr>))"
proof (rule inv_shape_keep [OF assms(1), of _ evs])
  have "encOk c (es_enc s)" "a < length (en_heap (es_enc s))" using assms(1,2) by (simp_all add: inv_shape_def)
  with goodStep_flush [OF _ assms(3)]
  show "goodStep c (es_enc s)
      (es_enc (emit evs (s\<lparr>es_enc := setShardEncoder a se (es_enc s), es_flushers := fls\<rparr>))) evs" by simp
qed (simp_all add: assms(4))

lemma inv_shape_exec [preserves]:
  assumes "enc_exec c act s = Some t" and inv: "inv_shape c s"
  shows "inv_shape c t"
proof -
  have ok: "encOk c (es_enc s)" "configOk (es_enc s) (es_config s)" "stopperOk (es_enc s) (es_stop s)"
    "length (es_flushers s) = length (en_heap (es_enc s))"
    "\<forall>w \<in> set (es_workers s). workerOk c (es_enc s) w"
    using inv by (simp_all add: inv_shape_def)
  note keep = inv_shape_keep [OF inv]
  from assms(1) show ?thesis
  proof (cases rule: enc_exec_cases)
    case (work i e w evs)
    with ok(5) have "workerOk c (es_enc s) (es_workers s ! i)" by simp
    note good = goodStep_worker [OF work(3) ok(1) this]
    then have "x \<in> set (es_workers s) \<or> workerOk c e x" if "x \<in> set ((es_workers s)[i := w])" for x
      using that set_update_subset_insert by fastforce
    then show ?thesis
      using worker_step_frame [OF work(3)] good by (intro keep [of _ evs]) (simp_all add: work(4))
  next
    case (config e g fs ws evs)
    with config_step_frame [OF config(2)] goodStep_config [OF config(2) ok(1,2)] ok(4)
    show ?thesis by (intro inv_shapeI [OF inv, of _ evs]) auto
  next
    case (stop_flush a e st evs)
    with stop_flush_frame [OF stop_flush(2)] goodStep_stop_flush [OF stop_flush(2) ok(1,3)]
    show ?thesis by (intro keep [of _ evs]) simp_all
  next
    case (stop e st evs)
    with stop_step_frame [OF stop(2)] goodStep_stop_step [OF stop(2) ok(1,3)]
    show ?thesis by (intro keep [of _ evs]) simp_all
  next
    case (tick a se evs)
    with inv_shape_flush [OF inv tick(2,4) refl] show ?thesis by simp
  next
    case (final a se evs)
    with inv_shape_flush [OF inv final(2,4), of "(es_flushers s)[a := Exited]"] show ?thesis by simp
  next
    case (send i e evs)
    with enqueueSpans_frame [OF send(3), of c] ok(1)
    show ?thesis by (intro keep [of _ evs]) (simp_all add: goodStep_same)
  next
    case (quit i)
    have "\<forall>w \<in> set ((es_workers s)[i := WorkerExited]). workerOk c (es_enc s) w"
      by (rule all_set_update) (use ok(5) in simp_all)
    with inv show ?thesis by (simp add: quit(5) inv_shape_def)
  qed (use ok(1) in \<open>auto intro!: keep [of _ "[]"] goodStep_same\<close>)
qed

section \<open>Conservation of spans\<close>

fun workerKeys :: "worker \<Rightarrow> Span multiset" where
  "workerKeys (Processing rest) = spanKeys rest"
| "workerKeys (Loaded a span rest) = add_mset (spanKey span) (spanKeys rest)"
| "workerKeys (Measured a span sz rest) = add_mset (spanKey span) (spanKeys rest)"
| "workerKeys (FlushDue a rest) = spanKeys rest"
| "workerKeys _ = {#}"

definition queueKeys :: "encoder \<Rightarrow> Span multiset" where
  "queueKeys e = spanKeys (concat (chan_items (en_spanBatchesToProcess e)))"

definition encKeys :: "encoder \<Rightarrow> Span multiset" where
  "encKeys e = queueKeys e + heapKeys (en_heap e)"

definition sysKeys :: "enc_sys \<Rightarrow> Span multiset" where
  "sysKeys s =
     spanKeys (concat (es_checked s)) + spanKeys (concat (es_sending s)) + encKeys (es_enc s) +
     (\<Sum>w\<leftarrow>es_workers s. workerKeys w)"

definition inv_keys :: "enc_sys \<Rightarrow> bool" where
  "inv_keys s \<longleftrightarrow> spanKeys (es_accepted s) = sysKeys s + eventKeys (es_events s)"

lemma removeNth_keys:
  "i < length xs \<Longrightarrow> spanKeys (concat (removeNth i xs)) + spanKeys (xs ! i) = spanKeys (concat xs)"
  by (subst (3) id_take_nth_drop [of i xs]) (simp_all add: removeNth_def ac_simps)

lemma removeNth_length: "i < length xs \<Longrightarrow> Suc (length (removeNth i xs)) = length xs"
  by (simp add: removeNth_def)

lemma queueKeys_cong:
  "en_spanBatchesToProcess e' = en_spanBatchesToProcess e \<Longrightarrow> queueKeys e' = queueKeys e"
  by (simp add: queueKeys_def)

lemma encKeys_set:
  assumes "a < length (en_heap e)"
    and "spanKeys (se_spans se) + d = spanKeys (se_spans (en_heap e ! a)) + k"
  shows "encKeys (setShardEncoder a se e) + d = encKeys e + k"
  using heapKeys_update [OF assms] by (simp add: encKeys_def queueKeys_def ac_simps)

lemma encKeys_set_same:
  "se_spans se = se_spans (en_heap e ! a) \<Longrightarrow> encKeys (setShardEncoder a se e) = encKeys e"
  by (simp add: encKeys_def queueKeys_def heapKeys_same)

lemma encKeys_Flush:
  assumes "Flush c (en_heap e ! a) = (se, evs)" and "a < length (en_heap e)"
  shows "encKeys (setShardEncoder a se e) + eventKeys evs = encKeys e"
  using encKeys_set [OF assms(2), of se "eventKeys evs" "{#}"] Flush_conserves [OF assms(1)] by simp

lemma dequeueSpans_Some:
  assumes "dequeueSpans e = Some (spans, e', evs)"
  shows "en_heap e' = en_heap e \<and> en_spansToProcessWg e' = en_spansToProcessWg e \<and>
    chan_items (en_spanBatchesToProcess e) = spans # chan_items (en_spanBatchesToProcess e') \<and>
    chan_cap (en_spanBatchesToProcess e') = chan_cap (en_spanBatchesToProcess e) \<and>
    eventKeys evs = {#} \<and> (\<forall>p. Crashed p \<notin> set evs)"
  using assms gochan.recv_Some [of "en_spanBatchesToProcess e"]
  by (auto simp: dequeueSpans_def split: option.splits)

lemma worker_step_keys:
  assumes "worker_step c e w = Some (e', w', evs)" and "workerOk c e w"
  shows "encKeys e' + workerKeys w' + eventKeys evs = encKeys e + workerKeys w"
  using assms(1)
proof (cases rule: worker_step_cases)
  case (dequeued spans)
  with dequeueSpans_Some [OF dequeued(2)] show ?thesis by (simp add: encKeys_def queueKeys_def)
next
  case finished
  then show ?thesis by (auto simp: wgDone_def encKeys_def queueKeys_def split: if_splits)
next
  case (rejected a span rest span1 err)
  with tryEncodeSpan_Inl [OF rejected(2)] show ?thesis by auto
next
  case (measured a span rest span1 sz)
  with tryEncodeSpan_Inr [OF measured(2)] show ?thesis by auto
next
  case (accumulated a span sz rest se needFlush)
  with assms(2) have "a < length (en_heap e)" by simp
  from encKeys_set [OF this, of se "eventKeys evs" "{#spanKey span#}"] accumulateLocked_conserves [OF accumulated(2)]
  show ?thesis by (simp add: accumulated(1,3,4) ac_simps)
next
  case (flushed a rest se)
  with assms(2) have "a < length (en_heap e)" by simp
  from encKeys_Flush [OF flushed(2) this] show ?thesis by (simp add: flushed(1,3,4) ac_simps)
qed (simp_all add: spanKeys_def)

lemma encKeys_stop: "encKeys (setShardEncoder a (shardEncoder_Stop (en_heap e ! a)) e) = encKeys e"
  by (rule encKeys_set_same) simp

lemma startEvents_keys [simp]: "eventKeys (concat (map startEvents ses)) = {#}"
  by (induction ses) (simp_all add: startEvents_def split: sum.split)

lemma config_step_keys:
  assumes "config_step e g = Some (e', g', fs, ws, evs)"
  shows "encKeys e' = encKeys e \<and> eventKeys evs = {#}"
  using assms
proof (cases rule: config_step_cases)
  case (started sh shs began)
  then show ?thesis
    using startEvents_keys [of "[shardEncoderFor (en_options e) sh]"] heapKeys_fresh [of "en_options e" "[sh]"]
    by (simp add: encKeys_def queueKeys_def)
qed (simp_all add: encKeys_def queueKeys_def heapKeys_same)

lemma stop_flush_keys:
  assumes "stop_flush c a e st = Some (e', st', evs)" and "stopperOk e st"
  shows "encKeys e' + eventKeys evs = encKeys e"
proof -
  obtain se evs1 where 1: "Flush c (en_heap e ! a) = (se, evs1)" by fastforce
  from assms 1 have "a < length (en_heap e)" "e' = setShardEncoder a se e" "evs = evs1"
    by (auto elim!: stop_flush.elims split: if_splits)
  with encKeys_Flush [OF 1] show ?thesis by simp
qed

lemma stop_step_keys:
  assumes "stop_step e st = Some (e', st', evs)"
  shows "encKeys e' = encKeys e \<and> eventKeys evs = {#}"
proof (cases "(e, st)" rule: stop_step.cases)
  case (4 e'' a "as")
  with assms encKeys_stop [of a e] show ?thesis by auto
qed (use assms in \<open>auto simp: beginStop_def stopConfigChanges_def closeHardStop_def encKeys_def
      queueKeys_def split: if_splits sum.splits\<close>)

text \<open>A worker is busy while it has a batch.\<close>

fun busy :: "worker \<Rightarrow> nat" where
  "busy Idle = 0"
| "busy WorkerExited = 0"
| "busy _ = 1"

lemma worker_sum_keys:
  assumes "worker_step c e (ws ! i) = Some (e', w, evs)" and "i < length ws" and "workerOk c e (ws ! i)"
  shows "encKeys e' + (\<Sum>x\<leftarrow>ws[i := w]. workerKeys x) + eventKeys evs = encKeys e + (\<Sum>x\<leftarrow>ws. workerKeys x)"
proof (rule exchange_sum [OF worker_step_keys [OF assms(1,3)]])
  show "(\<Sum>x\<leftarrow>ws[i := w]. workerKeys x) + workerKeys (ws ! i) = (\<Sum>x\<leftarrow>ws. workerKeys x) + workerKeys w"
    by (rule sum_list_update_mset [OF assms(2)]) simp
qed

lemma sum_list_replicate_empty [simp]: "(\<Sum>x\<leftarrow>replicate n w. {#}) = {#}" "sum_list (replicate n {#}) = {#}"
  by (induction n) simp_all

lemma quit_worker_sum:
  assumes "ws ! i = Idle"
  shows "(\<Sum>x\<leftarrow>ws[i := WorkerExited]. workerKeys x) = (\<Sum>x\<leftarrow>ws. workerKeys x)"
    and "(\<Sum>x\<leftarrow>ws[i := WorkerExited]. busy x) = (\<Sum>x\<leftarrow>ws. busy x)"
proof -
  have "map workerKeys (ws[i := WorkerExited]) = map workerKeys ws"
    "map busy (ws[i := WorkerExited]) = map busy ws"
    by (cases "i < length ws"; simp add: map_update list_update_same_conv list_update_beyond assms)+
  then show "(\<Sum>x\<leftarrow>ws[i := WorkerExited]. workerKeys x) = (\<Sum>x\<leftarrow>ws. workerKeys x)"
    "(\<Sum>x\<leftarrow>ws[i := WorkerExited]. busy x) = (\<Sum>x\<leftarrow>ws. busy x)" by simp_all
qed

text \<open>A step moves spans between the places and the events; only a new caller adds any.\<close>

lemma sysKeys_exec:
  assumes "enc_exec c act s = Some t" and "inv_shape c s"
  shows "sysKeys t + eventKeys (es_events t) + spanKeys (es_accepted s) =
      sysKeys s + eventKeys (es_events s) + spanKeys (es_accepted t)"
proof -
  have shape: "length (es_flushers s) = length (en_heap (es_enc s))" "stopperOk (es_enc s) (es_stop s)"
    "\<forall>w \<in> set (es_workers s). workerOk c (es_enc s) w"
    using assms(2) by (simp_all add: inv_shape_def)
  from assms(1) show ?thesis
  proof (cases rule: enc_exec_cases)
    case (add i)
    from removeNth_keys [OF add(2)]
    show ?thesis by (simp add: add(3) sysKeys_def encKeys_def queueKeys_def ac_simps)
  next
    case (send i e evs)
    note fr = enqueueSpans_frame [OF send(3), of c]
    have "encKeys e = encKeys (es_enc s) + spanKeys (es_sending s ! i)"
      using fr by (simp add: encKeys_def queueKeys_def ac_simps)
    with removeNth_keys [OF send(2)] fr show ?thesis
      by (simp add: send(4) sysKeys_def ac_simps)
  next
    case (work i e w evs)
    with worker_sum_keys [OF work(3,2)] shape(3) show ?thesis by (simp add: sysKeys_def ac_simps)
  next
    case (tick a se evs)
    with encKeys_Flush [OF tick(4)] shape(1) show ?thesis by (simp add: sysKeys_def ac_simps)
  next
    case (final a se evs)
    with encKeys_Flush [OF final(4)] shape(1) show ?thesis by (simp add: sysKeys_def ac_simps)
  next
    case (config e g fs ws evs)
    with config_step_keys [OF config(2)] show ?thesis by (simp add: sysKeys_def)
  next
    case (stop_flush a e st evs)
    from stop_flush_keys [OF stop_flush(2) shape(2)] show ?thesis
      by (simp add: stop_flush(3) sysKeys_def ac_simps)
  next
    case (stop e st evs)
    with stop_step_keys [OF stop(2)] show ?thesis by (simp add: sysKeys_def)
  qed (simp_all add: sysKeys_def quit_worker_sum encKeys_set_same encKeys_def queueKeys_def ac_simps)
qed

lemma inv_keys_exec [preserves]:
  assumes "enc_exec c act s = Some t" and "inv_shape c s" and "inv_keys s"
  shows "inv_keys t"
  using sysKeys_exec [OF assms(1,2)] assms(3) by (simp add: inv_keys_def ac_simps)

lemma enc_exec_events: "enc_exec c act s = Some t \<Longrightarrow> \<exists>evs. es_events t = es_events s @ evs"
  by (erule enc_exec_cases) auto


lemma enc_run_events: "enc_run c as s = Some t \<Longrightarrow> \<exists>evs. es_events t = es_events s @ evs"
proof (induction "as" arbitrary: s)
  case (Cons a "as")
  then obtain s1 where s1: "enc_exec c a s = Some s1" "enc_run c as s1 = Some t" by (auto split: option.splits)
  from enc_exec_events [OF s1(1)] Cons.IH [OF s1(2)] show ?case by fastforce
qed simp

lemma enc_exec_accepted:
  "enc_exec c act s = Some t \<Longrightarrow> (\<forall>spans. act \<noteq> CallerCheck spans) \<Longrightarrow> es_accepted t = es_accepted s"
  by (erule enc_exec_cases) auto

lemma worker_step_hooks: "worker_step c e w = Some (e', w', evs) \<Longrightarrow> en_hooks e' = en_hooks e"
  by (erule worker_step_cases)
    (auto simp: dequeueSpans_def wgDone_def setShardEncoder_def split: option.splits if_splits)

lemma stop_flush_hooks: "stop_flush c a e st = Some (e', st', evs) \<Longrightarrow> en_hooks e' = en_hooks e"
  by (auto elim!: stop_flush.elims simp: setShardEncoder_def split: if_splits prod.splits)

lemma stop_step_hooks: "stop_step e st = Some (e', st', evs) \<Longrightarrow> en_hooks e' = en_hooks e"
  by (cases "(e, st)" rule: stop_step.cases)
    (auto simp: beginStop_def stopConfigChanges_def closeHardStop_def setShardEncoder_def
      split: if_splits sum.splits)

lemma enc_exec_hooks: "enc_exec c act s = Some t \<Longrightarrow> en_hooks (es_enc t) = en_hooks (es_enc s)"
  by (erule enc_exec_cases)
    (auto simp: wgAdd_def SetConfig_def enqueueSpans_def setShardEncoder_def
      dest: worker_step_hooks config_step_frame stop_flush_hooks stop_step_hooks split: option.splits)

section \<open>The wait group\<close>

text \<open>\<open>spansToProcessWg\<close> counts the batches that are being sent, are queued or are with a worker.\<close>

definition inv_wg :: "enc_sys \<Rightarrow> bool" where
  "inv_wg s \<longleftrightarrow>
     en_spansToProcessWg (es_enc s) =
       length (es_sending s) + length (chan_items (en_spanBatchesToProcess (es_enc s))) +
       (\<Sum>w\<leftarrow>es_workers s. busy w) \<and>
     Crashed NegativeWaitGroup \<notin> set (es_events s)"

lemma worker_step_wg:
  assumes "worker_step c e w = Some (e', w', evs)" and "busy w \<le> en_spansToProcessWg e"
  shows "en_spansToProcessWg e' + length (chan_items (en_spanBatchesToProcess e)) + busy w =
      en_spansToProcessWg e + length (chan_items (en_spanBatchesToProcess e')) + busy w' \<and>
    Crashed NegativeWaitGroup \<notin> set evs"
  using assms(1)
proof (cases rule: worker_step_cases)
  case (dequeued spans)
  with dequeueSpans_Some [OF dequeued(2)] show ?thesis by auto
next
  case finished
  with assms(2) show ?thesis by (auto simp: wgDone_def split: if_splits)
next
  case (rejected a span rest span1 err)
  with tryEncodeSpan_events [OF rejected(2), of NegativeWaitGroup] show ?thesis by auto
next
  case (measured a span rest span1 sz)
  with tryEncodeSpan_events [OF measured(2), of NegativeWaitGroup] show ?thesis by auto
next
  case (accumulated a span sz rest se needFlush)
  with accumulateLocked_events [OF accumulated(2), of NegativeWaitGroup] show ?thesis by auto
next
  case (flushed a rest se)
  with Flush_no_crash [OF flushed(2), of NegativeWaitGroup] show ?thesis by auto
qed simp_all

lemma startEvents_panic: "Crashed p \<in> set (startEvents se) \<Longrightarrow> p = NonPositiveTicker"
  by (auto simp: startEvents_def shardEncoder_Start_def split: if_splits)

lemma config_step_panic:
  assumes "config_step e g = Some (e', g', fs, ws, evs)" and "Crashed p \<in> set evs"
  shows "p = NonPositiveTicker"
  using assms by (cases rule: config_step_cases) (auto dest: startEvents_panic)

lemma stop_flush_panic: "stop_flush c a e st = Some (e', st', evs) \<Longrightarrow> Crashed p \<notin> set evs"
  by (auto elim!: stop_flush.elims dest: Flush_no_crash split: if_splits prod.splits)

lemma stop_step_panic:
  "stop_step e st = Some (e', st', evs) \<Longrightarrow> Crashed p \<in> set evs \<Longrightarrow> p = CloseOfClosedChannel"
  by (cases "(e, st)" rule: stop_step.cases)
    (auto simp: closeHardStop_def close_signal_def split: if_splits)

lemma worker_sum_busy:
  assumes "worker_step c e (ws ! i) = Some (e', w, evs)" and "i < length ws"
    and "(\<Sum>x\<leftarrow>ws. busy x) \<le> en_spansToProcessWg e"
  shows "en_spansToProcessWg e' + length (chan_items (en_spanBatchesToProcess e)) + (\<Sum>x\<leftarrow>ws. busy x) =
      en_spansToProcessWg e + length (chan_items (en_spanBatchesToProcess e')) + (\<Sum>x\<leftarrow>ws[i := w]. busy x) \<and>
    Crashed NegativeWaitGroup \<notin> set evs"
proof -
  have "busy (ws ! i) \<le> (\<Sum>x\<leftarrow>ws. busy x)"
    using assms(2) by (intro member_le_sum_list) simp_all
  with worker_step_wg [OF assms(1)] sum_list_update_add [OF assms(2), of busy w] assms(3)
  show ?thesis by simp
qed

lemma inv_wg_exec [preserves]:
  assumes "enc_exec c act s = Some t" and inv: "inv_wg s"
  shows "inv_wg t"
  using assms(1)
proof (cases rule: enc_exec_cases)
  case (send i e evs)
  with inv enqueueSpans_frame [OF send(3), of c] removeNth_length [OF send(2)] show ?thesis
    by (auto simp: inv_wg_def)
next
  case (work i e w evs)
  with worker_sum_busy [OF work(3,2)] inv show ?thesis by (simp add: inv_wg_def)
next
  case (tick a se evs)
  with inv Flush_no_crash [OF tick(4)] show ?thesis by (simp add: inv_wg_def)
next
  case (final a se evs)
  with inv Flush_no_crash [OF final(4)] show ?thesis by (simp add: inv_wg_def)
next
  case (config e g fs ws evs)
  with inv config_step_frame [OF config(2)] config_step_panic [OF config(2), of NegativeWaitGroup]
  show ?thesis by (auto simp: inv_wg_def)
next
  case (stop_flush a e st evs)
  with inv stop_flush_frame [OF stop_flush(2)] stop_flush_panic [OF stop_flush(2)] show ?thesis
    by (simp add: inv_wg_def)
next
  case (stop e st evs)
  with inv stop_step_frame [OF stop(2)] stop_step_panic [OF stop(2), of NegativeWaitGroup]
  show ?thesis by (auto simp: inv_wg_def)
qed (use inv in \<open>simp_all add: inv_wg_def quit_worker_sum\<close>)

section \<open>Shard encoders that have been replaced\<close>

text \<open>What any step does to a shard encoder: it stays stopped, and once stopped it only loses spans.\<close>

definition seMoves :: "shardEncoder \<Rightarrow> shardEncoder \<Rightarrow> bool" where
  "seMoves se se' \<longleftrightarrow>
     (se_stopped se \<longrightarrow> se_stopped se') \<and> (se_done se = se_stopped se \<longrightarrow> se_done se' = se_stopped se') \<and>
     (se_stopped se \<and> se_spans se = [] \<longrightarrow> se_spans se' = [])"

lemma seMoves_refl [simp]: "seMoves se se"
  by (simp add: seMoves_def)

lemma seMoves_Flush: "Flush c se = (se', evs) \<Longrightarrow> seMoves se se'"
  using Flush_frame [of c se se' evs] Flush_empties [of c se se' evs] by (auto simp: seMoves_def)

lemma seMoves_accumulate: "accumulateLocked se span sz = (se', b, evs) \<Longrightarrow> seMoves se se'"
  using accumulateLocked_frame [of se span sz se' b evs]
  by (auto simp: seMoves_def accumulateLocked_def isStopped_def)

lemma seMoves_Stop: "seMoves se (shardEncoder_Stop se)"
  by (auto simp: seMoves_def shardEncoder_Stop_def)

definition encMoves :: "encoder \<Rightarrow> encoder \<Rightarrow> bool" where
  "encMoves e e' \<longleftrightarrow> en_shardEncoders e' = en_shardEncoders e \<and>
     length (en_heap e') = length (en_heap e) \<and>
     (\<forall>a < length (en_heap e). seMoves (en_heap e ! a) (en_heap e' ! a))"

lemma encMoves_same:
  "en_heap e' = en_heap e \<Longrightarrow> en_shardEncoders e' = en_shardEncoders e \<Longrightarrow> encMoves e e'"
  by (simp add: encMoves_def)

lemma encMoves_set: "seMoves (en_heap e ! a) se \<Longrightarrow> encMoves e (setShardEncoder a se e)"
  unfolding encMoves_def
proof (intro conjI allI impI)
  fix i assume "seMoves (en_heap e ! a) se" and "i < length (en_heap e)"
  then show "seMoves (en_heap e ! i) (en_heap (setShardEncoder a se e) ! i)"
    by (cases "i = a") simp_all
qed simp_all

lemma encMoves_worker:
  assumes "worker_step c e w = Some (e', w', evs)"
  shows "encMoves e e'"
  using assms
proof (cases rule: worker_step_cases)
  case (dequeued spans)
  then show ?thesis by (auto simp: dequeueSpans_def intro!: encMoves_same split: option.splits)
next
  case finished
  then show ?thesis by (auto simp: wgDone_def intro!: encMoves_same split: if_splits)
next
  case (accumulated a span sz rest se needFlush)
  with encMoves_set [OF seMoves_accumulate [OF accumulated(2)]] show ?thesis by simp
next
  case (flushed a rest se)
  with encMoves_set [OF seMoves_Flush [OF flushed(2)]] show ?thesis by simp
qed (simp_all add: encMoves_same)

lemma encMoves_stop_flush:
  assumes "stop_flush c a e st = Some (e', st', evs)"
  shows "encMoves e e'"
proof -
  obtain se evs1 where 1: "Flush c (en_heap e ! a) = (se, evs1)" by fastforce
  with assms encMoves_set [OF seMoves_Flush [OF 1]] show ?thesis
    by (auto elim!: stop_flush.elims split: if_splits)
qed

lemma encMoves_stop_step:
  assumes "stop_step e st = Some (e', st', evs)"
  shows "encMoves e e'"
proof (cases "(e, st)" rule: stop_step.cases)
  case (4 e'' a "as")
  with assms encMoves_set [OF seMoves_Stop [of "en_heap e ! a"]] show ?thesis by auto
qed (use assms in \<open>auto simp: beginStop_def stopConfigChanges_def closeHardStop_def
      intro!: encMoves_same split: if_splits sum.splits\<close>)

text \<open>
  An encoder outside the list in use has been stopped, and so has each that the
  configuration goroutine has been through; while it starts new ones, every other has been
  stopped. Only a stopped encoder's flushing goroutine ends, and
  it leaves the encoder empty for good.
\<close>

definition flusherOk :: "shardEncoder \<Rightarrow> flusher \<Rightarrow> bool" where
  "flusherOk se fl \<longleftrightarrow> se_done se = se_stopped se \<and> fl \<noteq> NotStarted \<and>
     (fl = FinalFlush \<or> fl = Exited \<longrightarrow> se_stopped se) \<and> (fl = Exited \<longrightarrow> se_spans se = [])"

fun stoppedSoFar :: "encoder \<Rightarrow> configGoroutine \<Rightarrow> nat \<Rightarrow> bool" where
  "stoppedSoFar e (ConfigStopping req as) a \<longleftrightarrow> a \<notin> set as"
| "stoppedSoFar e (ConfigStarting shs started) a \<longleftrightarrow> a \<notin> set started"
| "stoppedSoFar e _ a \<longleftrightarrow> a \<notin> set (en_shardEncoders e)"

definition inv_retired :: "enc_sys \<Rightarrow> bool" where
  "inv_retired s \<longleftrightarrow>
     (\<forall>a < length (en_heap (es_enc s)).
        (stoppedSoFar (es_enc s) (es_config s) a \<longrightarrow> se_stopped (en_heap (es_enc s) ! a)) \<and>
        flusherOk (en_heap (es_enc s) ! a) (es_flushers s ! a))"

lemma flusherOk_moves: "flusherOk se fl \<Longrightarrow> seMoves se se' \<Longrightarrow> flusherOk se' fl"
  by (auto simp: flusherOk_def seMoves_def)

lemma stoppedSoFar_list:
  "en_shardEncoders e' = en_shardEncoders e \<Longrightarrow> stoppedSoFar e' g a = stoppedSoFar e g a"
  by (cases g) auto

lemma inv_retired_moves:
  assumes "inv_retired s" and "encMoves (es_enc s) e" and "es_enc t = e"
    and "es_flushers t = es_flushers s" and "es_config t = es_config s"
  shows "inv_retired t"
  unfolding inv_retired_def
proof (intro allI impI)
  fix a assume "a < length (en_heap (es_enc t))"
  with assms(2,3) have a: "a < length (en_heap (es_enc s))"
    and m: "seMoves (en_heap (es_enc s) ! a) (en_heap e ! a)"
    and l: "en_shardEncoders e = en_shardEncoders (es_enc s)" by (auto simp: encMoves_def)
  from a assms(1) have "flusherOk (en_heap (es_enc s) ! a) (es_flushers s ! a)"
    and st: "stoppedSoFar (es_enc s) (es_config s) a \<longrightarrow> se_stopped (en_heap (es_enc s) ! a)"
    by (auto simp: inv_retired_def)
  with m show "(stoppedSoFar (es_enc t) (es_config t) a \<longrightarrow> se_stopped (en_heap (es_enc t) ! a)) \<and>
      flusherOk (en_heap (es_enc t) ! a) (es_flushers t ! a)"
    unfolding assms(3-5) stoppedSoFar_list [OF l] by (auto simp: seMoves_def intro: flusherOk_moves)
qed

lemma inv_retired_flusher:
  assumes "inv_retired s" and "a < length (es_flushers s)"
    and "flusherOk se fl" and "seMoves (en_heap (es_enc s) ! a) se"
    and "es_enc t = setShardEncoder a se (es_enc s)"
    and "es_flushers t = (es_flushers s)[a := fl]" and "es_config t = es_config s"
  shows "inv_retired t"
  unfolding inv_retired_def
proof (intro allI impI)
  fix b assume "b < length (en_heap (es_enc t))"
  with assms(5) have b: "b < length (en_heap (es_enc s))" by simp
  have l: "stoppedSoFar (es_enc t) (es_config t) b = stoppedSoFar (es_enc s) (es_config s) b"
    unfolding assms(7) by (rule stoppedSoFar_list) (simp add: assms(5))
  from b assms(1) show "(stoppedSoFar (es_enc t) (es_config t) b \<longrightarrow> se_stopped (en_heap (es_enc t) ! b)) \<and>
      flusherOk (en_heap (es_enc t) ! b) (es_flushers t ! b)"
    unfolding l using assms(2-4)
    by (cases "b = a") (auto simp: assms(5,6) inv_retired_def seMoves_def)
qed

lemma inv_retired_config:
  assumes "inv_retired s" and "inv_shape c s"
    and "config_step (es_enc s) (es_config s) = Some (e, g, fs, ws, evs)"
    and "es_enc t = e" "es_config t = g" "es_flushers t = es_flushers s @ replicate fs Ticking"
  shows "inv_retired t"
proof -
  have old: "(stoppedSoFar (es_enc s) (es_config s) a \<longrightarrow> se_stopped (en_heap (es_enc s) ! a)) \<and>
      flusherOk (en_heap (es_enc s) ! a) (es_flushers s ! a)" if "a < length (en_heap (es_enc s))" for a
    using assms(1) that by (simp add: inv_retired_def)
  from assms(3) show ?thesis
  proof (cases rule: config_step_cases)
    case (stopped req a "as")
    have "(stoppedSoFar (es_enc t) (es_config t) b \<longrightarrow> se_stopped (en_heap (es_enc t) ! b)) \<and>
        flusherOk (en_heap (es_enc t) ! b) (es_flushers t ! b)" if "b < length (en_heap (es_enc t))" for b
      using old [of b] that flusherOk_moves [OF _ seMoves_Stop]
      by (cases "b = a") (auto simp: assms(4-6) stopped)
    then show ?thesis by (simp add: inv_retired_def)
  next
    case (started sh shs began)
    have len: "length (es_flushers s) = length (en_heap (es_enc s))"
      using assms(2) by (simp add: inv_shape_def)
    have "flusherOk (shardEncoderFor opts sh) Ticking" for opts by (simp add: flusherOk_def)
    with old show ?thesis
      by (auto simp: inv_retired_def assms(4-6) started nth_append len less_Suc_eq)
  qed (use old in \<open>auto simp: inv_retired_def assms(4-6)\<close>)
qed

lemma inv_retired_exec [preserves]:
  assumes "enc_exec c act s = Some t" and inv: "inv_retired s" and shape: "inv_shape c s"
  shows "inv_retired t"
proof -
  note move = inv_retired_moves [OF inv]
  have ok: "flusherOk (en_heap (es_enc s) ! a) (es_flushers s ! a)" if "a < length (es_flushers s)" for a
    using inv shape that by (simp add: inv_retired_def inv_shape_def)
  from assms(1) show ?thesis
  proof (cases rule: enc_exec_cases)
    case (send i e evs)
    with enqueueSpans_frame [OF send(3), of c] show ?thesis
      by (intro move [of e]) (simp_all add: encMoves_same)
  next
    case (work i e w evs)
    then show ?thesis by (intro move [OF encMoves_worker [OF work(3)]]) simp_all
  next
    case (tick a se evs)
    then show ?thesis by (intro move [OF encMoves_set [OF seMoves_Flush [OF tick(4)]]]) simp_all
  next
    case (signal a)
    with ok have "flusherOk (en_heap (es_enc s) ! a) FinalFlush" by (simp add: flusherOk_def)
    then show ?thesis
      by (rule inv_retired_flusher [OF inv signal(2) _ seMoves_refl]) (simp_all add: signal(5))
  next
    case (final a se evs)
    with ok [OF final(2)] Flush_empties [OF final(4)] Flush_frame [OF final(4)] have "flusherOk se Exited"
      by (simp add: flusherOk_def)
    then show ?thesis
      by (rule inv_retired_flusher [OF inv final(2) _ seMoves_Flush [OF final(4)]]) (simp_all add: final(5))
  next
    case (config e g fs ws evs)
    then show ?thesis by (intro inv_retired_config [OF inv shape config(2)]) simp_all
  next
    case (stop_flush a e st evs)
    then show ?thesis by (intro move [OF encMoves_stop_flush [OF stop_flush(2)]]) simp_all
  next
    case (stop e st evs)
    then show ?thesis by (intro move [OF encMoves_stop_step [OF stop(2)]]) simp_all
  qed (auto intro!: move [of "es_enc t"] encMoves_same)
qed

section \<open>Shard encoders that are being started\<close>

text \<open>
  The encoders that the configuration goroutine has started but not stored yet are known to no one
  else: they are outside the list in use, no worker is at one of them, and they hold no span.
\<close>

fun workerAt :: "worker \<Rightarrow> nat set" where
  "workerAt (Loaded a _ _) = {a}"
| "workerAt (Measured a _ _ _) = {a}"
| "workerAt (FlushDue a _) = {a}"
| "workerAt _ = {}"

definition unused :: "encoder \<Rightarrow> worker list \<Rightarrow> nat \<Rightarrow> bool" where
  "unused e ws a \<longleftrightarrow> a \<notin> set (en_shardEncoders e) \<and> a \<notin> (\<Union>w \<in> set ws. workerAt w) \<and> se_spans (en_heap e ! a) = []"

fun beingStarted :: "configGoroutine \<Rightarrow> nat set" where
  "beingStarted (ConfigStarting shs started) = set started"
| "beingStarted _ = {}"

definition inv_fresh :: "enc_sys \<Rightarrow> bool" where
  "inv_fresh s \<longleftrightarrow> (\<forall>a \<in> beingStarted (es_config s). unused (es_enc s) (es_workers s) a)"

lemma stoppedSoFar_outside:
  assumes "configOk e g" and "a \<notin> set (en_shardEncoders e)" and "a \<notin> beingStarted g"
  shows "stoppedSoFar e g a"
  using assms by (cases g) auto

lemma inv_fresh_keep:
  assumes "inv_fresh s" and "es_config t = es_config s"
    and "\<And>a. unused (es_enc s) (es_workers s) a \<Longrightarrow> unused (es_enc t) (es_workers t) a"
  shows "inv_fresh t"
  using assms by (simp add: inv_fresh_def)

lemma unused_set:
  assumes "unused e ws a" and "b = a \<Longrightarrow> se_spans (en_heap e ! a) = [] \<Longrightarrow> se_spans se = []"
  shows "unused (setShardEncoder b se e) ws a"
  using assms by (cases "b = a"; cases "a < length (en_heap e)") (auto simp: unused_def list_update_beyond)

lemma unused_same:
  "unused e ws a \<Longrightarrow> en_shardEncoders e' = en_shardEncoders e \<Longrightarrow> en_heap e' = en_heap e \<Longrightarrow> unused e' ws a"
  by (simp add: unused_def)

lemma unused_update:
  assumes "unused e ws a" and "a \<notin> workerAt w"
  shows "unused e (ws[i := w]) a"
  using assms set_update_subset_insert [of ws i w] by (auto simp: unused_def)

lemma unused_worker:
  assumes "worker_step c e (ws ! i) = Some (e', w', evs)" and "i < length ws" and "unused e ws a"
  shows "unused e' (ws[i := w']) a"
proof -
  from assms(2,3) have at: "a \<notin> workerAt (ws ! i)" "a \<notin> set (en_shardEncoders e)"
    by (auto simp: unused_def)
  from assms(1) have "unused e' ws a \<and> a \<notin> workerAt w'"
  proof (cases rule: worker_step_cases)
    case (dequeued spans)
    then show ?thesis using assms(3) by (auto simp: dequeueSpans_def unused_def split: option.splits)
  next
    case finished
    then show ?thesis using assms(3) by (auto simp: wgDone_def unused_def split: if_splits)
  next
    case (routed span rest b)
    with getShardEncoder_Some [OF routed(2)] at(2) assms(3) show ?thesis by auto
  next
    case (accumulated b span sz rest se needFlush)
    with at(1) assms(3) show ?thesis by (auto intro: unused_set)
  next
    case (flushed b rest se)
    with at(1) assms(3) show ?thesis by (auto intro: unused_set)
  qed (use at assms(3) in auto)
  then show ?thesis by (simp add: unused_update)
qed

lemma unused_Flush:
  "Flush c (en_heap e ! b) = (se, evs) \<Longrightarrow> unused e ws a \<Longrightarrow> unused (setShardEncoder b se e) ws a"
  by (erule unused_set) (auto dest: Flush_empties)

lemma unused_stop_flush:
  assumes "stop_flush c b e st = Some (e', st', evs)" and "unused e ws a"
  shows "unused e' ws a"
proof -
  obtain se evs1 where 1: "Flush c (en_heap e ! b) = (se, evs1)" by fastforce
  with assms(1) unused_Flush [OF 1 assms(2)] show ?thesis
    by (auto elim!: stop_flush.elims split: if_splits)
qed

lemma unused_stop_step:
  assumes "stop_step e st = Some (e', st', evs)" and "unused e ws a"
  shows "unused e' ws a"
proof (cases "(e, st)" rule: stop_step.cases)
  case (4 e'' b "as")
  with assms show ?thesis by (auto intro!: unused_set)
qed (use assms in \<open>auto simp: beginStop_def stopConfigChanges_def closeHardStop_def
      intro: unused_same split: if_splits sum.splits\<close>)

lemma inv_fresh_config:
  assumes "inv_fresh s" and "inv_shape c s"
    and "config_step (es_enc s) (es_config s) = Some (e, g, fs, ws, evs)"
    and "es_enc t = e" "es_config t = g" "es_workers t = es_workers s @ replicate ws Idle"
  shows "inv_fresh t"
  using assms(3)
proof (cases rule: config_step_cases)
  case (started sh shs began)
  let ?h = "en_heap (es_enc s)"
  have "unused e (es_workers s) a" if "a \<in> set began" for a
  proof -
    from assms(2) that have "a < length ?h" by (auto simp: inv_shape_def started(1))
    moreover from assms(1) that have "unused (es_enc s) (es_workers s) a" by (simp add: inv_fresh_def started(1))
    ultimately show ?thesis by (simp add: unused_def started(2) nth_append)
  qed
  moreover have "unused e (es_workers s) (length ?h)"
  proof -
    have "length ?h \<notin> workerAt w" if "w \<in> set (es_workers s)" for w
      using assms(2) that by (cases w) (fastforce simp: inv_shape_def)+
    moreover have "length ?h \<notin> set (en_shardEncoders (es_enc s))"
      using assms(2) by (auto simp: inv_shape_def encOk_def addrsOk_def)
    ultimately show ?thesis by (simp add: unused_def started(2))
  qed
  ultimately show ?thesis by (auto simp: inv_fresh_def assms(4-6) started(3,5))
qed (simp_all add: inv_fresh_def assms(5))



lemma inv_fresh_exec [preserves]:
  assumes "enc_exec c act s = Some t" and inv: "inv_fresh s" and shape: "inv_shape c s"
  shows "inv_fresh t"
proof -
  note keep = inv_fresh_keep [OF inv]
  from assms(1) show ?thesis
  proof (cases rule: enc_exec_cases)
    case (send i e evs)
    with enqueueSpans_frame [OF send(3), of c] show ?thesis
      by (intro keep) (auto intro: unused_same)
  next
    case (work i e w evs)
    then show ?thesis by (intro keep) (auto intro: unused_worker)
  next
    case (quit i)
    then show ?thesis by (intro keep) (auto intro: unused_update)
  next
    case (tick a se evs)
    then show ?thesis by (intro keep) (auto intro: unused_Flush)
  next
    case (signal a)
    then show ?thesis by (intro keep) (auto intro: unused_set)
  next
    case (final a se evs)
    then show ?thesis by (intro keep) (auto intro: unused_Flush)
  next
    case (config e g fs ws evs)
    then show ?thesis by (intro inv_fresh_config [OF inv shape config(2)]) simp_all
  next
    case (stop_flush a e st evs)
    then show ?thesis by (intro keep) (auto intro: unused_stop_flush)
  next
    case (stop e st evs)
    then show ?thesis by (intro keep) (auto intro: unused_stop_step)
  qed (auto intro!: keep intro: unused_same)
qed

section \<open>Draining\<close>

text \<open>
  Workers return only after the hard stop, and the queue has room for at least one batch; so
  as long as there is work, some goroutine can do a part of it.
\<close>

definition inv_live :: "enc_sys \<Rightarrow> bool" where
  "inv_live s \<longleftrightarrow> (WorkerExited \<in> set (es_workers s) \<longrightarrow> en_workerHardStop (es_enc s)) \<and>
     0 < chan_cap (en_spanBatchesToProcess (es_enc s))"

lemma worker_step_live:
  assumes "worker_step c e w = Some (e', w', evs)"
  shows "w' \<noteq> WorkerExited \<and> chan_cap (en_spanBatchesToProcess e') = chan_cap (en_spanBatchesToProcess e)"
  using assms
  by (cases rule: worker_step_cases) (auto simp: wgDone_def dest: dequeueSpans_Some split: if_splits)

lemma stop_step_hardStop:
  "stop_step e st = Some (e', st', evs) \<Longrightarrow> en_workerHardStop e \<Longrightarrow> en_workerHardStop e'"
  by (cases "(e, st)" rule: stop_step.cases)
    (auto simp: beginStop_def stopConfigChanges_def closeHardStop_def close_signal_def
      split: if_splits sum.splits)

lemma enqueueSpans_cap:
  "enqueueSpans spans e = Some (e', evs) \<Longrightarrow>
     chan_cap (en_spanBatchesToProcess e') = chan_cap (en_spanBatchesToProcess e)"
  by (auto simp: enqueueSpans_def dest: gochan.send_Some split: option.splits)

lemma exited_update:
  "WorkerExited \<in> set (ws[i := w]) \<Longrightarrow> w \<noteq> WorkerExited \<Longrightarrow> WorkerExited \<in> set ws"
  using set_update_subset_insert [of ws i w] by auto

lemma inv_live_exec [preserves]:
  assumes "enc_exec c act s = Some t" and inv: "inv_live s"
  shows "inv_live t"
  using assms(1)
proof (cases rule: enc_exec_cases)
  case (send i e evs)
  with inv enqueueSpans_frame [OF send(3), of c] enqueueSpans_cap [OF send(3)] show ?thesis
    by (simp add: inv_live_def)
next
  case (work i e w evs)
  with inv worker_step_live [OF work(3)] worker_step_frame [OF work(3)]
    exited_update [of "es_workers s" i w] show ?thesis by (auto simp: inv_live_def)
next
  case (config e g fs ws evs)
  with inv config_step_frame [OF config(2)] show ?thesis by (auto simp: inv_live_def)
next
  case (stop_flush a e st evs)
  with inv stop_flush_frame [OF stop_flush(2)] show ?thesis by (simp add: inv_live_def)
next
  case (stop e st evs)
  with inv stop_step_frame [OF stop(2)] stop_step_hardStop [OF stop(2)] show ?thesis
    by (auto simp: inv_live_def)
qed (use inv in \<open>simp_all add: inv_live_def\<close>)

fun workerLoad :: "worker \<Rightarrow> nat" where
  "workerLoad (Processing rest) = 5 * length rest + 1"
| "workerLoad (Loaded a span rest) = 5 * length rest + 5"
| "workerLoad (Measured a span sz rest) = 5 * length rest + 4"
| "workerLoad (FlushDue a rest) = 5 * length rest + 3"
| "workerLoad _ = 0"

definition sysLoad :: "enc_sys \<Rightarrow> nat" where
  "sysLoad s =
     (\<Sum>b\<leftarrow>es_sending s. 5 * length b + 3) +
     (\<Sum>b\<leftarrow>chan_items (en_spanBatchesToProcess (es_enc s)). 5 * length b + 2) +
     (\<Sum>w\<leftarrow>es_workers s. workerLoad w)"

lemma worker_step_progress:
  assumes "busy w = 1"
  shows "\<exists>e' w' evs. worker_step c e w = Some (e', w', evs) \<and> workerLoad w' < workerLoad w \<and>
    en_spanBatchesToProcess e' = en_spanBatchesToProcess e"
  using assms
  by (cases "(c, e, w)" rule: worker_step.cases)
    (auto simp: wgDone_def split: option.split prod.split sum.split)

lemma sysLoad_worker:
  assumes "i < length (es_workers s)"
    and "worker_step c (es_enc s) (es_workers s ! i) = Some (e, w, evs)"
    and "workerLoad w + (\<Sum>b\<leftarrow>chan_items (en_spanBatchesToProcess e). 5 * length b + 2) <
      workerLoad (es_workers s ! i) +
      (\<Sum>b\<leftarrow>chan_items (en_spanBatchesToProcess (es_enc s)). 5 * length b + 2)"
  shows "\<exists>t. enc_exec c (WorkerStep i) s = Some t \<and> sysLoad t < sysLoad s \<and> es_workers t \<noteq> [] \<and>
    es_accepted t = es_accepted s \<and> en_workerHardStop (es_enc t) = en_workerHardStop (es_enc s)"
proof -
  let ?t = "emit evs (s\<lparr>es_enc := e, es_workers := (es_workers s)[i := w]\<rparr>)"
  have "(\<Sum>x\<leftarrow>(es_workers s)[i := w]. workerLoad x) + workerLoad (es_workers s ! i) =
      (\<Sum>x\<leftarrow>es_workers s. workerLoad x) + workerLoad w"
    by (rule sum_list_update_add [OF assms(1)])
  with assms(3) have "sysLoad ?t < sysLoad s" by (simp add: sysLoad_def)
  moreover have "(es_workers s)[i := w] \<noteq> []" using assms(1) by auto
  ultimately show ?thesis using assms(1,2) worker_step_frame [OF assms(2)] by simp
qed

lemma dequeue_progress:
  assumes "es_workers s \<noteq> []" and "es_workers s ! 0 = Idle"
    and items: "chan_items (en_spanBatchesToProcess (es_enc s)) = b # bs"
  shows "\<exists>t. enc_exec c (WorkerStep 0) s = Some t \<and> sysLoad t < sysLoad s \<and> es_workers t \<noteq> [] \<and>
    es_accepted t = es_accepted s \<and> en_workerHardStop (es_enc t) = en_workerHardStop (es_enc s)"
proof -
  from items obtain q where "chan_recv (en_spanBatchesToProcess (es_enc s)) = Some (b, q)" and q: "chan_items q = bs"
    by (simp add: chan_recv_def)
  then have w: "worker_step c (es_enc s) Idle =
      Some ((es_enc s)\<lparr>en_spanBatchesToProcess := q\<rparr>, Processing b,
        [Recorded (OnSpansDequeued (en_hooks (es_enc s)) (int (length b)))])"
    by (simp add: dequeueSpans_def)
  have "workerLoad (Processing b) + (\<Sum>b\<leftarrow>chan_items (en_spanBatchesToProcess
        ((es_enc s)\<lparr>en_spanBatchesToProcess := q\<rparr>)). 5 * length b + 2)
      < workerLoad Idle + (\<Sum>b\<leftarrow>chan_items (en_spanBatchesToProcess (es_enc s)). 5 * length b + 2)"
    by (simp add: q items)
  moreover have "0 < length (es_workers s)" using assms(1) by simp
  ultimately show ?thesis using sysLoad_worker [of 0 s c, unfolded assms(2)] w by blast
qed

lemma send_progress:
  assumes "es_sending s = b # bs" and items: "chan_items (en_spanBatchesToProcess (es_enc s)) = []"
    and "0 < chan_cap (en_spanBatchesToProcess (es_enc s))"
  shows "\<exists>t. enc_exec c (CallerSend 0) s = Some t \<and> sysLoad t < sysLoad s \<and> es_workers t = es_workers s \<and>
    es_accepted t = es_accepted s \<and> en_workerHardStop (es_enc t) = en_workerHardStop (es_enc s)"
proof -
  from items assms(3) obtain q
    where q: "chan_send b (en_spanBatchesToProcess (es_enc s)) = Some q" "chan_items q = [b]"
    by (simp add: chan_send_def)
  then have "enc_exec c (CallerSend 0) s =
      Some (emit [Recorded (OnSpansEnqueued (en_hooks (es_enc s)) (int (length b)))]
        (s\<lparr>es_enc := (es_enc s)\<lparr>en_spanBatchesToProcess := q\<rparr>, es_sending := bs\<rparr>))"
    by (simp add: assms(1) enqueueSpans_def removeNth_def)
  then show ?thesis by (simp add: sysLoad_def q(2) items assms(1))
qed

lemma load_progress:
  assumes "inv_live s" and "es_workers s \<noteq> []" and "\<not> en_workerHardStop (es_enc s)"
    and "0 < sysLoad s"
  shows "\<exists>act t. enc_exec c act s = Some t \<and> sysLoad t < sysLoad s \<and> es_workers t \<noteq> [] \<and>
    es_accepted t = es_accepted s \<and> en_workerHardStop (es_enc t) = en_workerHardStop (es_enc s) \<and>
    ((\<exists>i. act = WorkerStep i) \<or> act = CallerSend 0)"
proof (cases "\<exists>i < length (es_workers s). busy (es_workers s ! i) = 1")
  case True
  then obtain i where i: "i < length (es_workers s)" "busy (es_workers s ! i) = 1" by blast
  from worker_step_progress [OF i(2), of c "es_enc s"] obtain e w evs
    where "worker_step c (es_enc s) (es_workers s ! i) = Some (e, w, evs)"
      "workerLoad w < workerLoad (es_workers s ! i)"
      "en_spanBatchesToProcess e = en_spanBatchesToProcess (es_enc s)" by blast
  from sysLoad_worker [OF i(1) this(1)] this(2,3) show ?thesis by (metis add_less_cancel_right)
next
  case no_busy: False
  have idle: "w = Idle" if "w \<in> set (es_workers s)" for w
  proof -
    from that no_busy have "busy w \<noteq> 1" by (auto simp: in_set_conv_nth)
    moreover from that assms(1,3) have "w \<noteq> WorkerExited" by (auto simp: inv_live_def)
    ultimately show ?thesis by (cases w) auto
  qed
  then have 0: "es_workers s ! 0 = Idle" using assms(2) by simp
  show ?thesis
  proof (cases "chan_items (en_spanBatchesToProcess (es_enc s))")
    case (Cons b bs)
    from dequeue_progress [OF assms(2) 0 Cons, of c] show ?thesis by blast
  next
    case Nil
    have "(\<Sum>w\<leftarrow>es_workers s. workerLoad w) = 0" by (auto simp: sum_list_eq_0_iff dest: idle)
    with Nil assms(4) obtain b bs where "es_sending s = b # bs" by (cases "es_sending s") (auto simp: sysLoad_def)
    moreover have "0 < chan_cap (en_spanBatchesToProcess (es_enc s))" using assms(1) by (simp add: inv_live_def)
    ultimately show ?thesis using send_progress [OF _ Nil, of b bs c] assms(2) by (metis (no_types, lifting))
  qed
qed

definition drainable :: "enc_sys \<Rightarrow> bool" where
  "drainable s \<longleftrightarrow> inv_live s \<and> es_workers s \<noteq> [] \<and> \<not> en_workerHardStop (es_enc s)"

interpretation drain: leads_to "\<lambda>s t. (enc_step c)\<^sup>*\<^sup>* s t \<and> es_accepted t = es_accepted s" drainable
  "\<lambda>s. sysLoad s = 0" sysLoad for c
proof
  fix s assume s: "drainable s" "sysLoad s \<noteq> 0"
  with load_progress [of s c] obtain act t where t: "enc_exec c act s = Some t"
    "sysLoad t < sysLoad s" "es_workers t \<noteq> []" "es_accepted t = es_accepted s"
    "en_workerHardStop (es_enc t) = en_workerHardStop (es_enc s)" by (auto simp: drainable_def)
  with s(1) inv_live_exec [OF t(1)] have "drainable t" by (simp add: drainable_def)
  with t act [OF t(1)]
  show "\<exists>t. ((enc_step c)\<^sup>*\<^sup>* s t \<and> es_accepted t = es_accepted s) \<and> drainable t \<and> sysLoad t < sysLoad s" by blast
qed auto

lemma sysLoad_zero:
  assumes "sysLoad s = 0"
  shows "es_sending s = []" "chan_items (en_spanBatchesToProcess (es_enc s)) = []"
    "(\<Sum>w\<leftarrow>es_workers s. busy w) = 0" "(\<Sum>w\<leftarrow>es_workers s. workerKeys w) = {#}"
proof -
  show "es_sending s = []" using assms by (cases "es_sending s") (auto simp: sysLoad_def)
  show "chan_items (en_spanBatchesToProcess (es_enc s)) = []"
    using assms by (cases "chan_items (en_spanBatchesToProcess (es_enc s))") (auto simp: sysLoad_def)
  have w: "busy w = 0 \<and> workerKeys w = {#}" if "w \<in> set (es_workers s)" for w
  proof -
    have "workerLoad w = 0" using assms that by (simp add: sysLoad_def sum_list_eq_0_iff)
    then show ?thesis by (cases w) auto
  qed
  then show "(\<Sum>w\<leftarrow>es_workers s. busy w) = 0" by (simp add: sum_list_eq_0_iff)
  from w show "(\<Sum>w\<leftarrow>es_workers s. workerKeys w) = {#}"
    by (induction "es_workers s" rule: list.induct) (metis map_eq_conv sum_list_0)+
qed

section \<open>The invariant\<close>

definition enc_inv :: "codec \<Rightarrow> enc_sys \<Rightarrow> bool" where
  "enc_inv c s \<longleftrightarrow> inv_shape c s \<and> inv_keys s \<and> inv_wg s \<and> inv_retired s \<and> inv_fresh s \<and> inv_live s"

definition enc_started :: "enc_sys \<Rightarrow> bool" where
  "enc_started s \<longleftrightarrow> (\<exists>register opts e. newEncoder register opts = Some e \<and> s = enc_sys_init e)"

lemma enc_inv_init:
  assumes "newEncoder register opts = Some e"
  shows "enc_inv c (enc_sys_init e)"
proof -
  from assms have "en_heap e = []" "en_shardEncoders e = []" "en_spansToProcessWg e = 0"
    "chan_items (en_spanBatchesToProcess e) = []" "0 < chan_cap (en_spanBatchesToProcess e)"
    by (auto simp: populateDefaults_def word_neq_0_conv [symmetric] unat_gt_0 newEncoder_def Let_def make_chan_def split: if_splits)
  then show ?thesis
    by (simp add: enc_inv_def inv_shape_def inv_keys_def inv_wg_def inv_retired_def inv_fresh_def inv_live_def enc_sys_init_def
        encOk_def addrsOk_def currentShards_def validShards_def sysKeys_def encKeys_def queueKeys_def)
qed

interpretation enc_inv: transition_invariant enc_started "enc_step c" "enc_inv c" for c
proof
  fix s assume "enc_started s"
  then show "enc_inv c s" by (auto simp: enc_started_def enc_inv_init)
next
  fix s t assume "enc_step c s t" "enc_inv c s"
  then show "enc_inv c t"
    by (auto simp: enc_inv_def elim!: enc_stepE
        intro: preserves)
qed


section \<open>A turn of the configuration goroutine on its own\<close>

text \<open>
  When no other goroutine comes between, the steps of a turn do what \<open>processConfigChange\<close> says,
  which has the turn in one piece.
\<close>

lemma enc_run_append:
  "enc_run c (as @ bs) s = (case enc_run c as s of None \<Rightarrow> None | Some t \<Rightarrow> enc_run c bs t)"
  by (induction "as" arbitrary: s) (auto split: option.split)

lemma emit_none [simp]: "emit [] s = s"
  by (simp add: emit_def)

lemma stopping_run:
  "es_config s = ConfigStopping req as \<Longrightarrow>
   enc_run c (replicate (length as) ConfigStep) s =
     Some (s\<lparr>es_enc := (es_enc s)\<lparr>en_heap := stopAll as (en_heap (es_enc s))\<rparr>, es_config := ConfigStopping req []\<rparr>)"
  by (induction "as" arbitrary: s) (simp_all add: setShardEncoder_def)

lemma starting_run:
  "es_config s = ConfigStarting shs began \<Longrightarrow>
   enc_run c (replicate (length shs) ConfigStep) s =
     Some (emit (concat (map startEvents (map (shardEncoderFor (en_options (es_enc s))) shs)))
       (s\<lparr>es_enc := (es_enc s)\<lparr>en_heap := en_heap (es_enc s) @ map (shardEncoderFor (en_options (es_enc s))) shs\<rparr>,
          es_config := ConfigStarting []
            (began @ [length (en_heap (es_enc s)) ..< length (en_heap (es_enc s)) + length shs]),
          es_flushers := es_flushers s @ replicate (length shs) Ticking\<rparr>))"
proof (induction shs arbitrary: s began)
  case (Cons sh shs)
  let ?n = "length (en_heap (es_enc s))"
  have "[?n ..< ?n + length (sh # shs)] = ?n # [Suc ?n ..< Suc ?n + length shs]" by (subst upt_conv_Cons) simp_all
  then show ?case
    using Cons.prems by (simp add: Cons.IH Let_def emit_def)
qed (simp add: emit_def)

lemma applying_run:
  assumes "es_config s = ConfigStopping req []" and "newShardingInMemConfig req = Inr cfg"
    and "applyConfig req (es_enc s) = (e, ConfigApplied first, evs)"
  shows "enc_run c (replicate (length (shards cfg) + 3) ConfigStep) s =
    Some (emit evs (s\<lparr>es_enc := e, es_config := ConfigWaiting,
      es_flushers := es_flushers s @ replicate (length (shards cfg)) Ticking,
      es_workers := es_workers s @ replicate (if first then startWorkers (es_enc s) else 0) Idle\<rparr>))"
proof -
  let ?s1 = "s\<lparr>es_config := ConfigStarting (shards cfg) []\<rparr>"
  let ?opts = "en_options (es_enc s)" and ?h = "en_heap (es_enc s)"
  have e: "e = (es_enc s)\<lparr>en_heap := ?h @ map (shardEncoderFor ?opts) (shards cfg),
      en_shardEncoders := [length ?h ..< length ?h + length (shards cfg)], en_workersStarted := True\<rparr>"
    and evs: "evs = concat (map startEvents (map (shardEncoderFor ?opts) (shards cfg)))"
    and first: "first \<longleftrightarrow> \<not> en_workersStarted (es_enc s)"
    using assms(2,3) by (auto simp: applyConfig_def startShardEncoders_def Let_def)
  have "replicate (length (shards cfg) + 3) ConfigStep =
      ConfigStep # replicate (length (shards cfg)) ConfigStep @ [ConfigStep, ConfigStep]"
    by (simp add: numeral_3_eq_3 replicate_append_same [symmetric] replicate_add)
  moreover have "enc_exec c ConfigStep s = Some ?s1" by (simp add: assms(1,2))
  moreover note starting_run [of ?s1 "shards cfg" "[]" c]
  ultimately show ?thesis
    by (simp add: enc_run_append e evs first emit_def startWorkers_def)
qed

lemma turn_run:
  assumes "es_config s = ConfigWaiting" and "en_configChangeRequest (es_enc s) = Some req"
    and "newShardingInMemConfig req = Inr cfg"
    and "processConfigChange (es_enc s) = (e, ConfigApplied first, evs)"
  shows "enc_run c (replicate (1 + length (en_shardEncoders (es_enc s)) + (length (shards cfg) + 3)) ConfigStep) s =
    Some (emit evs (s\<lparr>es_enc := e, es_config := ConfigWaiting,
      es_flushers := es_flushers s @ replicate (length (shards cfg)) Ticking,
      es_workers := es_workers s @ replicate (if first then startWorkers (es_enc s) else 0) Idle\<rparr>))"
proof -
  let ?e1 = "(es_enc s)\<lparr>en_configChangeRequest := None\<rparr>" and ?as = "en_shardEncoders (es_enc s)"
  from assms(2,4) have take: "takeConfigRequest (es_enc s) = Some (req, ?e1)"
    and app: "applyConfig req (stopShardEncoders ?e1) = (e, ConfigApplied first, evs)"
    by (auto simp: processConfigChange_def takeConfigRequest_def split: if_splits)
  let ?s1 = "s\<lparr>es_enc := ?e1, es_config := ConfigStopping req ?as\<rparr>"
  let ?s2 = "?s1\<lparr>es_enc := stopShardEncoders ?e1, es_config := ConfigStopping req []\<rparr>"
  have "enc_exec c ConfigStep s = Some ?s1"
    using take assms(1) by (auto simp: takeConfigRequest_def split: if_splits)
  moreover have "enc_run c (replicate (length ?as) ConfigStep) ?s1 = Some ?s2"
    using stopping_run [of ?s1 req ?as c] by (simp add: stopShardEncoders_def)
  moreover have "enc_run c (replicate (length (shards cfg) + 3) ConfigStep) ?s2 =
    Some (emit evs (s\<lparr>es_enc := e, es_config := ConfigWaiting,
      es_flushers := es_flushers s @ replicate (length (shards cfg)) Ticking,
      es_workers := es_workers s @ replicate (if first then startWorkers (es_enc s) else 0) Idle\<rparr>))"
    by (subst applying_run [OF _ assms(3)]) (simp_all add: app, simp_all add: stopShardEncoders_def startWorkers_def)
  ultimately show ?thesis
    by (simp only: replicate_add enc_run_append replicate_Suc One_nat_def replicate_0 append.simps enc_run.simps option.case)
qed

section \<open>Concrete runs\<close>

text \<open>The encoder with the four quarters of the key space, and the shard of the sample spans.\<close>

definition sampleSys4 :: enc_sys where
  "sampleSys4 =
     \<lparr>es_enc = sampleEnc4, es_flushers = replicate 4 Ticking, es_checked = [], es_sending = [],
      es_workers = [Idle, Idle], es_config = ConfigWaiting, es_stop = NotStopping,
      es_accepted = [], es_events = []\<rparr>"

lemma sampleEnc_request:
  "\<not> en_configChangeStopped sampleEnc" "en_shardEncoders sampleEnc = []" "en_heap sampleEnc = []"
  "takeConfigRequest (SetConfig (Some cfg) sampleEnc) = Some (cfg, sampleEnc)"
  "en_configChangeStopped (SetConfig cfg' sampleEnc) = False"
  "length (en_heap sampleEnc4) = 4" "startWorkers sampleEnc = 2"
  by (simp_all add: takeConfigRequest_def SetConfig_def sampleEnc_def sampleEnc4_def startWorkers_def
      sampleOptions_def int64_of_uint64_def)

lemma sampleSys4_turn:
  "enc_run c (replicate 8 ConfigStep) ((enc_sys_init sampleEnc)\<lparr>es_enc := SetConfig (Some testConfig4) sampleEnc\<rparr>) =
     Some sampleSys4"
proof -
  let ?s = "(enc_sys_init sampleEnc)\<lparr>es_enc := SetConfig (Some testConfig4) sampleEnc\<rparr>"
  have s: "es_config ?s = ConfigWaiting" "en_configChangeRequest (es_enc ?s) = Some testConfig4"
    by (simp_all add: enc_sys_init_def SetConfig_def sampleEnc_def)
  have w: "startWorkers (SetConfig (Some testConfig4) sampleEnc) = 2"
    using sampleEnc_request(7) by (simp add: startWorkers_def SetConfig_def sampleEnc_def)
  show ?thesis
    using turn_run [OF s testConfig4_accepted, of sampleEnc4 True "[]" c] sampleEnc4_config
    by (simp add: sampleEnc_request(2) w sampleSys4_def enc_sys_init_def numeral_2_eq_2)
qed

lemma sampleSys4_run:
  "enc_run sampleCodec (CallSetConfig (Some testConfig4) # replicate 8 ConfigStep) (enc_sys_init sampleEnc) =
     Some sampleSys4"
  using sampleSys4_turn [of sampleCodec] by (simp add: enc_sys_init_def)

lemma sampleEnc4_facts:
  "en_heap sampleEnc4 ! 2 = shardEncoderFor sampleOptions (shards inMem4 ! 2)"
  "en_isStoppingFlag sampleEnc4 = False" "en_spanBatchesToProcess sampleEnc4 = make_chan 2"
  "en_spansToProcessWg sampleEnc4 = 0" "en_workerHardStop sampleEnc4 = False"
  "getShardEncoder (sampleEnc4\<lparr>en_spansToProcessWg := n, en_spanBatchesToProcess := q\<rparr>) pk =
     getShardEncoder sampleEnc4 pk"
  by (simp_all add: sampleEnc4_def sampleEnc_def getShardEncoder_def)

lemma sampleSpan_facts:
  "spanPartitionKey sampleCodec (sampleSpan n k) = ''abc''"
  "tryEncodeSpan sampleCodec (shardEncoderFor sampleOptions sh) (sampleSpan 3 0) = (sampleSpan 3 0, Inr 3, [])"
  "accumulateLocked (shardEncoderFor sampleOptions sh) (sampleSpan 3 0) 3 =
     ((shardEncoderFor sampleOptions sh)\<lparr>se_spans := [sampleSpan 3 0], se_accumulatedSize := 3\<rparr>, False, [])"
  by (simp_all add: spanPartitionKey_def tryEncodeSpan_def accumulateLocked_def isStopped_def
      sampleCodec_def sampleSpan_def uint_len_def sampleOptions_def shardEncoderFor_def
      newShardEncoder_def numeral_3_eq_3)

lemmas sample_eval =
  sampleEnc4_facts sampleSpan_facts sampleEnc4_route wgDone_def wgAdd_def isStopping_def
  enqueueSpans_def dequeueSpans_def make_chan_def chan_send_def chan_recv_def removeNth_def emit_def
  setShardEncoder_def

text \<open>A batch of one span: checked and counted, then encoded by a worker, then sent by a tick.\<close>

definition sampleSending :: enc_sys where
  "sampleSending = sampleSys4\<lparr>es_enc := wgAdd sampleEnc4, es_sending := [[sampleSpan 3 0]],
     es_accepted := [sampleSpan 3 0]\<rparr>"

lemma sampleSending_run:
  "enc_run sampleCodec [CallerCheck [sampleSpan 3 0], CallerAdd 0] sampleSys4 = Some sampleSending"
  by (simp add: sampleSending_def sampleSys4_def sample_eval)

definition sampleEncoded :: enc_sys where
  "sampleEncoded = sampleSys4
     \<lparr>es_enc := sampleEnc4
        \<lparr>en_spanBatchesToProcess := \<lparr>chan_cap = 2, chan_items = []\<rparr>,
         en_heap := (en_heap sampleEnc4)
           [2 := (shardEncoderFor sampleOptions (shards inMem4 ! 2))
                  \<lparr>se_spans := [sampleSpan 3 0], se_accumulatedSize := 3\<rparr>],
         en_spansToProcessWg := 0\<rparr>,
      es_accepted := [sampleSpan 3 0],
      es_events := [Recorded (OnSpansEnqueued (en_hooks sampleEnc4) 1),
                    Recorded (OnSpansDequeued (en_hooks sampleEnc4) 1)]\<rparr>"

lemma sampleEncoded_run:
  "enc_run sampleCodec
     [CallerSend 0, WorkerStep 0, WorkerStep 0, WorkerStep 0, WorkerStep 0, WorkerStep 0] sampleSending =
   Some sampleEncoded"
  by (simp add: sampleSending_def sampleEncoded_def sampleSys4_def sample_eval)

definition sampleSent :: enc_sys where
  "sampleSent = the (enc_run sampleCodec [FlusherTick 2] sampleEncoded)"

definition sampleSentRecord :: EncodedRecord where
  "sampleSentRecord =
     \<lparr>RecData = [111, 109, 58, 106, 115, 112, 108, 122, 31, 7, 7, 7], PartitionKey = ''abc'',
      SpanCount = 1, UncompressedBytes = 3\<rparr>"

lemma sample_flush:
  "Flush sampleCodec ((shardEncoderFor sampleOptions sh)\<lparr>se_spans := [sampleSpan 3 0], se_accumulatedSize := 3\<rparr>) =
     (shardEncoderFor sampleOptions sh,
      RecordReady sampleSentRecord [sampleSpan 3 0] sh
        # flushStats (newTelemetryHooks ''omnishard'' (shardID sh)) sampleSentRecord)"
  by (simp add: Flush_def flushEncode_def isStopped_def shardEncoderFor_def newShardEncoder_def
      sampleCodec_def sampleSpan_def compress_def compressedMagicByte_def clearAccumulated_def
      sampleSentRecord_def sampleOptions_def numeral_3_eq_3 Let_def)

lemma sampleSent_run: "enc_run sampleCodec [FlusherTick 2] sampleEncoded = Some sampleSent"
  and sampleSent_facts: "es_accepted sampleSent = [sampleSpan 3 0]"
    "RecordReady sampleSentRecord [sampleSpan 3 0] (shards inMem4 ! 2) \<in> set (es_events sampleSent)"
  by (simp_all add: sampleSent_def sampleEncoded_def sampleSys4_def emit_def sample_flush
      sampleEnc4_facts flusher_tick_def sampleEnc_request(6))

lemmas sample_reach4 = enc_run_reachable [OF sampleSys4_run]
lemmas sample_reachSending = rtranclp_trans [OF sample_reach4 enc_run_reachable [OF sampleSending_run]]
lemmas sample_reachEncoded = rtranclp_trans [OF sample_reachSending enc_run_reachable [OF sampleEncoded_run]]
lemmas sample_reachSent = rtranclp_trans [OF sample_reachEncoded enc_run_reachable [OF sampleSent_run]]

lemma sample_started: "enc_started (enc_sys_init sampleEnc)"
  using sampleEnc_new by (auto simp: enc_started_def)

text \<open>A second configuration, with the shards of the unit test, replaces the four shard encoders.\<close>

definition reconfigActions :: "action list" where
  "reconfigActions = CallSetConfig (Some testShards) # replicate 10 ConfigStep @ [FlusherStep 2, FlusherStep 2]"

definition testEncoders :: "shardEncoder list" where
  "testEncoders = map (shardEncoderFor sampleOptions) (case newShardingInMemConfig testShards of
     Inr cfg \<Rightarrow> shards cfg | Inl _ \<Rightarrow> [])"

lemma testShards_apply:
  assumes "en_options e = sampleOptions"
  shows "applyConfig testShards e =
    (e\<lparr>en_heap := en_heap e @ testEncoders,
       en_shardEncoders := [length (en_heap e), Suc (length (en_heap e))], en_workersStarted := True\<rparr>,
     ConfigApplied (\<not> en_workersStarted e), [])"
proof -
  obtain a b where ab: "newShardingInMemConfig testShards = Inr \<lparr>shards = [a, b]\<rparr>"
    using testShards_accepted by blast
  have "startEvents (shardEncoderFor sampleOptions sh) = []" for sh
    by (simp add: startEvents_def shardEncoder_Start_def shardEncoderFor_def newShardEncoder_def sampleOptions_def)
  then show ?thesis
    by (simp add: applyConfig_def ab startShardEncoders_def testEncoders_def assms Let_def)
qed

lemma testEncoders_length [simp]: "length testEncoders = 2"
  by (simp add: testEncoders_def testShards_accepted)

lemma upt_four: "[0 ..< 4] = [0, 1, 2, 3 :: nat]"
  by (simp add: upt_rec)

definition sampleReconfigured :: enc_sys where
  "sampleReconfigured = sampleEncoded
     \<lparr>es_enc := (es_enc sampleEncoded)
        \<lparr>en_heap := stopAll [0, 1, 2, 3] (en_heap (es_enc sampleEncoded)) @ testEncoders, en_shardEncoders := [4, 5]\<rparr>,
      es_flushers := replicate 6 Ticking\<rparr>"

lemma sampleReconfigured_turn:
  "enc_run c (replicate 10 ConfigStep)
     (sampleEncoded\<lparr>es_enc := SetConfig (Some testShards) (es_enc sampleEncoded)\<rparr>) = Some sampleReconfigured"
proof -
  let ?s = "sampleEncoded\<lparr>es_enc := SetConfig (Some testShards) (es_enc sampleEncoded)\<rparr>"
  let ?e1 = "(es_enc ?s)\<lparr>en_configChangeRequest := None\<rparr>"
  have s: "es_config ?s = ConfigWaiting" "en_configChangeRequest (es_enc ?s) = Some testShards"
    "en_shardEncoders (es_enc ?s) = [0, 1, 2, 3]" "\<not> en_configChangeStopped (es_enc ?s)"
    "en_workersStarted (es_enc ?s)" "en_options (es_enc ?s) = sampleOptions" "length (en_heap (es_enc ?s)) = 4"
    by (simp_all add: sampleEncoded_def sampleSys4_def SetConfig_def sampleEnc4_def sampleEnc_def upt_four)
  have "processConfigChange (es_enc ?s) = (es_enc sampleReconfigured, ConfigApplied False, [])"
    using testShards_apply [of "stopShardEncoders ?e1"] s
    by (simp add: processConfigChange_def takeConfigRequest_def stopShardEncoders_def)
      (simp add: sampleReconfigured_def sampleEncoded_def sampleSys4_def SetConfig_def sampleEnc4_def sampleEnc_def upt_four)
  note turn = turn_run [OF s(1,2) testShards_accepted this, of c]
  have "replicate 4 Ticking @ [Ticking, Ticking] = replicate 6 Ticking" by (simp add: eval_nat_numeral)
  with turn s(3) show ?thesis
    by (simp add: sampleReconfigured_def)
      (simp add: sampleEncoded_def sampleSys4_def replicate_add [symmetric] numeral_2_eq_2)
qed

lemma sampleReconfig_run:
  "\<exists>t. enc_run sampleCodec reconfigActions sampleEncoded = Some t \<and>
     en_shardEncoders (es_enc t) = [4, 5] \<and> es_flushers t ! 2 = Exited \<and>
     length (en_heap (es_enc t)) = 6"
  using sampleReconfigured_turn [of sampleCodec]
  by (simp add: reconfigActions_def enc_run_append)
    (simp add: sampleReconfigured_def sampleEncoded_def sampleSys4_def emit_def sampleEnc4_def
      nth_append flusher_step_def shardEncoder_Stop_def Flush_def isStopped_def clearAccumulated_def)

text \<open>\<open>Stop\<close> during the first change of configuration.\<close>

definition racingActions :: "action list" where
  "racingActions =
     [CallSetConfig (Some testShards), ConfigStep, StopStep, StopStep, StopStep, ConfigStep, ConfigStep,
      ConfigStep, ConfigStep, ConfigStep, StopStep, StopStep, ConfigStep, WorkerQuit 0, WorkerQuit 1]"

lemma racing_run:
  "\<exists>t. enc_run sampleCodec racingActions (enc_sys_init sampleEnc) = Some t \<and>
     es_stop t = StopReturned \<and> es_config t = ConfigExited \<and> es_workers t = [WorkerExited, WorkerExited] \<and>
     en_shardEncoders (es_enc t) = [0, 1] \<and> es_flushers t ! 0 = Ticking \<and>
     \<not> se_stopped (en_heap (es_enc t) ! 0)"
  by (simp add: racingActions_def enc_sys_init_def emit_def takeConfigRequest_def SetConfig_def
      sampleEnc_def startWorkers_def sampleOptions_def int64_of_uint64_def
      beginStop_def stopConfigChanges_def closeHardStop_def close_signal_def worker_quit_def
      numeral_2_eq_2 testShards_accepted startEvents_def shardEncoder_Start_def shardEncoderFor_def newShardEncoder_def Let_def)

section \<open>Properties\<close>

text \<open>
  C12: no span is lost in the encoder, whatever the interleaving of callers, workers,
  configuration changes, ticks and \<open>Stop\<close>: each accepted span is with a caller, in the queue,
  with a worker, in a shard encoder (in use or replaced), in a record that has been handed on,
  or in a failure report, in exactly one of them and once. When callers, queue, workers and
  shard encoders hold none, everything accepted has been emitted or reported.
\<close>

theorem encoder_no_span_lost:
  assumes "newEncoder register opts = Some e" and "(enc_step c)\<^sup>*\<^sup>* (enc_sys_init e) s"
  shows "spanKeys (es_accepted s) =
      spanKeys (concat (es_checked s)) + spanKeys (concat (es_sending s)) + queueKeys (es_enc s) +
      (\<Sum>w\<leftarrow>es_workers s. workerKeys w) + heapKeys (en_heap (es_enc s)) + eventKeys (es_events s) \<and>
    (sysKeys s = {#} \<longrightarrow> spanKeys (es_accepted s) = eventKeys (es_events s))"
proof -
  have "enc_started (enc_sys_init e)" using assms(1) by (auto simp: enc_started_def)
  from enc_inv.reachable_inv [OF this assms(2)]
  have "spanKeys (es_accepted s) = sysKeys s + eventKeys (es_events s)"
    by (simp add: enc_inv_def inv_keys_def)
  then show ?thesis by (simp add: sysKeys_def encKeys_def ac_simps)
qed

theorem encoder_no_span_lost_witness:
  "eventKeys (es_events sampleSent) + sysKeys sampleSent = spanKeys [sampleSpan 3 0] \<and>
   RecordReady sampleSentRecord [sampleSpan 3 0] (shards inMem4 ! 2) \<in> set (es_events sampleSent)"
  using encoder_no_span_lost [OF sampleEnc_new sample_reachSent] sampleSent_facts
  by (simp add: sysKeys_def encKeys_def ac_simps)

text \<open>
  C13: records go to the right shard, even while the configuration changes under the workers.
  Every record the encoder ever emits has its partition key in the range of the shard it
  is emitted for, as the client's \<open>Send\<close> requires, and all its spans in that range; the shard is
  the in-memory form of a definition the server sent; and the list in use always holds disjoint
  ranges.
\<close>

theorem encoder_records_routed:
  assumes "newEncoder register opts = Some e" and "(enc_step c)\<^sup>*\<^sup>* (enc_sys_init e) s"
    and "RecordReady rec ss sh \<in> set (es_events s)"
  shows "belongsToShard sh (PartitionKey rec) \<and>
    (\<forall>span \<in> set ss. belongsToShard sh (spanPartitionKey c span)) \<and>
    toInMem (origin sh) = sh \<and> validShards (currentShards (es_enc s))"
proof -
  have "enc_started (enc_sys_init e)" using assms(1) by (auto simp: enc_started_def)
  from enc_inv.reachable_inv [OF this assms(2)] have "inv_shape c s" by (simp add: enc_inv_def)
  with assms(3) have "eventRouted c (RecordReady rec ss sh)" "validShards (currentShards (es_enc s))"
    unfolding inv_shape_def encOk_def by blast+
  then show ?thesis by simp
qed

theorem encoder_records_routed_witness:
  "belongsToShard (shards inMem4 ! 2) (PartitionKey sampleSentRecord) \<and>
   PartitionKey sampleSentRecord = ''abc''"
  using encoder_records_routed [OF sampleEnc_new sample_reachSent sampleSent_facts(2)]
  by (simp add: sampleSentRecord_def)

text \<open>
  C14: the wait of \<open>Stop\<close> is exact. \<open>spansToProcessWg\<close> is always the number of batches being
  sent, queued or with a worker, so its counter never goes negative, which would be a panic; and
  when it is zero no batch is queued or with a worker.
\<close>

theorem encoder_wait_group_exact:
  assumes "newEncoder register opts = Some e" and "(enc_step c)\<^sup>*\<^sup>* (enc_sys_init e) s"
  shows "en_spansToProcessWg (es_enc s) =
      length (es_sending s) + length (chan_items (en_spanBatchesToProcess (es_enc s))) +
      length (filter (\<lambda>w. w \<noteq> Idle \<and> w \<noteq> WorkerExited) (es_workers s)) \<and>
    Crashed NegativeWaitGroup \<notin> set (es_events s)"
proof -
  have "enc_started (enc_sys_init e)" using assms(1) by (auto simp: enc_started_def)
  from enc_inv.reachable_inv [OF this assms(2)] have inv: "inv_wg s" by (simp add: enc_inv_def)
  have "busy w = (if w \<noteq> Idle \<and> w \<noteq> WorkerExited then 1 else 0)" for w by (cases w) auto
  then have "(\<Sum>w\<leftarrow>ws. busy w) = length (filter (\<lambda>w. w \<noteq> Idle \<and> w \<noteq> WorkerExited) ws)" for ws
    by (induction ws) auto
  with inv show ?thesis by (simp add: inv_wg_def)
qed

theorem encoder_wait_group_exact_witness:
  "en_spansToProcessWg (es_enc sampleSending) = 1 \<and> length (es_sending sampleSending) = 1"
  using encoder_wait_group_exact [OF sampleEnc_new sample_reachSending]
  by (simp add: sampleSending_def sampleSys4_def sampleEnc4_facts make_chan_def wgAdd_def)

text \<open>
  C15: a change of configuration leaves no shard encoder behind. In every reachable state, whatever
  the configuration goroutine is doing, each shard encoder outside the list in use has been
  stopped, but for those that the goroutine has just started and not stored yet: they hold
  no span and no worker knows them. While it stops the old list, those it has been through are
  stopped, and while it starts new ones, all others are. A flushing goroutine ends only after its
  encoder is stopped, and the encoder it leaves is empty and stays so.
\<close>

theorem encoder_replaced_stopped:
  assumes "newEncoder register opts = Some e" and "(enc_step c)\<^sup>*\<^sup>* (enc_sys_init e) s"
    and "a < length (en_heap (es_enc s))"
  shows "(a \<notin> set (en_shardEncoders (es_enc s)) \<and> a \<notin> beingStarted (es_config s) \<longrightarrow>
      se_stopped (en_heap (es_enc s) ! a)) \<and>
    (a \<in> beingStarted (es_config s) \<longrightarrow> a \<notin> set (en_shardEncoders (es_enc s)) \<and>
      se_spans (en_heap (es_enc s) ! a) = [] \<and> (\<forall>w \<in> set (es_workers s). a \<notin> workerAt w)) \<and>
    (\<forall>req as. es_config s = ConfigStopping req as \<and> a \<notin> set as \<longrightarrow> se_stopped (en_heap (es_enc s) ! a)) \<and>
    (\<forall>shs started. es_config s = ConfigStarting shs started \<and> a \<notin> set started \<longrightarrow>
      se_stopped (en_heap (es_enc s) ! a)) \<and>
    (es_flushers s ! a = Exited \<longrightarrow>
      se_stopped (en_heap (es_enc s) ! a) \<and> se_spans (en_heap (es_enc s) ! a) = [])"
proof -
  have "enc_started (enc_sys_init e)" using assms(1) by (auto simp: enc_started_def)
  from enc_inv.reachable_inv [OF this assms(2)] have inv: "inv_retired s" "inv_fresh s" "inv_shape c s"
    by (auto simp: enc_inv_def)
  from inv(1) assms(3) have "stoppedSoFar (es_enc s) (es_config s) a \<longrightarrow> se_stopped (en_heap (es_enc s) ! a)"
    "flusherOk (en_heap (es_enc s) ! a) (es_flushers s ! a)" by (auto simp: inv_retired_def)
  moreover have "stoppedSoFar (es_enc s) (es_config s) a"
    if "a \<notin> set (en_shardEncoders (es_enc s))" "a \<notin> beingStarted (es_config s)"
    using stoppedSoFar_outside [OF _ that] inv(3) by (simp add: inv_shape_def)
  ultimately show ?thesis using inv(2) by (auto simp: inv_fresh_def unused_def flusherOk_def)
qed

theorem encoder_replaced_stopped_witness:
  "\<exists>t. enc_run sampleCodec reconfigActions sampleEncoded = Some t \<and>
     se_stopped (en_heap (es_enc t) ! 2) \<and> se_spans (en_heap (es_enc t) ! 2) = [] \<and>
     en_shardEncoders (es_enc t) = [4, 5]"
proof -
  from sampleReconfig_run obtain t where t: "enc_run sampleCodec reconfigActions sampleEncoded = Some t"
    "en_shardEncoders (es_enc t) = [4, 5]" "es_flushers t ! 2 = Exited" "length (en_heap (es_enc t)) = 6"
    by blast
  have "2 < length (en_heap (es_enc t))" using t(4) by simp
  from encoder_replaced_stopped
      [OF sampleEnc_new rtranclp_trans [OF sample_reachEncoded enc_run_reachable [OF t(1)]] this] t
  show ?thesis by blast
qed

text \<open>
  The encoder cannot get stuck. Once the workers have been started, and until the hard
  stop, the goroutines can always go on to a state in which the wait group is zero: no caller is
  blocked, the queue is empty, and every accepted span whose caller has been counted is in a
  shard encoder, emitted or reported.
\<close>

lemma encoder_can_drain:
  assumes "newEncoder register opts = Some e" and "(enc_step c)\<^sup>*\<^sup>* (enc_sys_init e) s"
    and "es_workers s \<noteq> []" and "\<not> en_workerHardStop (es_enc s)"
  shows "\<exists>t. (enc_step c)\<^sup>*\<^sup>* s t \<and> es_accepted t = es_accepted s \<and>
    en_spansToProcessWg (es_enc t) = 0 \<and> es_sending t = [] \<and>
    spanKeys (es_accepted t) =
      spanKeys (concat (es_checked t)) + heapKeys (en_heap (es_enc t)) + eventKeys (es_events t)"
proof -
  have st: "enc_started (enc_sys_init e)" using assms(1) by (auto simp: enc_started_def)
  from enc_inv.reachable_inv [OF st assms(2)] have "inv_live s" by (simp add: enc_inv_def)
  with assms(3,4) have "drainable s" by (simp add: drainable_def)
  from drain.reaches_goal [OF this] obtain t where t: "(enc_step c)\<^sup>*\<^sup>* s t" "sysLoad t = 0"
    "es_accepted t = es_accepted s" by blast
  from enc_inv.reachable_inv [OF st rtranclp_trans [OF assms(2) t(1)]]
  have "inv_keys t" "inv_wg t" by (auto simp: enc_inv_def)
  with sysLoad_zero [OF t(2)] have "en_spansToProcessWg (es_enc t) = 0" "es_sending t = []"
    "spanKeys (es_accepted t) =
      spanKeys (concat (es_checked t)) + heapKeys (en_heap (es_enc t)) + eventKeys (es_events t)"
    by (simp_all add: inv_keys_def inv_wg_def sysKeys_def encKeys_def queueKeys_def)
  with t show ?thesis by blast
qed

lemma encoder_can_drain_witness:
  "\<exists>t. (enc_step sampleCodec)\<^sup>*\<^sup>* sampleSending t \<and> es_accepted t = [sampleSpan 3 0] \<and>
     en_spansToProcessWg (es_enc t) = 0 \<and> es_sending t = [] \<and> es_sending sampleSending \<noteq> []"
proof -
  have "es_workers sampleSending \<noteq> []" "\<not> en_workerHardStop (es_enc sampleSending)"
    "es_accepted sampleSending = [sampleSpan 3 0]" "es_sending sampleSending \<noteq> []"
    by (simp_all add: sampleSending_def sampleSys4_def sampleEnc4_facts)
  with encoder_can_drain [OF sampleEnc_new sample_reachSending] show ?thesis by metis
qed

text \<open>
  C25: \<open>Stop\<close> racing with a change of configuration can leave shard encoders running. There is a
  run in which \<open>Stop\<close> has returned, the configuration goroutine and all workers have returned,
  and yet a shard encoder in the list is not stopped and its flushing goroutine ticks on: the
  configuration goroutine had taken its request before \<open>Stop\<close> and started the new encoders after
  \<open>Stop\<close> had loaded the old list.
\<close>

theorem encoder_stop_race:
  "\<exists>t. (enc_step sampleCodec)\<^sup>*\<^sup>* (enc_sys_init sampleEnc) t \<and> es_stop t = StopReturned \<and>
     es_config t = ConfigExited \<and> set (es_workers t) = {WorkerExited} \<and>
     0 \<in> set (en_shardEncoders (es_enc t)) \<and> es_flushers t ! 0 = Ticking \<and>
     \<not> se_stopped (en_heap (es_enc t) ! 0)"
proof -
  from racing_run obtain t where t: "enc_run sampleCodec racingActions (enc_sys_init sampleEnc) = Some t"
    "es_stop t = StopReturned" "es_config t = ConfigExited" "es_workers t = [WorkerExited, WorkerExited]"
    "en_shardEncoders (es_enc t) = [0, 1]" "es_flushers t ! 0 = Ticking"
    "\<not> se_stopped (en_heap (es_enc t) ! 0)" by blast
  from t(2-) enc_run_reachable [OF t(1)] show ?thesis by (intro exI [of _ t]) simp
qed

end
