(* ===== verification/EncoderLoad.thy ===== *)
theory EncoderLoad
  imports EncoderConc
begin

text \<open>
  How much is left to do for the spans inside the running encoder of \<open>EncoderConc\<close>: each span weighs
  what the rest of its way costs, a span that a stopped shard encoder is going to hand back enough
  to be encoded again. Every move that carries spans on makes the load smaller, and as
  long as the encoder holds a span there is such a move.
\<close>

section \<open>What a flush costs\<close>

definition batchLoad :: "nat \<Rightarrow> Span list \<Rightarrow> nat" where
  "batchLoad k spans = 30 * length spans + k"

definition seLoad :: "shardEncoder \<Rightarrow> nat" where
  "seLoad se = (if se_stopped se then 40 else 6) * length (se_spans se)"

fun eventLoad :: "event \<Rightarrow> nat" where
  "eventLoad (RecordReady rec spans sh) = 5"
| "eventLoad (SpanProcessFail spans ErrEncoderStopped) = batchLoad 6 spans"
| "eventLoad _ = 0"

definition eventsLoad :: "event list \<Rightarrow> nat" where
  "eventsLoad evs = (\<Sum>ev\<leftarrow>evs. eventLoad ev)"

lemma eventsLoad_simps [simp]:
  "eventsLoad [] = 0" "eventsLoad (ev # evs) = eventLoad ev + eventsLoad evs"
  "eventsLoad (xs @ ys) = eventsLoad xs + eventsLoad ys"
  by (simp_all add: eventsLoad_def)

lemma eventsLoad_flushStats [simp]: "eventsLoad (flushStats h rec) = 0"
  by (simp add: flushStats_def split: sum.split)

lemma batchLoad_mono: "j < k \<Longrightarrow> batchLoad j b < batchLoad k b"
  by (simp add: batchLoad_def)

lemma seLoad_Flush:
  assumes "Flush c se = (se', evs)"
  shows "se_spans se = [] \<and> se' = se \<and> evs = [] \<or> seLoad se' + eventsLoad evs < seLoad se"
proof (cases "se_spans se = []")
  case True
  with assms show ?thesis by (simp add: Flush_def)
next
  case False
  then obtain n where "length (se_spans se) = Suc n" by (cases "se_spans se") auto
  moreover have "seLoad se' = 0" using Flush_empties [OF assms] by (simp add: seLoad_def)
  moreover have "eventsLoad evs \<le> (if se_stopped se then batchLoad 6 (se_spans se) else 5)"
    using assms
    by (auto simp: Flush_def flushEncode_def isStopped_def Let_def split: option.splits if_splits)
  ultimately show ?thesis by (auto simp: seLoad_def batchLoad_def split: if_splits)
qed

lemma seLoad_accumulate:
  assumes "accumulateLocked se span sz = (se', b, evs)"
  shows "seLoad se' + eventsLoad evs \<le> seLoad se + (if se_stopped se then 36 else 6)"
  using assms by (auto simp: accumulateLocked_def isStopped_def seLoad_def batchLoad_def Let_def split: if_splits)

lemma eventsLoad_tryEncode:
  "tryEncodeSpan c se span = (span', r, evs) \<Longrightarrow> eventsLoad evs = 0"
  by (auto simp: tryEncodeSpan_def Let_def split: option.splits if_splits)

section \<open>The load of the encoder\<close>

definition stoppedAt :: "encoder \<Rightarrow> nat \<Rightarrow> bool" where
  "stoppedAt e a \<longleftrightarrow> se_stopped (en_heap e ! a)"

fun workLoad :: "encoder \<Rightarrow> worker \<Rightarrow> nat" where
  "workLoad e (Processing rest) = batchLoad 2 rest"
| "workLoad e (Loaded a span rest) = batchLoad (if stoppedAt e a then 52 else 14) rest"
| "workLoad e (Measured a span sz rest) = batchLoad (if stoppedAt e a then 51 else 13) rest"
| "workLoad e (FlushDue a rest) = batchLoad 3 rest"
| "workLoad e _ = 0"

fun flusherLoad :: "flusher \<Rightarrow> nat" where
  "flusherLoad Ticking = 2"
| "flusherLoad FinalFlush = 1"
| "flusherLoad _ = 0"

definition heapLoad :: "encoder \<Rightarrow> nat" where
  "heapLoad e = (\<Sum>se\<leftarrow>en_heap e. seLoad se)"

definition queueLoad :: "encoder \<Rightarrow> nat" where
  "queueLoad e = (\<Sum>b\<leftarrow>chan_items (en_spanBatchesToProcess e). batchLoad 3 b)"

definition encLoad :: "enc_sys \<Rightarrow> nat" where
  "encLoad s = (\<Sum>b\<leftarrow>es_checked s. batchLoad 5 b) + (\<Sum>b\<leftarrow>es_sending s. batchLoad 4 b) +
     queueLoad (es_enc s) + heapLoad (es_enc s) + (\<Sum>w\<leftarrow>es_workers s. workLoad (es_enc s) w) +
     (\<Sum>fl\<leftarrow>es_flushers s. flusherLoad fl)"

definition stoppedSame :: "encoder \<Rightarrow> encoder \<Rightarrow> bool" where
  "stoppedSame e e' \<longleftrightarrow> en_shardEncoders e' = en_shardEncoders e \<and> stoppedAt e' = stoppedAt e \<and>
     (\<forall>a. se_shard (en_heap e' ! a) = se_shard (en_heap e ! a)) \<and>
     en_workerHardStop e' = en_workerHardStop e \<and> isStopping e' = isStopping e \<and>
     en_configChangeStopped e' = en_configChangeStopped e \<and> en_options e' = en_options e"

lemma workLoad_same: "stoppedSame e e' \<Longrightarrow> workLoad e' w = workLoad e w"
  by (cases w) (auto simp: stoppedSame_def)

lemma stoppedSame_refl [simp]: "stoppedSame e e"
  by (simp add: stoppedSame_def)

lemma stoppedSame_heap:
  "en_heap e' = en_heap e \<Longrightarrow> en_shardEncoders e' = en_shardEncoders e \<Longrightarrow>
     en_workerHardStop e' = en_workerHardStop e \<Longrightarrow> en_isStoppingFlag e' = en_isStoppingFlag e \<Longrightarrow>
     en_configChangeStopped e' = en_configChangeStopped e \<Longrightarrow> en_options e' = en_options e \<Longrightarrow> stoppedSame e e'"
  by (simp add: stoppedSame_def stoppedAt_def fun_eq_iff isStopping_def)

lemma stoppedSame_set:
  assumes "se_stopped se = se_stopped (en_heap e ! a)" and "se_shard se = se_shard (en_heap e ! a)"
  shows "stoppedSame e (setShardEncoder a se e)"
proof -
  have "se_stopped ((en_heap e)[a := se] ! b) = se_stopped (en_heap e ! b)" for b
    using assms(1) by (cases "b = a"; cases "a < length (en_heap e)") (auto simp: list_update_beyond)
  then show ?thesis
    by (simp add: stoppedSame_def stoppedAt_def fun_eq_iff isStopping_def shard_update [OF assms(2)])
qed

lemma heapLoad_set:
  "a < length (en_heap e) \<Longrightarrow>
     heapLoad (setShardEncoder a se e) + seLoad (en_heap e ! a) = heapLoad e + seLoad se"
  using sum_list_update_add [of a "en_heap e" seLoad se] by (simp add: heapLoad_def)

lemma stoppedSame_Flush:
  "Flush c (en_heap e ! a) = (se, evs) \<Longrightarrow> stoppedSame e (setShardEncoder a se e)"
  by (rule stoppedSame_set) (simp_all add: Flush_frame)

lemma heapLoad_Flush:
  assumes "Flush c (en_heap e ! a) = (se, evs)" and "a < length (en_heap e)"
  shows "heapLoad (setShardEncoder a se e) + eventsLoad evs \<le> heapLoad e"
  using heapLoad_set [OF assms(2), of se] seLoad_Flush [OF assms(1)] by auto

lemma heapLoad_accumulate:
  assumes "accumulateLocked (en_heap e ! a) span sz = (se, needFlush, evs)" and "a < length (en_heap e)"
  shows "stoppedSame e (setShardEncoder a se e)"
    and "heapLoad (setShardEncoder a se e) + eventsLoad evs \<le> heapLoad e + (if stoppedAt e a then 36 else 6)"
proof -
  show "stoppedSame e (setShardEncoder a se e)"
    by (rule stoppedSame_set) (simp_all add: accumulateLocked_frame [OF assms(1)])
  from heapLoad_set [OF assms(2), of se] seLoad_accumulate [OF assms(1)]
  show "heapLoad (setShardEncoder a se e) + eventsLoad evs \<le> heapLoad e + (if stoppedAt e a then 36 else 6)"
    by (simp add: stoppedAt_def)
qed

lemma queueLoad_set [simp]: "queueLoad (setShardEncoder a se e) = queueLoad e"
  by (simp add: queueLoad_def)

definition inUseRuns :: "encoder \<Rightarrow> bool" where
  "inUseRuns e \<longleftrightarrow> (\<forall>a \<in> set (en_shardEncoders e). \<not> stoppedAt e a)"

text \<open>Every move of a worker makes the encoder's load smaller, counting what it hands out.\<close>


lemma workLoad_step:
  assumes "worker_step c e w = Some (e', w', evs)" and "workerOk c e w" and "inUseRuns e"
  shows "queueLoad e' + heapLoad e' + workLoad e' w' + eventsLoad evs <
      queueLoad e + heapLoad e + workLoad e w \<and> stoppedSame e e'"
  using assms(1)
proof (cases rule: worker_step_cases)
  case (dequeued spans)
  then show ?thesis
    by (auto simp: dequeueSpans_def queueLoad_def heapLoad_def batchLoad_def dest!: gochan.recv_Some
        intro!: stoppedSame_heap split: option.splits)
next
  case finished
  then show ?thesis
    by (auto simp: wgDone_def queueLoad_def heapLoad_def batchLoad_def intro!: stoppedSame_heap
        split: if_splits)
next
  case (routed span rest a)
  from getShardEncoder_Some [OF routed(2)] assms(3) have "\<not> stoppedAt e a" by (auto simp: inUseRuns_def)
  with routed show ?thesis by (simp add: batchLoad_def)
next
  case (rejected a span rest span1 err)
  with eventsLoad_tryEncode [OF rejected(2)] show ?thesis by (simp add: batchLoad_def)
next
  case (measured a span rest span1 sz)
  with eventsLoad_tryEncode [OF measured(2)] show ?thesis by (simp add: batchLoad_def)
next
  case (accumulated a span sz rest se needFlush)
  with assms(2) have "a < length (en_heap e)" by simp
  from heapLoad_accumulate [OF accumulated(2) this] show ?thesis
    by (auto simp: accumulated(1,3,4) batchLoad_def split: if_splits)
next
  case (flushed a rest se)
  with assms(2) have "a < length (en_heap e)" by simp
  from heapLoad_Flush [OF flushed(2) this] stoppedSame_Flush [OF flushed(2)] show ?thesis
    by (simp add: flushed(1,3,4) batchLoad_def)
qed (simp_all add: batchLoad_def)

text \<open>The moves of the callers, workers and flushing goroutines that carry spans on.\<close>

fun carries :: "action \<Rightarrow> bool" where
  "carries (CallerAdd _) = True"
| "carries (CallerSend _) = True"
| "carries (WorkerStep _) = True"
| "carries (FlusherTick _) = True"
| "carries (FlusherStep _) = True"
| "carries _ = False"

lemma removeNth_sum_nat:
  fixes f :: "'a \<Rightarrow> nat"
  shows "i < length xs \<Longrightarrow> (\<Sum>x\<leftarrow>removeNth i xs. f x) + f (xs ! i) = (\<Sum>x\<leftarrow>xs. f x)"
  by (subst (3) id_take_nth_drop [of i xs]) (simp_all add: removeNth_def)

lemma sum_workLoad_same:
  "stoppedSame e e' \<Longrightarrow> (\<Sum>w\<leftarrow>ws. workLoad e' w) = (\<Sum>w\<leftarrow>ws. workLoad e w)"
  by (simp add: workLoad_same)

lemma sum_workLoad_step:
  assumes "worker_step c e (ws ! i) = Some (e', w, evs)" and "i < length ws"
    and "workerOk c e (ws ! i)" and "inUseRuns e"
  shows "queueLoad e' + heapLoad e' + (\<Sum>x\<leftarrow>ws[i := w]. workLoad e' x) + eventsLoad evs <
      queueLoad e + heapLoad e + (\<Sum>x\<leftarrow>ws. workLoad e x) \<and> stoppedSame e e'"
proof -
  note st = workLoad_step [OF assms(1,3,4)]
  note same = conjunct2 [OF st]
  from sum_list_update_add [OF assms(2), of "workLoad e" w] st show ?thesis
    by (simp add: sum_workLoad_same [OF same] workLoad_same [OF same])
qed

lemma encLoad_flush:
  assumes "inv_shape c s" and "a < length (es_flushers s)" and "Flush c (en_heap (es_enc s) ! a) = (se, evs)"
    and "(\<Sum>fl\<leftarrow>fls. flusherLoad fl) + 1 \<le> (\<Sum>fl\<leftarrow>es_flushers s. flusherLoad fl)"
  shows "encLoad (emit evs (s\<lparr>es_enc := setShardEncoder a se (es_enc s), es_flushers := fls\<rparr>)) + eventsLoad evs
    < encLoad s"
proof -
  have "a < length (en_heap (es_enc s))" using assms(1,2) by (simp add: inv_shape_def)
  from heapLoad_Flush [OF assms(3) this] assms(4) show ?thesis
    by (simp add: encLoad_def sum_workLoad_same [OF stoppedSame_Flush [OF assms(3)]])
qed

lemma flusherLoad_update:
  "a < length fls \<Longrightarrow> flusherLoad fl < flusherLoad (fls ! a) \<Longrightarrow>
     (\<Sum>fl\<leftarrow>fls[a := fl]. flusherLoad fl) + 1 \<le> (\<Sum>fl\<leftarrow>fls. flusherLoad fl)"
  using sum_list_update_add [of a fls flusherLoad fl] by simp

text \<open>A tick that finds nothing to flush changes nothing; every other move takes some of the load away.\<close>

definition usesLoad :: "action \<Rightarrow> enc_sys \<Rightarrow> enc_sys \<Rightarrow> event list \<Rightarrow> bool" where
  "usesLoad act s t evs \<longleftrightarrow> es_events t = es_events s @ evs \<and> stoppedSame (es_enc s) (es_enc t) \<and>
     length (es_workers t) = length (es_workers s) \<and> es_config t = es_config s \<and>
     (encLoad t + eventsLoad evs < encLoad s \<or>
      (\<exists>a. act = FlusherTick a \<and> se_spans (en_heap (es_enc s) ! a) = [] \<and> t = s \<and> evs = []))"

lemma usesLoad_tick:
  assumes "inv_shape c s" and "a < length (es_flushers s)" and "Flush c (en_heap (es_enc s) ! a) = (se, evs)"
  shows "usesLoad (FlusherTick a) s (emit evs (s\<lparr>es_enc := setShardEncoder a se (es_enc s)\<rparr>)) evs"
  using seLoad_Flush [OF assms(3)]
proof
  assume e: "se_spans (en_heap (es_enc s) ! a) = [] \<and> se = en_heap (es_enc s) ! a \<and> evs = []"
  then have "emit evs (s\<lparr>es_enc := setShardEncoder a se (es_enc s)\<rparr>) = s"
    by (simp add: setShardEncoder_def emit_def)
  with e show ?thesis by (simp add: usesLoad_def stoppedSame_def)
next
  assume less: "seLoad se + eventsLoad evs < seLoad (en_heap (es_enc s) ! a)"
  have "a < length (en_heap (es_enc s))" using assms(1,2) by (simp add: inv_shape_def)
  from heapLoad_set [OF this, of se] less stoppedSame_Flush [OF assms(3)] show ?thesis
    by (simp add: usesLoad_def encLoad_def sum_workLoad_same)
qed

lemma usesLoad_exec:
  assumes "enc_exec c act s = Some t" and "carries act" and "inv_shape c s"
    and "inUseRuns (es_enc s)"
  shows "\<exists>evs. usesLoad act s t evs"
  using assms(1)
proof (cases rule: enc_exec_cases)
  case (add i)
  have same: "stoppedSame (es_enc s) (wgAdd (es_enc s))" by (rule stoppedSame_heap) (simp_all add: wgAdd_def)
  from removeNth_sum_nat [OF add(2), of "batchLoad 5"] batchLoad_mono [of 4 5 "es_checked s ! i"] same
  have "usesLoad act s t []"
    by (simp add: usesLoad_def add(3) encLoad_def sum_workLoad_same [OF same] queueLoad_def heapLoad_def)
  then show ?thesis ..
next
  case (send i e evs)
  note fr = enqueueSpans_frame [OF send(3), of c]
  have same: "stoppedSame (es_enc s) e" and ev: "eventsLoad evs = 0"
    using send(3) by (auto simp: enqueueSpans_def intro!: stoppedSame_heap split: option.splits)
  from removeNth_sum_nat [OF send(2), of "batchLoad 4"] fr batchLoad_mono [of 3 4 "es_sending s ! i"] same
  have "usesLoad act s t evs"
    by (simp add: usesLoad_def send(4) ev encLoad_def sum_workLoad_same [OF same] queueLoad_def heapLoad_def)
  then show ?thesis ..
next
  case (work i e w evs)
  from assms(3) work(2) have "workerOk c (es_enc s) (es_workers s ! i)" by (simp add: inv_shape_def)
  from sum_workLoad_step [OF work(3,2) this assms(4)] have "usesLoad act s t evs"
    by (simp add: usesLoad_def work(4) encLoad_def)
  then show ?thesis ..
next
  case (tick a se evs)
  with usesLoad_tick [OF assms(3) tick(2,4)] show ?thesis by auto
next
  case (signal a)
  have same: "stoppedSame (es_enc s) (setShardEncoder a (en_heap (es_enc s) ! a) (es_enc s))"
    by (rule stoppedSame_set) simp_all
  with flusherLoad_update [OF signal(2), of FinalFlush] signal(3) have "usesLoad act s t []"
    by (simp add: usesLoad_def signal(5) encLoad_def sum_workLoad_same [OF same] heapLoad_def)
  then show ?thesis ..
next
  case (final a se evs)
  with encLoad_flush [OF assms(3) final(2,4) flusherLoad_update [OF final(2), of Exited]]
    stoppedSame_Flush [OF final(4)] have "usesLoad act s t evs" by (simp add: usesLoad_def)
  then show ?thesis ..
qed (use assms(2) in simp_all)

lemma encLoad_exec:
  assumes "enc_exec c act s = Some t" and "carries act" and "inv_shape c s"
    and "inUseRuns (es_enc s)"
  obtains evs where "es_events t = es_events s @ evs" "stoppedSame (es_enc s) (es_enc t)"
    "encLoad t + eventsLoad evs < encLoad s \<or>
     (\<exists>a. act = FlusherTick a \<and> se_spans (en_heap (es_enc s) ! a) = [] \<and> t = s \<and> evs = [])"
    "length (es_workers t) = length (es_workers s)" "es_config t = es_config s"
  using usesLoad_exec [OF assms] unfolding usesLoad_def by blast

section \<open>Something can always be carried on\<close>

definition encReady :: "enc_sys \<Rightarrow> bool" where
  "encReady s \<longleftrightarrow> es_workers s \<noteq> [] \<and> \<not> en_workerHardStop (es_enc s) \<and> inUseRuns (es_enc s)"

lemma encReady_exec:
  assumes "enc_exec c act s = Some t" and "carries act" and "inv_shape c s" and "encReady s"
  shows "encReady t"
proof -
  from assms(4) have "inUseRuns (es_enc s)" by (simp add: encReady_def)
  from encLoad_exec [OF assms(1-3) this] obtain evs where
    "stoppedSame (es_enc s) (es_enc t)" "length (es_workers t) = length (es_workers s)" by blast
  moreover from this(2) assms(4) have "es_workers t \<noteq> []" by (auto simp: encReady_def)
  ultimately show ?thesis using assms(4) by (simp add: encReady_def inUseRuns_def stoppedSame_def)
qed

text \<open>The workers that are not busy wait in their \<open>select\<close>.\<close>

lemma workers_idle:
  assumes "inv_live s" and "\<not> en_workerHardStop (es_enc s)" and "w \<in> set (es_workers s)" and "busy w \<noteq> 1"
  shows "w = Idle"
  using assms by (cases w) (auto simp: inv_live_def)

lemma heapKeys_nonempty:
  assumes "heapKeys h \<noteq> {#}"
  obtains a where "a < length h" "se_spans (h ! a) \<noteq> []"
proof -
  have "\<exists>se \<in> set h. se_spans se \<noteq> []"
  proof (rule ccontr)
    assume "\<not> ?thesis"
    then have "heapKeys h = {#}" by (induction h) (simp_all add: heapKeys_def)
    with assms show False by simp
  qed
  then show thesis using that by (auto simp: in_set_conv_nth)
qed

lemma flusher_progress:
  assumes "inv_shape c s" and "inv_retired s" and "a < length (en_heap (es_enc s))"
    and "se_spans (en_heap (es_enc s) ! a) \<noteq> []"
  obtains act where "enc_exec c act s \<noteq> None" "act = FlusherTick a \<or> act = FlusherStep a"
proof -
  note result = that
  have ok: "flusherOk (en_heap (es_enc s) ! a) (es_flushers s ! a)" and len: "a < length (es_flushers s)"
    using assms(1-3) by (simp_all add: inv_retired_def inv_shape_def)
  show thesis
  proof (cases "es_flushers s ! a")
    case Ticking
    with len show thesis
      by (intro result [of "FlusherTick a"]) (auto simp: flusher_tick_def split: prod.split)
  next
    case FinalFlush
    with len show thesis
      by (intro result [of "FlusherStep a"]) (auto simp: flusher_step_def split: prod.split)
  qed (use ok assms(4) in \<open>auto simp: flusherOk_def\<close>)
qed

text \<open>
  As long as the encoder holds a span, one of its goroutines has a move that carries some on.
\<close>

lemma enc_progress:
  assumes "enc_inv c s" and "encReady s" and "sysKeys s \<noteq> {#}"
  obtains act t where "enc_exec c act s = Some t" "carries act" "t \<noteq> s"
proof -
  note result = that
  from assms(1) have shape: "inv_shape c s" and live: "inv_live s" and ret: "inv_retired s"
    by (auto simp: enc_inv_def)
  from assms(2) have ready: "es_workers s \<noteq> []" "\<not> en_workerHardStop (es_enc s)" "inUseRuns (es_enc s)"
    by (auto simp: encReady_def)
  have moves: thesis if "enc_exec c act s \<noteq> None" "carries act"
    "\<forall>a. act = FlusherTick a \<longrightarrow> se_spans (en_heap (es_enc s) ! a) \<noteq> []" for act
  proof -
    from that(1) obtain t where t: "enc_exec c act s = Some t" by blast
    from encLoad_exec [OF t that(2) shape ready(3)] that(3) have "encLoad t < encLoad s"
      by (metis add_lessD1)
    with t that(2) show thesis by (intro result [of act t]) auto
  qed
  consider (checked) "es_checked s \<noteq> []" | (loaded) "0 < sysLoad s"
    | (heap) "es_checked s = []" "sysLoad s = 0" by blast
  then show thesis
  proof cases
    case checked
    then show thesis by (intro moves [of "CallerAdd 0"]) simp_all
  next
    case loaded
    from load_progress [OF live ready(1,2) this, of c] obtain act t where t: "enc_exec c act s = Some t"
      "(\<exists>i. act = WorkerStep i) \<or> act = CallerSend 0" by blast
    then show thesis by (intro moves [of act]) auto
  next
    case heap
    note zero = sysLoad_zero [OF heap(2)]
    from assms(3) heap zero have "heapKeys (en_heap (es_enc s)) \<noteq> {#}"
      by (auto simp: sysKeys_def encKeys_def queueKeys_def)
    then obtain a where a: "a < length (en_heap (es_enc s))" "se_spans (en_heap (es_enc s) ! a) \<noteq> []"
      by (rule heapKeys_nonempty)
    from flusher_progress [OF shape ret this] obtain act where
      "enc_exec c act s \<noteq> None" "act = FlusherTick a \<or> act = FlusherStep a" .
    with a(2) show thesis by (intro moves [of act]) auto
  qed
qed

end
