(* ===== verification/Client.thy ===== *)
theory Client
  imports Messages
begin

text \<open>
  The client of the OmniShard exporter: the interface \<open>client\<close>
  (\<open>exporter/omnishard/client.go\<close>) as a locale, and \<open>ClientUnary\<close>
  (\<open>exporter/omnishard/client_unary.go\<close>), which sends each request with one of
  \<open>SendConcurrency\<close> goroutines. gRPC is outside the repository: whether the connection can be
  made and what a call of \<open>Export\<close> returns are parameters. The callbacks \<open>OnSendResponse\<close> and
  \<open>OnSendFail\<close> are the events a step returns.
\<close>

section \<open>Options, requests and events\<close>

record ConnectionOptions =
  Endpoint :: string
  UseSecure :: bool
  Headers :: "(string \<times> string) list"
  SendConcurrency :: u64

record requestToSend =
  exportRequest :: ExportRequest
  originalSpans :: "Span list"

datatype clientEvent =
    SendResponse EncodedRecord "Span list" ExportResponse
  | SendFail EncodedRecord "Span list" SendErrorCode
  | ClientCrashed panic

text \<open>
  The error details of a gRPC status that \<open>sendRequest\<close> distinguishes: a \<open>RetryInfo\<close>, whose
  \<open>RetryDelay\<close> is a pointer and may be nil, and any other message.
\<close>

record RetryDelay =
  Seconds :: int
  Nanos :: int

datatype errorDetail =
    RetryInfo "RetryDelay option"
  | OtherDetail

datatype exportResult =
    ExportOk ExportResponse
  | ExportError "errorDetail list"

section \<open>The interface\<close>

text \<open>
  What the exporter relies on: a request that \<open>Send\<close> takes is pending until it is answered, an
  answer is a callback for exactly that request with its record and its original spans, and
  nothing else changes what is pending.
\<close>

fun answers :: "clientEvent list \<Rightarrow> requestToSend \<Rightarrow> bool" where
  "answers [SendResponse rec spans resp] r \<longleftrightarrow>
     rec = ReqRecord (exportRequest r) \<and> spans = originalSpans r"
| "answers [SendFail rec spans code] r \<longleftrightarrow>
     rec = ReqRecord (exportRequest r) \<and> spans = originalSpans r"
| "answers [ClientCrashed p] r \<longleftrightarrow> True"
| "answers _ r \<longleftrightarrow> False"

definition newRequest :: "EncodedRecord \<Rightarrow> Span list \<Rightarrow> ShardDefinition \<Rightarrow> requestToSend" where
  "newRequest rec spans shard =
     \<lparr>exportRequest = \<lparr>ReqRecord = rec, ReqShard = shard\<rparr>, originalSpans = spans\<rparr>"

locale client =
  fixes send :: "EncodedRecord \<Rightarrow> Span list \<Rightarrow> ShardDefinition \<Rightarrow> 'c \<Rightarrow> 'c option"
    and move :: "'a \<Rightarrow> 'c \<Rightarrow> ('c \<times> clientEvent list) option"
    and pending :: "'c \<Rightarrow> requestToSend list"
  assumes send_pending:
      "send rec spans shard c = Some c' \<Longrightarrow>
         mset (pending c') = add_mset (newRequest rec spans shard) (mset (pending c))"
    and move_answers:
      "move a c = Some (c', evs) \<Longrightarrow>
         evs = [] \<and> mset (pending c') = mset (pending c) \<or>
         (\<exists>r. mset (pending c) = add_mset r (mset (pending c')) \<and> answers evs r)"
begin

definition requestKeys :: "'c \<Rightarrow> Span multiset" where
  "requestKeys c = (\<Sum>r\<leftarrow>pending c. spanKeys (originalSpans r))"

lemma requestKeys_mset: "requestKeys c = sum_mset (image_mset (\<lambda>r. spanKeys (originalSpans r)) (mset (pending c)))"
  by (simp add: requestKeys_def flip: sum_mset_sum_list)

lemma send_keys: "send rec spans shard c = Some c' \<Longrightarrow> requestKeys c' = requestKeys c + spanKeys spans"
  using send_pending [of rec spans shard c c'] by (simp add: requestKeys_mset newRequest_def ac_simps)

end

text \<open>The spans that a callback hands back.\<close>

fun clientEventSpans :: "clientEvent \<Rightarrow> Span list" where
  "clientEventSpans (SendResponse _ spans _) = spans"
| "clientEventSpans (SendFail _ spans _) = spans"
| "clientEventSpans (ClientCrashed _) = []"

definition clientEventKeys :: "clientEvent list \<Rightarrow> Span multiset" where
  "clientEventKeys evs = spanKeys (concat (map clientEventSpans evs))"

lemma clientEventKeys_simps [simp]:
  "clientEventKeys [] = {#}"
  "clientEventKeys (e # evs) = spanKeys (clientEventSpans e) + clientEventKeys evs"
  by (simp_all add: clientEventKeys_def)

context client
begin

lemma move_keys:
  assumes "move a c = Some (c', evs)" and "\<forall>p. ClientCrashed p \<notin> set evs"
  shows "requestKeys c' + clientEventKeys evs = requestKeys c"
  using move_answers [OF assms(1)]
proof
  assume "\<exists>r. mset (pending c) = add_mset r (mset (pending c')) \<and> answers evs r"
  then obtain r where r: "mset (pending c) = add_mset r (mset (pending c'))" "answers evs r" by blast
  from r(2) assms(2) have "clientEventKeys evs = spanKeys (originalSpans r)"
    by (cases "(evs, r)" rule: answers.cases) auto
  with r(1) show ?thesis by (simp add: requestKeys_mset ac_simps)
qed (simp add: requestKeys_mset)

end

section \<open>ClientUnary\<close>

text \<open>
  A goroutine of \<open>processSendRequests\<close>: in its \<open>select\<close>, in a call of \<open>Export\<close>, or returned.
  \<open>cu_requestsToSend\<close> is nil before \<open>Connect\<close>.
\<close>

datatype clientWorker = SendIdle | SendCalling requestToSend | SendReturned

record ClientUnary =
  cu_options :: "ConnectionOptions option"
  cu_baseCtx :: "(string \<times> string) list"
  cu_connected :: bool
  cu_requestsToSend :: "requestToSend chan option"
  cu_done :: bool
  cu_workers :: "clientWorker list"

definition NewClientUnary :: ClientUnary where
  "NewClientUnary =
     \<lparr>cu_options = None, cu_baseCtx = [], cu_connected = False, cu_requestsToSend = None,
      cu_done = False, cu_workers = []\<rparr>"

datatype dialOption = WithBlock | WithInsecure

definition grpcOptions :: "ConnectionOptions \<Rightarrow> dialOption list" where
  "grpcOptions options = [WithBlock] @ (if UseSecure options then [] else [WithInsecure])"

text \<open>
  \<open>Connect\<close>; \<open>dial\<close> stands for \<open>grpc.DialContext\<close>, which fails also when the cancel channel is
  closed before the connection is made. The result tells whether \<open>Connect\<close> succeeded.
\<close>

definition client_Connect ::
  "(string \<Rightarrow> (string \<times> string) list \<Rightarrow> dialOption list \<Rightarrow> bool) \<Rightarrow> ConnectionOptions \<Rightarrow>
     ClientUnary \<Rightarrow> ClientUnary \<times> bool" where
  "client_Connect dial options c =
     (let c1 = c\<lparr>cu_options := Some options,
                 cu_baseCtx := (if length (Headers options) > 0 then Headers options else [])\<rparr>
      in if \<not> dial (Endpoint options) (cu_baseCtx c1) (grpcOptions options) then (c1, False)
         else (c1\<lparr>cu_connected := True,
                  cu_requestsToSend := Some (make_chan (unat (SendConcurrency options))),
                  cu_workers := cu_workers c1 @ replicate (unat (SendConcurrency options)) SendIdle\<rparr>,
               True))"

definition client_Shutdown :: "ClientUnary \<Rightarrow> ClientUnary \<times> clientEvent list" where
  "client_Shutdown c =
     (case close_signal (cu_done c) of
        Inl p \<Rightarrow> (c, [ClientCrashed p])
      | Inr closed \<Rightarrow> (c\<lparr>cu_done := closed\<rparr>, []))"

text \<open>
  \<open>GetShardingConfig\<close>: one call with the base context; before \<open>Connect\<close> the client is nil. The
  result of the call is a parameter.
\<close>

definition client_GetShardingConfig ::
  "((string \<times> string) list \<Rightarrow> ShardingConfig option) \<Rightarrow> ClientUnary \<Rightarrow> panic + ShardingConfig option" where
  "client_GetShardingConfig rpc c =
     (if cu_connected c then Inr (rpc (cu_baseCtx c)) else Inl NilDereference)"

text \<open>\<open>Send\<close>: it blocks on a full queue, and for ever on the nil channel before \<open>Connect\<close>.\<close>

definition client_Send ::
  "EncodedRecord \<Rightarrow> Span list \<Rightarrow> ShardDefinition \<Rightarrow> ClientUnary \<Rightarrow> ClientUnary option" where
  "client_Send record spans shard c =
     (case cu_requestsToSend c of
        None \<Rightarrow> None
      | Some q \<Rightarrow>
          (case chan_send (newRequest record spans shard) q of
             None \<Rightarrow> None
           | Some q1 \<Rightarrow> Some (c\<lparr>cu_requestsToSend := Some q1\<rparr>)))"

text \<open>
  The loop over the details of an error: whether one asks for a retry. A \<open>RetryInfo\<close> without
  a delay is dereferenced all the same.
\<close>

fun retryRequested :: "errorDetail list \<Rightarrow> panic + bool" where
  "retryRequested [] = Inr False"
| "retryRequested (RetryInfo None # ds) = Inl NilDereference"
| "retryRequested (RetryInfo (Some delay) # ds) =
     (if Seconds delay > 0 \<or> Nanos delay > 0 then Inr True else retryRequested ds)"
| "retryRequested (OtherDetail # ds) = retryRequested ds"

definition sendRequest :: "exportResult \<Rightarrow> requestToSend \<Rightarrow> clientEvent list" where
  "sendRequest result pr =
     (case result of
        ExportError details \<Rightarrow>
          (case retryRequested details of
             Inl p \<Rightarrow> [ClientCrashed p]
           | Inr True \<Rightarrow>
               [SendFail (ReqRecord (exportRequest pr)) (originalSpans pr) ErrFailedRetryable]
           | Inr False \<Rightarrow>
               [SendFail (ReqRecord (exportRequest pr)) (originalSpans pr) ErrFailedNotRetryable])
      | ExportOk response \<Rightarrow>
          [SendResponse (ReqRecord (exportRequest pr)) (originalSpans pr) response])"

text \<open>
  The moves of goroutine \<open>i\<close> of \<open>processSendRequests\<close>: take a request, return from \<open>Export\<close> with
  a result, or return after \<open>Shutdown\<close>.
\<close>

datatype clientMove = TakeRequest nat | ExportReturns nat exportResult | QuitSending nat

fun client_move :: "clientMove \<Rightarrow> ClientUnary \<Rightarrow> (ClientUnary \<times> clientEvent list) option" where
  "client_move (TakeRequest i) c =
     (if i < length (cu_workers c) \<and> cu_workers c ! i = SendIdle
      then (case cu_requestsToSend c of
              None \<Rightarrow> None
            | Some q \<Rightarrow>
                (case chan_recv q of
                   None \<Rightarrow> None
                 | Some (r, q1) \<Rightarrow>
                     Some (c\<lparr>cu_requestsToSend := Some q1,
                             cu_workers := (cu_workers c)[i := SendCalling r]\<rparr>, [])))
      else None)"
| "client_move (ExportReturns i result) c =
     (if i < length (cu_workers c)
      then (case cu_workers c ! i of
              SendCalling r \<Rightarrow>
                Some (c\<lparr>cu_workers := (cu_workers c)[i := SendIdle]\<rparr>, sendRequest result r)
            | _ \<Rightarrow> None)
      else None)"
| "client_move (QuitSending i) c =
     (if i < length (cu_workers c) \<and> cu_workers c ! i = SendIdle \<and> cu_done c
      then Some (c\<lparr>cu_workers := (cu_workers c)[i := SendReturned]\<rparr>, [])
      else None)"

section \<open>ClientUnary meets the interface\<close>

fun calling :: "clientWorker \<Rightarrow> requestToSend list" where
  "calling (SendCalling r) = [r]"
| "calling _ = []"

definition queuedRequests :: "ClientUnary \<Rightarrow> requestToSend list" where
  "queuedRequests c = (case cu_requestsToSend c of None \<Rightarrow> [] | Some q \<Rightarrow> chan_items q)"

definition callingRequests :: "ClientUnary \<Rightarrow> requestToSend list" where
  "callingRequests c = concat (map calling (cu_workers c))"

definition client_pending :: "ClientUnary \<Rightarrow> requestToSend list" where
  "client_pending c = queuedRequests c @ callingRequests c"

lemma mset_calling: "mset (concat (map calling ws)) = (\<Sum>w\<leftarrow>ws. mset (calling w))"
  by (induction ws) simp_all

lemma calling_update:
  assumes "i < length ws"
  shows "mset (concat (map calling (ws[i := w]))) + mset (calling (ws ! i)) =
    mset (concat (map calling ws)) + mset (calling w)"
  unfolding mset_calling by (rule sum_list_update_add [OF assms])

lemma sendRequest_answers: "answers (sendRequest result r) r"
  by (auto simp: sendRequest_def split: exportResult.split sum.split bool.split)

lemma client_Send_cases:
  assumes "client_Send rec spans shard c = Some c'"
  obtains q q' where "cu_requestsToSend c = Some q" "chan_send (newRequest rec spans shard) q = Some q'"
    "c' = c\<lparr>cu_requestsToSend := Some q'\<rparr>"
  using assms by (auto simp: client_Send_def split: option.splits)

lemma client_move_cases:
  assumes "client_move m c = Some (c', evs)"
  obtains (take) i q r q' where "m = TakeRequest i" "i < length (cu_workers c)"
      "cu_workers c ! i = SendIdle" "cu_requestsToSend c = Some q" "chan_recv q = Some (r, q')"
      "c' = c\<lparr>cu_requestsToSend := Some q', cu_workers := (cu_workers c)[i := SendCalling r]\<rparr>" "evs = []"
  | (finish) i result r where "m = ExportReturns i result" "i < length (cu_workers c)"
      "cu_workers c ! i = SendCalling r"
      "c' = c\<lparr>cu_workers := (cu_workers c)[i := SendIdle]\<rparr>" "evs = sendRequest result r"
  | (quit) i where "m = QuitSending i" "i < length (cu_workers c)" "cu_workers c ! i = SendIdle"
      "cu_done c" "c' = c\<lparr>cu_workers := (cu_workers c)[i := SendReturned]\<rparr>" "evs = []"
  using assms by (cases m) (auto split: if_splits option.splits clientWorker.splits)

interpretation client_unary: client client_Send client_move client_pending
proof
  fix rec spans shard c c'
  assume "client_Send rec spans shard c = Some c'"
  then show "mset (client_pending c') = add_mset (newRequest rec spans shard) (mset (client_pending c))"
    by (elim client_Send_cases)
      (auto simp: client_pending_def queuedRequests_def callingRequests_def dest: gochan.send_Some)
next
  fix m c c' evs
  assume "client_move m c = Some (c', evs)"
  then show "evs = [] \<and> mset (client_pending c') = mset (client_pending c) \<or>
      (\<exists>r. mset (client_pending c) = add_mset r (mset (client_pending c')) \<and> answers evs r)"
  proof (cases rule: client_move_cases)
    case (take i q r q')
    with calling_update [OF take(2), of "SendCalling r"] gochan.recv_Some [OF take(5)] show ?thesis
      by (simp add: client_pending_def queuedRequests_def callingRequests_def)
  next
    case (finish i result r)
    with calling_update [OF finish(2), of SendIdle] sendRequest_answers [of result r]
    have "mset (client_pending c) = add_mset r (mset (client_pending c')) \<and> answers evs r"
      by (simp add: client_pending_def queuedRequests_def callingRequests_def)
    then show ?thesis by blast
  next
    case (quit i)
    with calling_update [OF quit(2), of SendReturned] show ?thesis
      by (simp add: client_pending_def queuedRequests_def callingRequests_def)
  qed
qed

section \<open>Runs of a client\<close>

text \<open>
  A run from a state: the requests that \<open>Send\<close> has taken, latest first, and the callbacks in
  order.
\<close>

inductive client_run ::
  "ClientUnary \<Rightarrow> requestToSend list \<Rightarrow> clientEvent list \<Rightarrow> ClientUnary \<Rightarrow> bool" for c0 where
  start: "client_run c0 [] [] c0"
| send: "client_run c0 rs evs c \<Longrightarrow> client_Send rec spans shard c = Some c' \<Longrightarrow>
     client_run c0 (newRequest rec spans shard # rs) evs c'"
| move: "client_run c0 rs evs c \<Longrightarrow> client_move m c = Some (c', evs') \<Longrightarrow>
     client_run c0 rs (evs @ evs') c'"
| shutdown: "client_run c0 rs evs c \<Longrightarrow> client_Shutdown c = (c', evs') \<Longrightarrow>
     client_run c0 rs (evs @ evs') c'"

text \<open>What a callback answers: the record and its spans; a panic answers nothing.\<close>

fun answered :: "clientEvent \<Rightarrow> (EncodedRecord \<times> Span list) list" where
  "answered (SendResponse rec spans _) = [(rec, spans)]"
| "answered (SendFail rec spans _) = [(rec, spans)]"
| "answered (ClientCrashed _) = []"

definition requestContent :: "requestToSend \<Rightarrow> EncodedRecord \<times> Span list" where
  "requestContent r = (ReqRecord (exportRequest r), originalSpans r)"

lemma answers_answered:
  "answers evs r \<Longrightarrow> (\<forall>p. ClientCrashed p \<notin> set evs) \<Longrightarrow> concat (map answered evs) = [requestContent r]"
  by (cases "(evs, r)" rule: answers.cases) (auto simp: requestContent_def)

definition client_inv :: "nat \<Rightarrow> ClientUnary \<Rightarrow> bool" where
  "client_inv n c \<longleftrightarrow>
     (case cu_requestsToSend c of None \<Rightarrow> True | Some q \<Rightarrow> chan_cap q = n \<and> chan_wf q) \<and>
     length (cu_workers c) \<le> n"

lemma client_Shutdown_frame:
  "client_Shutdown c = (c', evs) \<Longrightarrow>
     client_pending c' = client_pending c \<and> concat (map answered evs) = [] \<and>
     (client_inv n c' \<longleftrightarrow> client_inv n c)"
  by (auto simp: client_Shutdown_def client_pending_def queuedRequests_def callingRequests_def
      client_inv_def split: sum.splits)

lemma client_run_inv: "client_run c0 rs evs c \<Longrightarrow> client_inv n c0 \<Longrightarrow> client_inv n c"
proof (induction rule: client_run.induct)
  case (send rs evs c rec spans shard c')
  from send(2) show ?case
    by (rule client_Send_cases)
      (use send(3,4) in \<open>auto simp: client_inv_def dest: gochan.send_Some gochan.invar_send\<close>)
next
  case (move rs evs c m c' evs')
  from move(2) show ?case
    by (cases rule: client_move_cases)
      (use move(3,4) in \<open>auto simp: client_inv_def dest: gochan.recv_Some gochan.invar_recv\<close>)
next
  case (shutdown rs evs c c' evs')
  then show ?case using client_Shutdown_frame [OF shutdown(2)] by simp
qed

lemma client_run_answers:
  assumes "client_run c0 rs evs c" and "client_pending c0 = []" and "\<forall>p. ClientCrashed p \<notin> set evs"
  shows "mset (map requestContent rs) =
    mset (concat (map answered evs)) + mset (map requestContent (client_pending c))"
  using assms
proof (induction rule: client_run.induct)
  case (send rs evs c rec spans shard c')
  from client_unary.send_pending [OF send(2)] send show ?case by simp
next
  case (move rs evs c m c' evs')
  then have IH: "mset (map requestContent rs) =
      mset (concat (map answered evs)) + mset (map requestContent (client_pending c))"
    and nc: "\<forall>p. ClientCrashed p \<notin> set evs'" by auto
  from client_unary.move_answers [OF move(2)] show ?case
  proof
    assume "\<exists>r. mset (client_pending c) = add_mset r (mset (client_pending c')) \<and> answers evs' r"
    then obtain r where r: "mset (client_pending c) = add_mset r (mset (client_pending c'))"
      "answers evs' r" by blast
    with answers_answered [OF r(2) nc] IH show ?case by simp
  qed (use IH in simp)
next
  case (shutdown rs evs c c' evs')
  with client_Shutdown_frame [OF shutdown(2)] show ?case by simp
qed simp

lemma retryRequested_Inl: "retryRequested ds = Inl p \<Longrightarrow> p = NilDereference"
  by (induction ds rule: retryRequested.induct) (auto split: if_splits)

definition asksRetry :: "errorDetail \<Rightarrow> bool" where
  "asksRetry d = (case d of RetryInfo (Some delay) \<Rightarrow> Seconds delay > 0 \<or> Nanos delay > 0 | _ \<Rightarrow> False)"

text \<open>Up to the first detail that asks for a retry, a \<open>RetryInfo\<close> without delay is fatal.\<close>

lemma retryRequested_iff:
  "retryRequested ds =
     (if RetryInfo None \<in> set (takeWhile (\<lambda>d. \<not> asksRetry d) ds) then Inl NilDereference
      else Inr (\<exists>d \<in> set ds. asksRetry d))"
  by (induction ds rule: retryRequested.induct) (auto simp: asksRetry_def split: option.splits)

section \<open>Properties\<close>

text \<open>
  C27: every request is answered exactly once. Over any run of a connected client, with
  sends, concurrent calls returning in any order and shutdown, the requests that \<open>Send\<close> has taken
  are those answered by one callback, with their own record and their own original spans, and
  those still pending; and at most \<open>SendConcurrency\<close> requests wait in the queue and
  at most \<open>SendConcurrency\<close> calls are in progress.
\<close>

theorem client_answers_once:
  assumes "client_Connect dial options NewClientUnary = (c0, True)"
    and "client_run c0 rs evs c" and "\<forall>p. ClientCrashed p \<notin> set evs"
  shows "mset (map requestContent rs) =
      mset (concat (map answered evs)) + mset (map requestContent (client_pending c)) \<and>
    length (queuedRequests c) \<le> unat (SendConcurrency options) \<and>
    length (callingRequests c) \<le> unat (SendConcurrency options)"
proof -
  from assms(1) have c0: "cu_requestsToSend c0 = Some (make_chan (unat (SendConcurrency options)))"
    "cu_workers c0 = replicate (unat (SendConcurrency options)) SendIdle"
    by (auto simp: client_Connect_def NewClientUnary_def Let_def split: if_splits)
  have "client_pending c0 = []"
    by (simp add: client_pending_def queuedRequests_def callingRequests_def c0 make_chan_def)
  from client_run_answers [OF assms(2) this assms(3)]
  have once: "mset (map requestContent rs) =
      mset (concat (map answered evs)) + mset (map requestContent (client_pending c))" .
  have "client_inv (unat (SendConcurrency options)) c0"
    by (simp add: client_inv_def c0 make_chan_def chan_wf_def)
  from client_run_inv [OF assms(2) this] have inv: "client_inv (unat (SendConcurrency options)) c" .
  have "length (calling w) \<le> 1" for w by (cases w) auto
  then have "length (concat (map calling ws)) \<le> length ws" for ws
    by (induction ws) (simp_all, metis One_nat_def Suc_eq_plus1_left add_mono)
  with inv have "length (callingRequests c) \<le> unat (SendConcurrency options)"
    by (metis callingRequests_def client_inv_def order_trans)
  moreover from inv have "length (queuedRequests c) \<le> unat (SendConcurrency options)"
    by (auto simp: client_inv_def queuedRequests_def chan_wf_def split: option.splits)
  ultimately show ?thesis using once by blast
qed

text \<open>A run: two sends with one sending goroutine, one answered, one still in progress.\<close>

definition sampleConn :: ConnectionOptions where
  "sampleConn = \<lparr>Endpoint = ''localhost:123'', UseSecure = False, Headers = [], SendConcurrency = 1\<rparr>"

definition sampleRec :: "string \<Rightarrow> EncodedRecord" where
  "sampleRec pk = \<lparr>RecData = [1], PartitionKey = pk, SpanCount = 0, UncompressedBytes = 1\<rparr>"

definition sampleReq :: "string \<Rightarrow> requestToSend" where
  "sampleReq pk = newRequest (sampleRec pk) [] \<lparr>ShardId = ''s1'', StartingHashKey = [], EndingHashKey = [9]\<rparr>"

definition sampleClient :: "requestToSend list \<Rightarrow> clientWorker \<Rightarrow> ClientUnary" where
  "sampleClient rs w =
     \<lparr>cu_options = Some sampleConn, cu_baseCtx = [], cu_connected = True,
      cu_requestsToSend = Some \<lparr>chan_cap = 1, chan_items = rs\<rparr>, cu_done = False, cu_workers = [w]\<rparr>"

lemma sampleClient_connected:
  "client_Connect (\<lambda>_ _ _. True) sampleConn NewClientUnary = (sampleClient [] SendIdle, True)"
  by (simp add: client_Connect_def NewClientUnary_def sampleConn_def sampleClient_def make_chan_def Let_def)

lemma sampleClient_run:
  "client_run (sampleClient [] SendIdle) [sampleReq ''b'', sampleReq ''a'']
     [SendFail (sampleRec ''a'') [] ErrFailedRetryable] (sampleClient [] (SendCalling (sampleReq ''b'')))"
proof -
  let ?sh = "\<lparr>ShardId = ''s1'', StartingHashKey = [], EndingHashKey = [9]\<rparr>"
  let ?run = "client_run (sampleClient [] SendIdle)"
  have a: "?run [sampleReq ''a''] [] (sampleClient [sampleReq ''a''] SendIdle)"
    using client_run.send [OF client_run.start, of "sampleRec ''a''" "[]" ?sh "sampleClient [] SendIdle"
        "sampleClient [sampleReq ''a''] SendIdle"]
    by (simp add: sampleClient_def sampleReq_def client_Send_def chan_send_def)
  have b: "?run [sampleReq ''a''] [] (sampleClient [] (SendCalling (sampleReq ''a'')))"
    using client_run.move [OF a, of "TakeRequest 0" "sampleClient [] (SendCalling (sampleReq ''a''))" "[]"]
    by (simp add: sampleClient_def chan_recv_def)
  have c: "?run [sampleReq ''b'', sampleReq ''a''] []
      (sampleClient [sampleReq ''b''] (SendCalling (sampleReq ''a'')))"
    using client_run.send [OF b, of "sampleRec ''b''" "[]" ?sh
        "sampleClient [sampleReq ''b''] (SendCalling (sampleReq ''a''))"]
    by (simp add: sampleClient_def sampleReq_def client_Send_def chan_send_def)
  have d: "?run [sampleReq ''b'', sampleReq ''a''] [SendFail (sampleRec ''a'') [] ErrFailedRetryable]
      (sampleClient [sampleReq ''b''] SendIdle)"
    using client_run.move [OF c, of
        "ExportReturns 0 (ExportError [OtherDetail, RetryInfo (Some \<lparr>Seconds = 0, Nanos = 5\<rparr>)])"
        "sampleClient [sampleReq ''b''] SendIdle" "[SendFail (sampleRec ''a'') [] ErrFailedRetryable]"]
    by (simp add: sampleClient_def sendRequest_def sampleReq_def newRequest_def)
  show ?thesis
    using client_run.move [OF d, of "TakeRequest 0" "sampleClient [] (SendCalling (sampleReq ''b''))" "[]"]
    by (simp add: sampleClient_def chan_recv_def)
qed

theorem client_answers_once_witness:
  "mset (map requestContent [sampleReq ''b'', sampleReq ''a'']) =
     {#(sampleRec ''a'', []), (sampleRec ''b'', [])#} \<and>
   length (callingRequests (sampleClient [] (SendCalling (sampleReq ''b'')))) \<le> 1"
  using client_answers_once [OF sampleClient_connected sampleClient_run]
  by (simp add: client_pending_def queuedRequests_def callingRequests_def sampleClient_def
      requestContent_def sampleReq_def newRequest_def sampleConn_def)

text \<open>
  the outcome of one request. A response is passed to \<open>OnSendResponse\<close>. An error is passed
  to \<open>OnSendFail\<close>: as retryable exactly when some detail is a \<open>RetryInfo\<close> with a positive
  delay, and otherwise as not retryable. The exception is a \<open>RetryInfo\<close> without a delay, which
  is dereferenced: unless a detail before it asks for a retry, it is a panic.
\<close>

lemma sendRequest_outcome:
  "sendRequest result r =
     (case result of
        ExportOk response \<Rightarrow> [SendResponse (ReqRecord (exportRequest r)) (originalSpans r) response]
      | ExportError details \<Rightarrow>
          (if RetryInfo None \<in> set (takeWhile (\<lambda>d. \<not> asksRetry d) details)
           then [ClientCrashed NilDereference]
           else [SendFail (ReqRecord (exportRequest r)) (originalSpans r)
             (if \<exists>d \<in> set details. asksRetry d then ErrFailedRetryable else ErrFailedNotRetryable)]))"
  by (cases result) (simp_all add: sendRequest_def retryRequested_iff)

text \<open>
  connecting. \<open>Connect\<close> succeeds exactly when the dial does, dials with transport security
  exactly when \<open>UseSecure\<close> is set and with the configured headers, and starts as many sending
  goroutines as its queue is long. Before it, \<open>Send\<close> blocks for ever and
  \<open>GetShardingConfig\<close> panics; with a concurrency of zero \<open>Send\<close> blocks for ever after it too.
\<close>

lemma client_Connect_correct:
  "client_Send rec spans shard NewClientUnary = None \<and>
   client_GetShardingConfig rpc NewClientUnary = Inl NilDereference \<and>
   (case client_Connect dial options NewClientUnary of (c, ok) \<Rightarrow>
      (ok \<longleftrightarrow> dial (Endpoint options) (Headers options)
         (if UseSecure options then [WithBlock] else [WithBlock, WithInsecure])) \<and>
      client_GetShardingConfig rpc c = (if ok then Inr (rpc (Headers options)) else Inl NilDereference) \<and>
      length (filter (\<lambda>w. w = SendIdle) (cu_workers c)) = (if ok then unat (SendConcurrency options) else 0) \<and>
      (client_Send rec spans shard c \<noteq> None \<longleftrightarrow> ok \<and> SendConcurrency options \<noteq> 0))"
  by (auto simp: client_Connect_def NewClientUnary_def Let_def client_Send_def grpcOptions_def
      client_GetShardingConfig_def make_chan_def chan_send_def unat_gt_0 split: if_splits)

end
