(* ===== verification/Exporter.thy ===== *)
theory Exporter
  imports EncoderConc Client
begin

text \<open>
  The OmniShard exporter (\<open>exporter/omnishard/exporter.go\<close>), its configuration and its factory
  (\<open>config.go\<close>, \<open>factory.go\<close>): it feeds the encoder, hands the encoder's records to the
  client, and gets spans that failed back through a retry queue. This theory joins the running
  encoder of \<open>EncoderConc\<close> with the client of \<open>Client\<close>.

  A goroutine that hands a record over blocks in the client's \<open>Send\<close>: \<open>ex_sending\<close> holds
  these, and the goroutine makes no other step until its send is done. The fields from
  \<open>ex_consumed\<close> on are history.
\<close>

section \<open>Configuration and factory\<close>

record Config =
  cfg_Name :: string
  cfg_Endpoint :: string
  cfg_UseSecure :: bool
  cfg_Headers :: "(string \<times> string) list"
  cfg_SendConcurrency :: u64
  cfg_NumWorkers :: u64
  cfg_MaxRecordSize :: u64
  cfg_BatchFlushInterval :: int
  cfg_MaxAllowedSizePerSpan :: u64

definition omnishard_typeStr :: string where
  "omnishard_typeStr = ''omnishard''"

definition omnishard_Type :: string where
  "omnishard_Type = omnishard_typeStr"

definition defSendConcurrency :: u64 where
  "defSendConcurrency = 20"

definition CreateDefaultConfig :: Config where
  "CreateDefaultConfig =
     \<lparr>cfg_Name = [], cfg_Endpoint = [], cfg_UseSecure = False, cfg_Headers = [],
      cfg_SendConcurrency = defSendConcurrency, cfg_NumWorkers = defNumWorkers,
      cfg_MaxRecordSize = defMaxRecordSize, cfg_BatchFlushInterval = defBatchFlushInterval,
      cfg_MaxAllowedSizePerSpan = defMaxAllowedSizePerSpan\<rparr>"

section \<open>State\<close>

definition retryQueueSize :: nat where
  "retryQueueSize = 10000"

datatype goroutine = Worker nat | Flusher nat | StopFlusher nat | OtherGoroutine

datatype startGoroutine = NotConnecting | Connecting | GettingConfig | StartReturned

datatype retryGoroutine = RetryNotStarted | RetryRunning | RetryReturned

record exporter =
  ex_cfg :: Config
  ex_enc :: enc_sys
  ex_client :: ClientUnary
  ex_spansToRetry :: "Span list chan"
  ex_done :: bool
  ex_start :: startGoroutine
  ex_retry :: retryGoroutine
  ex_sending :: "(goroutine \<times> EncodedRecord \<times> Span list \<times> shardInMemConfig) list"
  ex_panics :: "panic list"
  ex_stats :: "recording list"
  ex_consumed :: "Span list"
  ex_delivered :: "Span list"
  ex_dropped :: "(DataDropCode \<times> Span list) list"
  ex_unanswered :: "Span list"
  ex_abandoned :: "Span list"

definition encoderOptions :: "Config \<Rightarrow> Options" where
  "encoderOptions cfg =
     \<lparr>ExporterName = cfg_Name cfg, NumWorkers = cfg_NumWorkers cfg,
      MaxRecordSize = cfg_MaxRecordSize cfg, BatchFlushInterval = cfg_BatchFlushInterval cfg,
      MaxAllowedSizePerSpan = cfg_MaxAllowedSizePerSpan cfg\<rparr>"

definition NewExporter :: "(View list \<Rightarrow> bool) \<Rightarrow> Config \<Rightarrow> ClientUnary \<Rightarrow> exporter option" where
  "NewExporter register cfg cl =
     (case newEncoder register (encoderOptions cfg) of
        None \<Rightarrow> None
      | Some enc \<Rightarrow>
          Some \<lparr>ex_cfg = cfg, ex_enc = enc_sys_init enc, ex_client = cl,
                ex_spansToRetry = make_chan retryQueueSize, ex_done = False,
                ex_start = NotConnecting, ex_retry = RetryNotStarted, ex_sending = [],
                ex_panics = [], ex_stats = [], ex_consumed = [], ex_delivered = [],
                ex_dropped = [], ex_unanswered = [], ex_abandoned = []\<rparr>)"

text \<open>The factory corrects the configuration it is given and makes an exporter on a new client.\<close>

definition CreateTraceExporter :: "(View list \<Rightarrow> bool) \<Rightarrow> Config \<Rightarrow> exporter option" where
  "CreateTraceExporter register cfg =
     (let cfg1 = (if cfg_SendConcurrency cfg < 1
                  then cfg\<lparr>cfg_SendConcurrency := defSendConcurrency\<rparr> else cfg);
          cfg2 = (if cfg_NumWorkers cfg1 < 1 then cfg1\<lparr>cfg_NumWorkers := 1\<rparr> else cfg1)
      in NewExporter register cfg2 NewClientUnary)"

section \<open>Handlers\<close>

definition exporterHooks :: "exporter \<Rightarrow> telemetryHooks" where
  "exporterHooks e = en_hooks (es_enc (ex_enc e))"

definition dropSpans ::
  "DataDropCode \<Rightarrow> Span list \<Rightarrow> EncodedRecord option \<Rightarrow> exporter \<Rightarrow> exporter" where
  "dropSpans code spans rec e =
     e\<lparr>ex_dropped := (code, spans) # ex_dropped e,
       ex_stats := ex_stats e @ [OnDropSpans (exporterHooks e) code (int (length spans)) rec]\<rparr>"

definition resendSpans :: "Span list \<Rightarrow> exporter \<Rightarrow> exporter" where
  "resendSpans spans e =
     (case chan_send spans (ex_spansToRetry e) of
        Some q \<Rightarrow> e\<lparr>ex_spansToRetry := q\<rparr>
      | None \<Rightarrow> dropSpans RetryQueueFull spans None e)"

definition onSpanProcessFail :: "Span list \<Rightarrow> EncoderErrorCode \<Rightarrow> exporter \<Rightarrow> exporter" where
  "onSpanProcessFail failedSpans code e =
     (case code of
        ErrEncoderStopped \<Rightarrow> resendSpans failedSpans e
      | ErrEncodingFailed \<Rightarrow> dropSpans FatalEncodingError failedSpans None e)"

text \<open>\<open>onRecordReady\<close>: the call of \<open>Send\<close> begins; \<open>finishSend\<close> is its end, absent while it blocks.\<close>

definition onRecordReady ::
  "goroutine \<Rightarrow> EncodedRecord \<Rightarrow> Span list \<Rightarrow> shardInMemConfig \<Rightarrow> exporter \<Rightarrow> exporter" where
  "onRecordReady g record spans shard e =
     e\<lparr>ex_sending := ex_sending e @ [(g, record, spans, shard)]\<rparr>"

definition finishSend :: "nat \<Rightarrow> exporter \<Rightarrow> exporter option" where
  "finishSend i e =
     (if i < length (ex_sending e)
      then (case ex_sending e ! i of
              (g, record, spans, shard) \<Rightarrow>
                (case client_Send record spans (origin shard) (ex_client e) of
                   None \<Rightarrow> None
                 | Some c \<Rightarrow>
                     Some (e\<lparr>ex_client := c, ex_sending := removeNth i (ex_sending e)\<rparr>)))
      else None)"

definition requestConfig :: "ShardingConfig option \<Rightarrow> exporter \<Rightarrow> exporter" where
  "requestConfig config e =
     e\<lparr>ex_enc := (ex_enc e)\<lparr>es_enc := SetConfig config (es_enc (ex_enc e))\<rparr>\<rparr>"

text \<open>
  The callback is one step: the request for a new configuration, the resending and the hook follow
  each other at once. In the code other goroutines can come between them; each of the three touches
  one shared object, an atomic cell, a channel and the measurements.
\<close>

definition OnSendResponse ::
  "EncodedRecord \<Rightarrow> Span list \<Rightarrow> ExportResponse \<Rightarrow> exporter \<Rightarrow> exporter" where
  "OnSendResponse record spans response e =
     (let e1 =
        (case RespResultCode response of
           SUCCESS \<Rightarrow> e\<lparr>ex_delivered := spans @ ex_delivered e\<rparr>
         | FAILED_NOT_RETRYABLE \<Rightarrow> dropSpans ExportResponseNotRetryable spans (Some record) e
         | FAILED_RETRYABLE \<Rightarrow> resendSpans spans e
         | SHARD_CONFIG_MISTMATCH \<Rightarrow>
             resendSpans spans (requestConfig (RespShardingConfig response) e)
         | UnknownResultCode _ \<Rightarrow> e\<lparr>ex_unanswered := spans @ ex_unanswered e\<rparr>)
      in e1\<lparr>ex_stats := ex_stats e1 @ [OnSendResponse_hook (exporterHooks e) record response]\<rparr>)"

definition OnSendFail ::
  "EncodedRecord \<Rightarrow> Span list \<Rightarrow> SendErrorCode \<Rightarrow> exporter \<Rightarrow> exporter" where
  "OnSendFail record spans code e =
     (case code of
        ErrFailedNotRetryable \<Rightarrow> dropSpans SendErrNotRetryable spans (Some record) e
      | ErrFailedRetryable \<Rightarrow> resendSpans spans e)"

text \<open>
  The callbacks bound to the events of the encoder and of the client. The recordings of the
  encoder's own hooks stay in its event log.
\<close>

fun handleEvent :: "goroutine \<Rightarrow> event \<Rightarrow> exporter \<Rightarrow> exporter" where
  "handleEvent g (RecordReady record spans shard) e = onRecordReady g record spans shard e"
| "handleEvent g (SpanProcessFail spans code) e = onSpanProcessFail spans code e"
| "handleEvent g (Recorded r) e = e"
| "handleEvent g (Crashed p) e = e\<lparr>ex_panics := p # ex_panics e\<rparr>"

fun handleClientEvent :: "clientEvent \<Rightarrow> exporter \<Rightarrow> exporter" where
  "handleClientEvent (SendResponse record spans response) e = OnSendResponse record spans response e"
| "handleClientEvent (SendFail record spans code) e = OnSendFail record spans code e"
| "handleClientEvent (ClientCrashed p) e = e\<lparr>ex_panics := p # ex_panics e\<rparr>"

section \<open>Operations of the callers and goroutines\<close>

definition fillProcess :: "Process option \<Rightarrow> Span list \<Rightarrow> Span list" where
  "fillProcess proc spans =
     map (\<lambda>s. if SpanProcess s = None then s\<lparr>SpanProcess := proc\<rparr> else s) spans"

datatype consumeResult = TranslationFailed | EncoderStopped | Accepted

text \<open>
  \<open>ConsumeTraceData\<close>; the translation to Jaeger is outside the repository and its result a
  parameter. The result is settled by the check at the start of \<open>EncodeSpans\<close>: what comes after it,
  the count in the wait group and the sending to the queue, which may block, cannot fail. An
  accepted batch is from here on a caller of \<open>EncodeSpans\<close>; that the code's call returns only
  after these steps is an ordering the model leaves out, which adds behaviours.
\<close>

definition ConsumeTraceData ::
  "('td \<Rightarrow> (Process option \<times> Span list) option) \<Rightarrow> codec \<Rightarrow> 'td \<Rightarrow> exporter \<Rightarrow> exporter \<times> consumeResult"
where
  "ConsumeTraceData translate c td e =
     (case translate td of
        None \<Rightarrow> (e, TranslationFailed)
      | Some (proc, pSpans) \<Rightarrow>
          let spans = fillProcess proc pSpans in
          (case enc_exec c (CallerCheck spans) (ex_enc e) of
             None \<Rightarrow> (e, EncoderStopped)
           | Some enc \<Rightarrow> (e\<lparr>ex_enc := enc, ex_consumed := spans @ ex_consumed e\<rparr>, Accepted)))"

text \<open>
  One turn of \<open>processRetryQueue\<close>. The result of \<open>EncodeSpans\<close> is not looked at: a batch that is
  refused because the encoder is stopping is gone. The model lets the goroutine take the next batch
  while the last is still waiting for room in the encoder's queue, which only adds behaviours.
\<close>

definition retryTake :: "codec \<Rightarrow> exporter \<Rightarrow> exporter option" where
  "retryTake c e =
     (if ex_retry e \<noteq> RetryRunning then None
      else (case chan_recv (ex_spansToRetry e) of
              None \<Rightarrow> None
            | Some (spans, q) \<Rightarrow>
                let e1 = e\<lparr>ex_spansToRetry := q\<rparr> in
                (case enc_exec c (CallerCheck spans) (ex_enc e1) of
                   None \<Rightarrow> Some (e1\<lparr>ex_abandoned := spans @ ex_abandoned e1\<rparr>)
                 | Some enc \<Rightarrow> Some (e1\<lparr>ex_enc := enc\<rparr>))))"

definition retryQuit :: "exporter \<Rightarrow> exporter option" where
  "retryQuit e =
     (if ex_retry e = RetryRunning \<and> ex_done e then Some (e\<lparr>ex_retry := RetryReturned\<rparr>) else None)"

text \<open>
  \<open>Start\<close> and \<open>connectAndGetConfig\<close>: the results of the dial and of the call for the
  configuration are parameters. Only the listed options are passed to the client: the headers of
  the configuration are not among them.
\<close>

definition connectionOptions :: "Config \<Rightarrow> ConnectionOptions" where
  "connectionOptions cfg =
     \<lparr>Endpoint = cfg_Endpoint cfg, UseSecure = cfg_UseSecure cfg, Headers = [],
      SendConcurrency = cfg_SendConcurrency cfg\<rparr>"

definition exporter_Start :: "exporter \<Rightarrow> exporter option" where
  "exporter_Start e =
     (if ex_start e = NotConnecting then Some (e\<lparr>ex_start := Connecting\<rparr>) else None)"

definition connectStep :: "(string \<Rightarrow> (string \<times> string) list \<Rightarrow> dialOption list \<Rightarrow> bool) \<Rightarrow> exporter \<Rightarrow> exporter option" where
  "connectStep dial e =
     (if ex_start e = Connecting
      then (case client_Connect dial (connectionOptions (ex_cfg e)) (ex_client e) of
              (c, ok) \<Rightarrow> Some (e\<lparr>ex_client := c, ex_start := if ok then GettingConfig else StartReturned\<rparr>))
      else None)"

definition getConfigStep :: "((string \<times> string) list \<Rightarrow> ShardingConfig option) \<Rightarrow> exporter \<Rightarrow> exporter option" where
  "getConfigStep rpc e =
     (if ex_start e = GettingConfig
      then (case client_GetShardingConfig rpc (ex_client e) of
              Inl p \<Rightarrow> Some (e\<lparr>ex_panics := p # ex_panics e\<rparr>)
            | Inr None \<Rightarrow> Some (e\<lparr>ex_start := StartReturned\<rparr>)
            | Inr (Some config) \<Rightarrow>
                Some ((requestConfig (Some config) e)
                        \<lparr>ex_start := StartReturned, ex_retry := RetryRunning\<rparr>))
      else None)"

text \<open>
  \<open>Shutdown\<close>: close the done channel, which a second call cannot; run the encoder's \<open>Stop\<close>; shut
  the client down.
\<close>

definition shutdownBegin :: "codec \<Rightarrow> exporter \<Rightarrow> exporter option" where
  "shutdownBegin c e =
     (case close_signal (ex_done e) of
        Inl p \<Rightarrow> Some (e\<lparr>ex_panics := p # ex_panics e\<rparr>)
      | Inr closed \<Rightarrow>
          (case enc_exec c StopStep (ex_enc e) of
             None \<Rightarrow> None
           | Some enc \<Rightarrow> Some (e\<lparr>ex_done := closed, ex_enc := enc\<rparr>)))"

definition shutdownEnd :: "exporter \<Rightarrow> exporter option" where
  "shutdownEnd e =
     (if es_stop (ex_enc e) = StopReturned \<and> \<not> cu_done (ex_client e)
      then (case client_Shutdown (ex_client e) of
              (c, evs) \<Rightarrow> Some (fold handleClientEvent evs (e\<lparr>ex_client := c\<rparr>)))
      else None)"

section \<open>The running exporter\<close>

fun actor :: "action \<Rightarrow> goroutine" where
  "actor (WorkerStep i) = Worker i"
| "actor (WorkerQuit i) = Worker i"
| "actor (FlusherTick a) = Flusher a"
| "actor (FlusherStep a) = Flusher a"
| "actor (StopFlush a) = StopFlusher a"
| "actor _ = OtherGoroutine"

text \<open>
  The actions of the encoder that its own goroutines make. A goroutine that is sending makes
  none, and \<open>Stop\<close> waits for the flushes it has started.
\<close>

fun internalAction :: "action \<Rightarrow> stopper \<Rightarrow> bool" where
  "internalAction (CallerCheck _) st = False"
| "internalAction (CallSetConfig _) st = False"
| "internalAction StopStep st = (st \<noteq> NotStopping)"
| "internalAction _ st = True"

fun isStopFlusher :: "goroutine \<Rightarrow> bool" where
  "isStopFlusher (StopFlusher _) = True"
| "isStopFlusher _ = False"

definition encoderMove :: "codec \<Rightarrow> action \<Rightarrow> exporter \<Rightarrow> exporter option" where
  "encoderMove c act e =
     (if \<not> internalAction act (es_stop (ex_enc e)) \<or> actor act \<in> set (map fst (ex_sending e)) \<or>
         act = StopStep \<and> list_ex isStopFlusher (map fst (ex_sending e))
      then None
      else (case enc_exec c act (ex_enc e) of
              None \<Rightarrow> None
            | Some enc \<Rightarrow>
                Some (fold (handleEvent (actor act)) (drop (length (es_events (ex_enc e))) (es_events enc))
                        (e\<lparr>ex_enc := enc\<rparr>))))"

definition clientStep :: "clientMove \<Rightarrow> exporter \<Rightarrow> exporter option" where
  "clientStep m e =
     (case client_move m (ex_client e) of
        None \<Rightarrow> None
      | Some (c, evs) \<Rightarrow> Some (fold handleClientEvent evs (e\<lparr>ex_client := c\<rparr>)))"

datatype exporterAction =
    XConsume "(Process option \<times> Span list) option"
  | XEncoder action
  | XFinishSend nat
  | XClient clientMove
  | XRetryTake
  | XRetryQuit
  | XStart
  | XConnect bool
  | XGetConfig "ShardingConfig option"
  | XShutdownBegin
  | XShutdownEnd

fun isConsume :: "exporterAction \<Rightarrow> bool" where
  "isConsume (XConsume td) = True"
| "isConsume _ = False"

fun exporter_exec :: "codec \<Rightarrow> exporterAction \<Rightarrow> exporter \<Rightarrow> exporter option" where
  "exporter_exec c (XConsume td) e = Some (fst (ConsumeTraceData (\<lambda>x. x) c td e))"
| "exporter_exec c (XEncoder act) e = encoderMove c act e"
| "exporter_exec c (XFinishSend i) e = finishSend i e"
| "exporter_exec c (XClient m) e = clientStep m e"
| "exporter_exec c XRetryTake e = retryTake c e"
| "exporter_exec c XRetryQuit e = retryQuit e"
| "exporter_exec c XStart e = exporter_Start e"
| "exporter_exec c (XConnect ok) e = connectStep (\<lambda>_ _ _. ok) e"
| "exporter_exec c (XGetConfig cfg) e = getConfigStep (\<lambda>_. cfg) e"
| "exporter_exec c XShutdownBegin e = shutdownBegin c e"
| "exporter_exec c XShutdownEnd e = shutdownEnd e"

inductive exporter_step :: "codec \<Rightarrow> exporter \<Rightarrow> exporter \<Rightarrow> bool" for c where
  act: "exporter_exec c a e = Some e' \<Longrightarrow> exporter_step c e e'"

inductive_cases exporter_stepE: "exporter_step c e e'"

fun exporter_run :: "codec \<Rightarrow> exporterAction list \<Rightarrow> exporter \<Rightarrow> exporter option" where
  "exporter_run c [] e = Some e"
| "exporter_run c (a # as) e =
     (case exporter_exec c a e of None \<Rightarrow> None | Some e1 \<Rightarrow> exporter_run c as e1)"

lemma exporter_run_reachable: "exporter_run c as e = Some e' \<Longrightarrow> (exporter_step c)\<^sup>*\<^sup>* e e'"
proof (induction "as" arbitrary: e)
  case (Cons a "as")
  then obtain e1 where "exporter_exec c a e = Some e1" "exporter_run c as e1 = Some e'"
    by (auto split: option.splits)
  with Cons.IH show ?case by (meson exporter_step.act converse_rtranclp_into_rtranclp)
qed simp

lemma exporter_run_append:
  "exporter_run c as e = Some e1 \<Longrightarrow> exporter_run c bs e1 = Some e2 \<Longrightarrow> exporter_run c (as @ bs) e = Some e2"
  by (induction "as" arbitrary: e) (auto split: option.splits)

lemma finishSend_cases:
  assumes "finishSend i e = Some e'"
  obtains g rec spans shard cl where "i < length (ex_sending e)"
    "ex_sending e ! i = (g, rec, spans, shard)"
    "client_Send rec spans (origin shard) (ex_client e) = Some cl"
    "e' = e\<lparr>ex_client := cl, ex_sending := removeNth i (ex_sending e)\<rparr>"
  using assms by (auto simp: finishSend_def split: if_splits prod.splits option.splits)

lemma retryTake_cases:
  assumes "retryTake c e = Some e'"
  obtains (refused) spans q where "chan_recv (ex_spansToRetry e) = Some (spans, q)"
      "enc_exec c (CallerCheck spans) (ex_enc e) = None"
      "e' = e\<lparr>ex_spansToRetry := q, ex_abandoned := spans @ ex_abandoned e\<rparr>"
  | (encoding) spans q enc where "chan_recv (ex_spansToRetry e) = Some (spans, q)"
      "enc_exec c (CallerCheck spans) (ex_enc e) = Some enc"
      "e' = e\<lparr>ex_spansToRetry := q, ex_enc := enc\<rparr>"
  using assms
  by (fastforce simp: retryTake_def Let_def simp del: enc_exec.simps split: if_splits option.splits prod.splits)


lemma encoderMove_cases:
  assumes "encoderMove c act e = Some e'"
  obtains enc evs where "enc_exec c act (ex_enc e) = Some enc" "actor act \<notin> set (map fst (ex_sending e))"
    "e' = fold (handleEvent (actor act)) evs (e\<lparr>ex_enc := enc\<rparr>)"
    "es_events enc = es_events (ex_enc e) @ evs" "internalAction act (es_stop (ex_enc e))"
proof -
  note result = that
  from assms obtain enc where enc: "enc_exec c act (ex_enc e) = Some enc"
    "actor act \<notin> set (map fst (ex_sending e))" "internalAction act (es_stop (ex_enc e))"
    "e' = fold (handleEvent (actor act)) (drop (length (es_events (ex_enc e))) (es_events enc)) (e\<lparr>ex_enc := enc\<rparr>)"
    by (auto simp: encoderMove_def split: if_splits option.splits)
  from enc_exec_events [OF enc(1)] obtain evs where evs: "es_events enc = es_events (ex_enc e) @ evs" by blast
  with enc show thesis by (intro result [of enc evs]) simp_all
qed

lemma clientStep_cases:
  assumes "clientStep m e = Some e'"
  obtains cl evs where "client_move m (ex_client e) = Some (cl, evs)"
    "e' = fold handleClientEvent evs (e\<lparr>ex_client := cl\<rparr>)"
  using assms by (auto simp: clientStep_def split: option.splits)

lemma shutdownBegin_cases:
  assumes "shutdownBegin c e = Some e'"
  obtains (twice) "ex_done e" "e' = e\<lparr>ex_panics := CloseOfClosedChannel # ex_panics e\<rparr>"
  | (stopping) enc where "\<not> ex_done e" "enc_exec c StopStep (ex_enc e) = Some enc"
      "e' = e\<lparr>ex_done := True, ex_enc := enc\<rparr>"
  using assms
  by (cases "ex_done e") (auto simp: shutdownBegin_def close_signal_def simp del: enc_exec.simps split: option.splits)

lemma shutdownEnd_cases:
  assumes "shutdownEnd e = Some e'"
  obtains cl evs where "client_Shutdown (ex_client e) = (cl, evs)"
    "e' = fold handleClientEvent evs (e\<lparr>ex_client := cl\<rparr>)" "es_stop (ex_enc e) = StopReturned"
    "\<not> cu_done (ex_client e)"
  using assms by (auto simp: shutdownEnd_def split: if_splits prod.splits)

text \<open>The steps of \<open>connectAndGetConfig\<close>, of its start and of the end of the retry goroutine.\<close>

lemma connectStep_cases:
  assumes "connectStep dial e = Some e'"
  obtains cl ok where "ex_start e = Connecting"
    "client_Connect dial (connectionOptions (ex_cfg e)) (ex_client e) = (cl, ok)"
    "e' = e\<lparr>ex_client := cl, ex_start := if ok then GettingConfig else StartReturned\<rparr>"
  using assms by (auto simp: connectStep_def split: if_splits prod.splits)

lemma getConfigStep_cases:
  assumes "getConfigStep rpc e = Some e'"
  obtains (panicked) p where "ex_start e = GettingConfig" "e' = e\<lparr>ex_panics := p # ex_panics e\<rparr>"
  | (failed) "ex_start e = GettingConfig" "e' = e\<lparr>ex_start := StartReturned\<rparr>"
  | (got) cfg where "ex_start e = GettingConfig"
      "e' = (requestConfig (Some cfg) e)\<lparr>ex_start := StartReturned, ex_retry := RetryRunning\<rparr>"
  using assms by (auto simp: getConfigStep_def split: if_splits sum.splits option.splits)

text \<open>The ways the exporter can move.\<close>

lemma exporter_exec_cases:
  assumes "exporter_exec c a e = Some e'"
  obtains (refused) td where "a = XConsume td" "e' = e"
  | (consumed) td enc spans where "a = XConsume td" "enc_exec c (CallerCheck spans) (ex_enc e) = Some enc"
      "e' = e\<lparr>ex_enc := enc, ex_consumed := spans @ ex_consumed e\<rparr>"
  | (encoder) act enc evs where "a = XEncoder act" "enc_exec c act (ex_enc e) = Some enc"
      "e' = fold (handleEvent (actor act)) evs (e\<lparr>ex_enc := enc\<rparr>)"
      "es_events enc = es_events (ex_enc e) @ evs" "internalAction act (es_stop (ex_enc e))"
  | (sent) i g rec spans shard cl where "a = XFinishSend i" "i < length (ex_sending e)"
      "ex_sending e ! i = (g, rec, spans, shard)" "client_Send rec spans (origin shard) (ex_client e) = Some cl"
      "e' = e\<lparr>ex_client := cl, ex_sending := removeNth i (ex_sending e)\<rparr>"
  | (client) m cl evs where "a = XClient m" "client_move m (ex_client e) = Some (cl, evs)"
      "e' = fold handleClientEvent evs (e\<lparr>ex_client := cl\<rparr>)"
  | (abandoned) spans q where "a = XRetryTake" "chan_recv (ex_spansToRetry e) = Some (spans, q)"
      "enc_exec c (CallerCheck spans) (ex_enc e) = None"
      "e' = e\<lparr>ex_spansToRetry := q, ex_abandoned := spans @ ex_abandoned e\<rparr>"
  | (retried) spans q enc where "a = XRetryTake" "chan_recv (ex_spansToRetry e) = Some (spans, q)"
      "enc_exec c (CallerCheck spans) (ex_enc e) = Some enc" "e' = e\<lparr>ex_spansToRetry := q, ex_enc := enc\<rparr>"
  | (retry_quit) "a = XRetryQuit" "ex_retry e = RetryRunning" "e' = e\<lparr>ex_retry := RetryReturned\<rparr>"
  | (start) "a = XStart" "ex_start e = NotConnecting" "e' = e\<lparr>ex_start := Connecting\<rparr>"
  | (connected) ok cl b where "a = XConnect ok" "ex_start e = Connecting"
      "client_Connect (\<lambda>_ _ _. ok) (connectionOptions (ex_cfg e)) (ex_client e) = (cl, b)"
      "e' = e\<lparr>ex_client := cl, ex_start := if b then GettingConfig else StartReturned\<rparr>"
  | (config_panicked) cfg p where "a = XGetConfig cfg" "ex_start e = GettingConfig"
      "e' = e\<lparr>ex_panics := p # ex_panics e\<rparr>"
  | (config_failed) cfg where "a = XGetConfig cfg" "ex_start e = GettingConfig" "e' = e\<lparr>ex_start := StartReturned\<rparr>"
  | (config_got) cfg cfg' where "a = XGetConfig cfg" "ex_start e = GettingConfig"
      "e' = (requestConfig (Some cfg') e)\<lparr>ex_start := StartReturned, ex_retry := RetryRunning\<rparr>"
  | (stop_twice) "a = XShutdownBegin" "ex_done e" "e' = e\<lparr>ex_panics := CloseOfClosedChannel # ex_panics e\<rparr>"
  | (stopping) enc where "a = XShutdownBegin" "enc_exec c StopStep (ex_enc e) = Some enc"
      "e' = e\<lparr>ex_done := True, ex_enc := enc\<rparr>"
  | (shutdown) cl evs where "a = XShutdownEnd" "client_Shutdown (ex_client e) = (cl, evs)"
      "e' = fold handleClientEvent evs (e\<lparr>ex_client := cl\<rparr>)"
proof (cases a)
  case (XConsume td)
  with assms show thesis
    by (auto simp: ConsumeTraceData_def Let_def simp del: enc_exec.simps intro: refused consumed
        split: option.splits prod.splits)
next
  case (XEncoder act)
  with assms have "encoderMove c act e = Some e'" by simp
  then show thesis by (rule encoderMove_cases) (rule encoder [OF XEncoder])
next
  case (XFinishSend i)
  with assms have "finishSend i e = Some e'" by simp
  then show thesis by (rule finishSend_cases) (rule sent [OF XFinishSend])
next
  case (XClient m)
  with assms have "clientStep m e = Some e'" by simp
  then show thesis by (rule clientStep_cases) (rule client [OF XClient])
next
  case XRetryTake
  with assms have "retryTake c e = Some e'" by simp
  then show thesis by (rule retryTake_cases) (rule abandoned [OF XRetryTake] retried [OF XRetryTake]; assumption)+
next
  case (XConnect ok)
  with assms have "connectStep (\<lambda>_ _ _. ok) e = Some e'" by simp
  then show thesis by (rule connectStep_cases) (rule connected [OF XConnect])
next
  case (XGetConfig cfg)
  with assms have "getConfigStep (\<lambda>_. cfg) e = Some e'" by simp
  then show thesis
    by (rule getConfigStep_cases)
      (rule config_panicked [OF XGetConfig] config_failed [OF XGetConfig] config_got [OF XGetConfig]; assumption)+
next
  case XShutdownBegin
  with assms have "shutdownBegin c e = Some e'" by simp
  then show thesis
    by (rule shutdownBegin_cases) (rule stop_twice [OF XShutdownBegin] stopping [OF XShutdownBegin]; assumption)+
next
  case XShutdownEnd
  with assms have "shutdownEnd e = Some e'" by simp
  then show thesis by (rule shutdownEnd_cases) (rule shutdown [OF XShutdownEnd])
next
  case XRetryQuit
  with assms have "ex_retry e = RetryRunning" "e' = e\<lparr>ex_retry := RetryReturned\<rparr>"
    by (auto simp: retryQuit_def split: if_splits)
  then show thesis by (rule retry_quit [OF XRetryQuit])
next
  case XStart
  with assms have "ex_start e = NotConnecting" "e' = e\<lparr>ex_start := Connecting\<rparr>"
    by (auto simp: exporter_Start_def split: if_splits)
  then show thesis by (rule start [OF XStart])
qed

section \<open>The account of spans\<close>

definition sendingKeys :: "exporter \<Rightarrow> Span multiset" where
  "sendingKeys e = (\<Sum>h\<leftarrow>ex_sending e. spanKeys (fst (snd (snd h))))"

definition retryKeys :: "exporter \<Rightarrow> Span multiset" where
  "retryKeys e = spanKeys (concat (chan_items (ex_spansToRetry e)))"

definition settledKeys :: "exporter \<Rightarrow> Span multiset" where
  "settledKeys e = spanKeys (ex_delivered e) + spanKeys (concat (map snd (ex_dropped e))) +
     spanKeys (ex_unanswered e) + spanKeys (ex_abandoned e)"

definition clientKeys :: "exporter \<Rightarrow> Span multiset" where
  "clientKeys e = client_unary.requestKeys (ex_client e)"

text \<open>Where a span can be once it has left the encoder.\<close>

definition outsideKeys :: "exporter \<Rightarrow> Span multiset" where
  "outsideKeys e = sendingKeys e + clientKeys e + retryKeys e + settledKeys e"

lemmas outside_defs = outsideKeys_def sendingKeys_def clientKeys_def retryKeys_def settledKeys_def

lemma dropSpans_simps [simp]:
  "ex_enc (dropSpans code spans rec e) = ex_enc e" "ex_client (dropSpans code spans rec e) = ex_client e"
  "ex_panics (dropSpans code spans rec e) = ex_panics e"
  "ex_sending (dropSpans code spans rec e) = ex_sending e"
  "ex_consumed (dropSpans code spans rec e) = ex_consumed e"
  "ex_dropped (dropSpans code spans rec e) = (code, spans) # ex_dropped e"
  "outsideKeys (dropSpans code spans rec e) = outsideKeys e + spanKeys spans"
  by (simp_all add: dropSpans_def outside_defs ac_simps)

lemma resendSpans_cases:
  obtains (queued) q where "chan_send spans (ex_spansToRetry e) = Some q"
      "resendSpans spans e = e\<lparr>ex_spansToRetry := q\<rparr>"
  | (full) "chan_send spans (ex_spansToRetry e) = None"
      "resendSpans spans e = dropSpans RetryQueueFull spans None e"
  by (cases "chan_send spans (ex_spansToRetry e)") (auto simp: resendSpans_def)

lemma resendSpans_simps [simp]:
  "ex_enc (resendSpans spans e) = ex_enc e" "ex_client (resendSpans spans e) = ex_client e"
  "ex_panics (resendSpans spans e) = ex_panics e" "ex_sending (resendSpans spans e) = ex_sending e"
  "ex_consumed (resendSpans spans e) = ex_consumed e"
  by (cases rule: resendSpans_cases [of spans e]; simp)+

lemma resendSpans_keys [simp]: "outsideKeys (resendSpans spans e) = outsideKeys e + spanKeys spans"
proof (cases rule: resendSpans_cases [of spans e])
  case (queued q)
  with gochan.send_Some [OF queued(1)] show ?thesis by (simp add: outside_defs ac_simps)
qed simp

lemma onSpanProcessFail_simps [simp]:
  "ex_enc (onSpanProcessFail spans code e) = ex_enc e"
  "ex_client (onSpanProcessFail spans code e) = ex_client e"
  "ex_panics (onSpanProcessFail spans code e) = ex_panics e"
  "ex_sending (onSpanProcessFail spans code e) = ex_sending e"
  "ex_consumed (onSpanProcessFail spans code e) = ex_consumed e"
  "outsideKeys (onSpanProcessFail spans code e) = outsideKeys e + spanKeys spans"
  by (cases code; simp add: onSpanProcessFail_def)+

lemma onRecordReady_simps [simp]:
  "ex_enc (onRecordReady g rec spans sh e) = ex_enc e"
  "ex_client (onRecordReady g rec spans sh e) = ex_client e"
  "ex_panics (onRecordReady g rec spans sh e) = ex_panics e"
  "ex_consumed (onRecordReady g rec spans sh e) = ex_consumed e"
  "outsideKeys (onRecordReady g rec spans sh e) = outsideKeys e + spanKeys spans"
  by (simp_all add: onRecordReady_def outside_defs ac_simps)

lemma outsideKeys_history [simp]:
  "outsideKeys (e\<lparr>ex_panics := ps\<rparr>) = outsideKeys e" "outsideKeys (e\<lparr>ex_stats := st\<rparr>) = outsideKeys e"
  "outsideKeys (e\<lparr>ex_enc := enc\<rparr>) = outsideKeys e"
  by (simp_all add: outside_defs)

lemma handleEvent_frame:
  "ex_enc (handleEvent g ev e) = ex_enc e \<and> ex_client (handleEvent g ev e) = ex_client e \<and>
   ex_consumed (handleEvent g ev e) = ex_consumed e \<and>
   outsideKeys (handleEvent g ev e) = outsideKeys e + spanKeys (eventSpans ev)"
  by (cases ev) simp_all

lemma handleEvents_frame:
  "ex_enc (fold (handleEvent g) evs e) = ex_enc e \<and> ex_client (fold (handleEvent g) evs e) = ex_client e \<and>
   ex_consumed (fold (handleEvent g) evs e) = ex_consumed e \<and>
   outsideKeys (fold (handleEvent g) evs e) = outsideKeys e + eventKeys evs"
  by (induction evs arbitrary: e) (simp_all add: handleEvent_frame ac_simps)

lemma handleEvent_panics: "ex_panics (handleEvent g ev e) = [] \<Longrightarrow> ex_panics e = []"
  by (cases ev) simp_all

lemma handleEvents_panics: "ex_panics (fold (handleEvent g) evs e) = [] \<Longrightarrow> ex_panics e = []"
  by (induction evs arbitrary: e) (auto dest: handleEvent_panics)

lemma requestConfig_simps [simp]:
  "ex_client (requestConfig cfg e) = ex_client e" "ex_panics (requestConfig cfg e) = ex_panics e"
  "ex_sending (requestConfig cfg e) = ex_sending e" "ex_consumed (requestConfig cfg e) = ex_consumed e"
  "outsideKeys (requestConfig cfg e) = outsideKeys e"
  "sysKeys (ex_enc (requestConfig cfg e)) = sysKeys (ex_enc e)"
  by (simp_all add: requestConfig_def outside_defs sysKeys_def encKeys_def queueKeys_def)

lemma requestConfig_step: "enc_step c (ex_enc e) (ex_enc (requestConfig cfg e))"
  by (rule enc_step.act [of c "CallSetConfig cfg"]) (simp add: requestConfig_def)

text \<open>The callbacks of the client settle a request or send its spans back.\<close>

lemma OnSendResponse_keys:
  "outsideKeys (OnSendResponse rec spans resp e) = outsideKeys e + spanKeys spans \<and>
   sysKeys (ex_enc (OnSendResponse rec spans resp e)) = sysKeys (ex_enc e) \<and>
   ex_panics (OnSendResponse rec spans resp e) = ex_panics e \<and>
   ex_consumed (OnSendResponse rec spans resp e) = ex_consumed e"
proof -
  have "outsideKeys (e\<lparr>ex_delivered := spans @ ex_delivered e\<rparr>) = outsideKeys e + spanKeys spans"
    "outsideKeys (e\<lparr>ex_unanswered := spans @ ex_unanswered e\<rparr>) = outsideKeys e + spanKeys spans"
    by (simp_all add: outside_defs ac_simps)
  then show ?thesis by (cases "RespResultCode resp") (simp_all add: OnSendResponse_def Let_def)
qed

lemma OnSendFail_keys:
  "outsideKeys (OnSendFail rec spans code e) = outsideKeys e + spanKeys spans \<and>
   sysKeys (ex_enc (OnSendFail rec spans code e)) = sysKeys (ex_enc e) \<and>
   ex_panics (OnSendFail rec spans code e) = ex_panics e \<and>
   ex_consumed (OnSendFail rec spans code e) = ex_consumed e"
  by (cases code) (simp_all add: OnSendFail_def)

lemma handleClientEvent_keys:
  "outsideKeys (handleClientEvent ev e) = outsideKeys e + spanKeys (clientEventSpans ev) \<and>
   sysKeys (ex_enc (handleClientEvent ev e)) = sysKeys (ex_enc e) \<and>
   ex_consumed (handleClientEvent ev e) = ex_consumed e"
  using OnSendResponse_keys OnSendFail_keys by (cases ev) (simp_all add: outside_defs)

lemma handleClientEvent_panics:
  "ex_panics (handleClientEvent ev e) = (case ev of ClientCrashed p \<Rightarrow> [p] | _ \<Rightarrow> []) @ ex_panics e"
  using OnSendResponse_keys OnSendFail_keys by (cases ev) simp_all

lemma handleClientEvents_keys:
  "outsideKeys (fold handleClientEvent evs e) = outsideKeys e + clientEventKeys evs \<and>
   sysKeys (ex_enc (fold handleClientEvent evs e)) = sysKeys (ex_enc e) \<and>
   ex_consumed (fold handleClientEvent evs e) = ex_consumed e"
  by (induction evs arbitrary: e) (simp_all add: handleClientEvent_keys ac_simps)

lemma handleClientEvents_panics:
  "ex_panics (fold handleClientEvent evs e) = [] \<Longrightarrow>
     ex_panics e = [] \<and> (\<forall>p. ClientCrashed p \<notin> set evs)"
proof (induction evs arbitrary: e)
  case (Cons ev evs)
  then have "ex_panics (handleClientEvent ev e) = []" "\<forall>p. ClientCrashed p \<notin> set evs" by simp_all
  then show ?case unfolding handleClientEvent_panics by (cases ev) simp_all
qed simp

definition accounted_for :: "exporter \<Rightarrow> bool" where
  "accounted_for e \<longleftrightarrow>
     (ex_panics e = [] \<longrightarrow> spanKeys (ex_consumed e) = sysKeys (ex_enc e) + outsideKeys e)"

lemma client_Shutdown_keys:
  "client_Shutdown c = (c', evs) \<Longrightarrow>
     client_unary.requestKeys c' = client_unary.requestKeys c \<and> clientEventKeys evs = {#}"
  by (auto simp: client_Shutdown_def client_unary.requestKeys_def client_pending_def
      queuedRequests_def callingRequests_def split: sum.splits)

lemma client_Connect_keys:
  assumes "client_Connect dial options c = (c', ok)" and "client_pending c = []"
  shows "client_pending c' = []"
proof -
  have "concat (map calling (replicate n SendIdle)) = []" for n by (induction n) simp_all
  with assms show ?thesis
    by (auto simp: client_Connect_def Let_def client_pending_def queuedRequests_def
        callingRequests_def make_chan_def split: if_splits)
qed

lemma CallerCheck_keys:
  "enc_exec c (CallerCheck spans) s = Some t \<Longrightarrow>
     sysKeys t = sysKeys s + spanKeys spans \<and> es_events t = es_events s"
  by (auto simp: sysKeys_def ac_simps split: if_splits)

text \<open>The state before the connection is made: nothing has been handed to the client.\<close>

definition beforeConnect :: "exporter \<Rightarrow> bool" where
  "beforeConnect e \<longleftrightarrow>
     (ex_start e = NotConnecting \<or> ex_start e = Connecting \<longrightarrow>
        client_pending (ex_client e) = [] \<and> cu_requestsToSend (ex_client e) = None \<and>
        cu_workers (ex_client e) = [])"

lemma removeNth_sum:
  fixes f :: "'a \<Rightarrow> 'b multiset"
  shows "i < length xs \<Longrightarrow> (\<Sum>x\<leftarrow>removeNth i xs. f x) + f (xs ! i) = (\<Sum>x\<leftarrow>xs. f x)"
  by (subst (3) id_take_nth_drop [of i xs]) (simp_all add: removeNth_def ac_simps)

lemma finishSend_keys:
  assumes "i < length (ex_sending e)" and "ex_sending e ! i = (g, rec, spans, shard)"
    and "client_Send rec spans (origin shard) (ex_client e) = Some cl"
  shows "outsideKeys (e\<lparr>ex_client := cl, ex_sending := removeNth i (ex_sending e)\<rparr>) = outsideKeys e"
proof -
  from removeNth_sum [OF assms(1), of "\<lambda>h. spanKeys (fst (snd (snd h)))"] assms(2)
  have "(\<Sum>h\<leftarrow>removeNth i (ex_sending e). spanKeys (fst (snd (snd h)))) + spanKeys spans = sendingKeys e"
    by (simp add: sendingKeys_def)
  moreover from client_unary.send_keys [OF assms(3)]
  have "client_unary.requestKeys cl = clientKeys e + spanKeys spans" by (simp add: clientKeys_def)
  ultimately show ?thesis
    by (simp add: outsideKeys_def sendingKeys_def clientKeys_def retryKeys_def settledKeys_def ac_simps)
qed

text \<open>What a step does to the encoder and to the account.\<close>

definition goodMove :: "codec \<Rightarrow> exporter \<Rightarrow> exporter \<Rightarrow> bool" where
  "goodMove c e e' \<longleftrightarrow> (enc_step c)\<^sup>*\<^sup>* (ex_enc e) (ex_enc e') \<and>
     (ex_panics e' = [] \<longrightarrow> ex_panics e = [] \<and>
        sysKeys (ex_enc e') + outsideKeys e' + spanKeys (ex_consumed e) =
        sysKeys (ex_enc e) + outsideKeys e + spanKeys (ex_consumed e'))"

lemma goodMoveI:
  assumes "(enc_step c)\<^sup>*\<^sup>* (ex_enc e) (ex_enc e')" and "ex_panics e' = [] \<Longrightarrow> ex_panics e = []"
    and "ex_panics e' = [] \<Longrightarrow> sysKeys (ex_enc e') + outsideKeys e' + spanKeys (ex_consumed e) =
      sysKeys (ex_enc e) + outsideKeys e + spanKeys (ex_consumed e')"
  shows "goodMove c e e'"
  using assms by (simp add: goodMove_def)

lemma goodMove_encoder:
  assumes "enc_exec c act (ex_enc e) = Some enc" and "es_events enc = es_events (ex_enc e) @ evs"
    and "internalAction act (es_stop (ex_enc e))" and "inv_shape c (ex_enc e)"
  shows "goodMove c e (fold (handleEvent (actor act)) evs (e\<lparr>ex_enc := enc\<rparr>))"
proof -
  note fr = handleEvents_frame [of "actor act" evs "e\<lparr>ex_enc := enc\<rparr>"]
  have "es_accepted enc = es_accepted (ex_enc e)"
    using assms(3) by (intro enc_exec_accepted [OF assms(1)]) auto
  with sysKeys_exec [OF assms(1,4)] have "sysKeys enc + eventKeys evs = sysKeys (ex_enc e)"
    by (simp add: assms(2) ac_simps)
  with fr show ?thesis
    using enc_step.act [OF assms(1)] handleEvents_panics [of "actor act" evs "e\<lparr>ex_enc := enc\<rparr>"]
    by (intro goodMoveI) (auto simp: ac_simps)
qed

lemma goodMove_consume:
  assumes "enc_exec c (CallerCheck spans) (ex_enc e) = Some enc"
  shows "goodMove c e (e\<lparr>ex_enc := enc, ex_consumed := spans @ ex_consumed e\<rparr>)"
  using CallerCheck_keys [OF assms] enc_step.act [OF assms]
  by (intro goodMoveI) (auto simp: outside_defs ac_simps)

lemma goodMove_abandon:
  assumes "chan_recv (ex_spansToRetry e) = Some (spans, q)"
  shows "goodMove c e (e\<lparr>ex_spansToRetry := q, ex_abandoned := spans @ ex_abandoned e\<rparr>)"
  using gochan.recv_Some [OF assms] by (intro goodMoveI) (simp_all add: outside_defs ac_simps)

lemma goodMove_retry:
  assumes "chan_recv (ex_spansToRetry e) = Some (spans, q)"
    and "enc_exec c (CallerCheck spans) (ex_enc e) = Some enc"
  shows "goodMove c e (e\<lparr>ex_spansToRetry := q, ex_enc := enc\<rparr>)"
  using CallerCheck_keys [OF assms(2)] enc_step.act [OF assms(2)] gochan.recv_Some [OF assms(1)]
  by (intro goodMoveI) (auto simp: outside_defs ac_simps)

lemma OnSendResponse_enc: "(enc_step c)\<^sup>*\<^sup>* (ex_enc e) (ex_enc (OnSendResponse rec spans resp e))"
  using requestConfig_step [of c e "RespShardingConfig resp"]
  by (cases "RespResultCode resp") (auto simp: OnSendResponse_def Let_def)

lemma OnSendFail_enc: "ex_enc (OnSendFail rec spans code e) = ex_enc e"
  by (cases code) (simp_all add: OnSendFail_def)

lemma handleClientEvents_enc: "(enc_step c)\<^sup>*\<^sup>* (ex_enc e) (ex_enc (fold handleClientEvent evs e))"
proof (induction evs arbitrary: e)
  case (Cons ev evs)
  have "(enc_step c)\<^sup>*\<^sup>* (ex_enc e) (ex_enc (handleClientEvent ev e))"
    by (cases ev) (simp_all add: OnSendResponse_enc OnSendFail_enc)
  with Cons.IH [of "handleClientEvent ev e"] show ?case by (simp add: rtranclp_trans)
qed simp

lemma goodMove_clientEvents:
  assumes "ex_panics (fold handleClientEvent evs (e\<lparr>ex_client := cl\<rparr>)) = [] \<Longrightarrow>
      client_unary.requestKeys cl + clientEventKeys evs = clientKeys e"
  shows "goodMove c e (fold handleClientEvent evs (e\<lparr>ex_client := cl\<rparr>))"
proof (rule goodMoveI)
  let ?e = "e\<lparr>ex_client := cl\<rparr>"
  show "(enc_step c)\<^sup>*\<^sup>* (ex_enc e) (ex_enc (fold handleClientEvent evs ?e))"
    using handleClientEvents_enc [of c ?e evs] by simp
  assume p: "ex_panics (fold handleClientEvent evs ?e) = []"
  from handleClientEvents_panics [OF p] show "ex_panics e = []" by simp
  from assms [OF p] have "outsideKeys ?e + clientEventKeys evs = outsideKeys e"
    by (simp add: outsideKeys_def sendingKeys_def retryKeys_def settledKeys_def clientKeys_def ac_simps)
  with handleClientEvents_keys [of evs ?e]
  show "sysKeys (ex_enc (fold handleClientEvent evs ?e)) + outsideKeys (fold handleClientEvent evs ?e) +
      spanKeys (ex_consumed e) =
    sysKeys (ex_enc e) + outsideKeys e + spanKeys (ex_consumed (fold handleClientEvent evs ?e))"
    by (simp add: ac_simps)
qed

lemma goodMove_client:
  assumes "client_move m (ex_client e) = Some (cl, evs)"
  shows "goodMove c e (fold handleClientEvent evs (e\<lparr>ex_client := cl\<rparr>))"
  by (rule goodMove_clientEvents)
    (use client_unary.move_keys [OF assms] handleClientEvents_panics in \<open>auto simp: clientKeys_def\<close>)

lemma goodMove_shutdownEnd:
  assumes "client_Shutdown (ex_client e) = (cl, evs)"
  shows "goodMove c e (fold handleClientEvent evs (e\<lparr>ex_client := cl\<rparr>))"
  by (rule goodMove_clientEvents) (use client_Shutdown_keys [OF assms] in \<open>simp add: clientKeys_def\<close>)

lemma goodMove_shutdownBegin:
  assumes "enc_exec c StopStep (ex_enc e) = Some enc" and "inv_shape c (ex_enc e)"
  shows "goodMove c e (e\<lparr>ex_done := True, ex_enc := enc\<rparr>)"
proof -
  have acc: "es_accepted enc = es_accepted (ex_enc e)" by (rule enc_exec_accepted [OF assms(1)]) simp
  from enc_exec_events [OF assms(1)] obtain evs where evs: "es_events enc = es_events (ex_enc e) @ evs" by blast
  have "eventKeys evs = {#}"
    using assms(1) evs stop_step_keys [of "es_enc (ex_enc e)" "es_stop (ex_enc e)"]
    by (auto split: option.splits)
  with sysKeys_exec [OF assms] acc evs have "sysKeys enc = sysKeys (ex_enc e)"
    by (simp add: ac_simps)
  then show ?thesis
    using enc_step.act [OF assms(1)] by (intro goodMoveI) (auto simp: outside_defs)
qed

lemma goodMove_connect:
  assumes "client_Connect dial options (ex_client e) = (cl, ok)" and "client_pending (ex_client e) = []"
  shows "goodMove c e (e\<lparr>ex_client := cl, ex_start := st\<rparr>)"
proof -
  have "clientKeys (e\<lparr>ex_client := cl, ex_start := st\<rparr>) = clientKeys e"
    using client_Connect_keys [OF assms] assms(2) by (simp add: clientKeys_def client_unary.requestKeys_def)
  then show ?thesis
    by (intro goodMoveI) (simp_all add: outsideKeys_def sendingKeys_def retryKeys_def settledKeys_def)
qed

lemma goodMove_config: "goodMove c e ((requestConfig cfg e)\<lparr>ex_start := st, ex_retry := r\<rparr>)"
proof -
  have "outsideKeys ((requestConfig cfg e)\<lparr>ex_start := st, ex_retry := r\<rparr>) = outsideKeys (requestConfig cfg e)"
    by (simp add: outside_defs)
  then show ?thesis using requestConfig_step [of c e cfg] by (intro goodMoveI) auto
qed

section \<open>The connection\<close>

text \<open>Before the connection is made the client has no queue and no goroutines.\<close>

lemma handleClientEvent_client:
  "ex_client (handleClientEvent ev e) = ex_client e \<and> ex_start (handleClientEvent ev e) = ex_start e"
proof (cases ev)
  case (SendResponse rec spans resp)
  have "ex_start (resendSpans spans x) = ex_start x" for x
    by (auto simp: resendSpans_def dropSpans_def split: option.split)
  with SendResponse show ?thesis
    by (cases "RespResultCode resp") (simp_all add: OnSendResponse_def Let_def dropSpans_def requestConfig_def)
next
  case (SendFail rec spans code)
  have "ex_start (resendSpans spans x) = ex_start x" for x
    by (auto simp: resendSpans_def dropSpans_def split: option.split)
  with SendFail show ?thesis by (cases code) (simp_all add: OnSendFail_def dropSpans_def)
qed simp

lemma handleClientEvents_client:
  "ex_client (fold handleClientEvent evs e) = ex_client e \<and>
   ex_start (fold handleClientEvent evs e) = ex_start e"
  by (induction evs arbitrary: e) (simp_all add: handleClientEvent_client)

lemma handleEvent_start: "ex_start (handleEvent g ev e) = ex_start e"
proof (cases ev)
  case (SpanProcessFail spans code)
  then show ?thesis
    by (cases code)
      (auto simp: onSpanProcessFail_def resendSpans_def dropSpans_def split: option.split)
qed (simp_all add: onRecordReady_def)

lemma handleEvents_start: "ex_start (fold (handleEvent g) evs e) = ex_start e"
  by (induction evs arbitrary: e) (simp_all add: handleEvent_start)

lemma beforeConnect_same:
  "beforeConnect e \<Longrightarrow> ex_client e' = ex_client e \<Longrightarrow> ex_start e' = ex_start e \<Longrightarrow> beforeConnect e'"
  by (simp add: beforeConnect_def)

lemma beforeConnect_exec:
  assumes "exporter_exec c a e = Some e'" and "beforeConnect e"
  shows "beforeConnect e'"
  using assms(1)
proof (cases rule: exporter_exec_cases)
  case (encoder act enc evs)
  then show ?thesis
    by (intro beforeConnect_same [OF assms(2)]) (simp_all add: handleEvents_frame handleEvents_start)
next
  case (sent i g rec spans shard cl)
  with assms(2) show ?thesis by (auto simp: beforeConnect_def client_Send_def)
next
  case (client m cl evs)
  from client(2) assms(2) show ?thesis
    by (cases rule: client_move_cases) (auto simp: client(3) beforeConnect_def handleClientEvents_client)
next
  case (shutdown cl evs)
  with assms(2) client_Shutdown_frame [OF shutdown(2)] show ?thesis
    by (auto simp: beforeConnect_def handleClientEvents_client client_Shutdown_def split: sum.splits)
qed (use assms(2) in \<open>auto simp: beforeConnect_def\<close>)

lemma goodMove_exec:
  assumes "exporter_exec c a e = Some e'" and "inv_shape c (ex_enc e)" and "beforeConnect e"
  shows "goodMove c e e'"
  using assms(1)
proof (cases rule: exporter_exec_cases)
  case (encoder act enc evs)
  with goodMove_encoder [OF encoder(2,4,5) assms(2)] show ?thesis by simp
next
  case (sent i g rec spans shard cl)
  with finishSend_keys [OF sent(2-4)] show ?thesis by (intro goodMoveI) simp_all
next
  case (connected ok cl b)
  with assms(3) goodMove_connect [OF connected(3)] show ?thesis by (simp add: beforeConnect_def)
next
  case (stopping enc)
  with goodMove_shutdownBegin [OF stopping(2) assms(2)] show ?thesis by simp
qed (auto intro: goodMove_consume goodMove_client goodMove_abandon goodMove_retry goodMove_config
    goodMove_shutdownEnd goodMoveI simp: outside_defs)

section \<open>The contract of Send\<close>

definition requestOk :: "codec \<Rightarrow> requestToSend \<Rightarrow> bool" where
  "requestOk c r \<longleftrightarrow>
     (let sh = toInMem (ReqShard (exportRequest r))
      in belongsToShard sh (PartitionKey (ReqRecord (exportRequest r))) \<and>
         (\<forall>s \<in> set (originalSpans r). belongsToShard sh (spanPartitionKey c s)))"

fun handoverOk :: "codec \<Rightarrow> goroutine \<times> EncodedRecord \<times> Span list \<times> shardInMemConfig \<Rightarrow> bool" where
  "handoverOk c (g, rec, spans, sh) \<longleftrightarrow> eventRouted c (RecordReady rec spans sh)"

definition sendsOk :: "codec \<Rightarrow> exporter \<Rightarrow> bool" where
  "sendsOk c e \<longleftrightarrow> (\<forall>h \<in> set (ex_sending e). handoverOk c h) \<and>
     (\<forall>r \<in> set (client_pending (ex_client e)). requestOk c r)"

lemma sendsOk_same:
  assumes "sendsOk c e" and "set (ex_sending e') \<subseteq> set (ex_sending e)"
    and "set (client_pending (ex_client e')) \<subseteq> set (client_pending (ex_client e))"
  shows "sendsOk c e'"
  using assms unfolding sendsOk_def by blast

lemma sendsOk_event: "sendsOk c e \<Longrightarrow> eventRouted c ev \<Longrightarrow> sendsOk c (handleEvent g ev e)"
  by (cases ev) (auto simp: sendsOk_def onRecordReady_def)

lemma sendsOk_events:
  "sendsOk c e \<Longrightarrow> \<forall>ev \<in> set evs. eventRouted c ev \<Longrightarrow> sendsOk c (fold (handleEvent g) evs e)"
  by (induction evs arbitrary: e) (simp_all add: sendsOk_event)

lemma handleClientEvents_sending: "ex_sending (fold handleClientEvent evs e) = ex_sending e"
proof (induction evs arbitrary: e)
  case (Cons ev evs)
  have "ex_sending (handleClientEvent ev e) = ex_sending e"
  proof (cases ev)
    case (SendResponse rec spans resp)
    then show ?thesis
      by (cases "RespResultCode resp") (simp_all add: OnSendResponse_def Let_def)
  next
    case (SendFail rec spans code)
    then show ?thesis by (cases code) (simp_all add: OnSendFail_def)
  qed simp
  with Cons.IH show ?case by simp
qed simp

lemma removeNth_subset: "set (removeNth i xs) \<subseteq> set xs"
  by (auto simp: removeNth_def dest: in_set_takeD in_set_dropD)

lemma client_move_pending_subset:
  assumes "client_move m c = Some (c', evs)"
  shows "set (client_pending c') \<subseteq> set (client_pending c)"
  using client_unary.move_answers [OF assms]
  by (metis mset_eq_setD set_mset_add_mset_insert set_mset_mset subset_insertI subset_refl)

lemma sendsOk_sent:
  assumes "sendsOk c e" and "i < length (ex_sending e)" and "ex_sending e ! i = (g, rec, spans, sh)"
    and "client_Send rec spans (origin sh) (ex_client e) = Some cl"
  shows "sendsOk c (e\<lparr>ex_client := cl, ex_sending := removeNth i (ex_sending e)\<rparr>)"
proof -
  from assms(1-3) have "handoverOk c (g, rec, spans, sh)" by (metis sendsOk_def nth_mem)
  then have "requestOk c (newRequest rec spans (origin sh))"
    by (simp add: requestOk_def newRequest_def)
  moreover from client_unary.send_pending [OF assms(4)]
  have "set (client_pending cl) = insert (newRequest rec spans (origin sh)) (set (client_pending (ex_client e)))"
    by (metis set_mset_add_mset_insert set_mset_mset)
  ultimately show ?thesis
    using assms(1) removeNth_subset [of i "ex_sending e"] by (auto simp: sendsOk_def)
qed

lemma sendsOk_exec:
  assumes "exporter_exec c a e = Some e'" and ok: "sendsOk c e" and "inv_shape c (ex_enc e)"
    and "beforeConnect e"
  shows "sendsOk c e'"
  using assms(1)
proof (cases rule: exporter_exec_cases)
  case (encoder act enc evs)
  from inv_shape_exec [OF encoder(2) assms(3)] have "\<forall>ev \<in> set evs. eventRouted c ev"
    by (simp add: inv_shape_def encoder(4))
  with ok show ?thesis unfolding encoder(3) by (intro sendsOk_events) (simp_all add: sendsOk_def)
next
  case (sent i g rec spans shard cl)
  with sendsOk_sent [OF ok sent(2-4)] show ?thesis by simp
next
  case (client m cl evs)
  with client_move_pending_subset [OF client(2)] show ?thesis
    by (intro sendsOk_same [OF ok]) (simp_all add: handleClientEvents_client handleClientEvents_sending)
next
  case (connected ok' cl b)
  with assms(4) client_Connect_keys [OF connected(3)] ok show ?thesis by (simp add: sendsOk_def beforeConnect_def)
next
  case (shutdown cl evs)
  with client_Shutdown_frame [OF shutdown(2)] show ?thesis
    by (intro sendsOk_same [OF ok]) (simp_all add: handleClientEvents_client handleClientEvents_sending)
qed (use ok in \<open>auto simp: sendsOk_def\<close>)

section \<open>The hooks\<close>

lemma handleClientEvents_enc_hooks: "exporterHooks (fold handleClientEvent evs e) = exporterHooks e"
proof (induction evs arbitrary: e)
  case (Cons ev evs)
  have "exporterHooks (handleClientEvent ev e) = exporterHooks e"
  proof (cases ev)
    case (SendResponse rec spans resp)
    then show ?thesis
      by (cases "RespResultCode resp")
        (simp_all add: OnSendResponse_def exporterHooks_def requestConfig_def SetConfig_def dropSpans_def Let_def)
  next
    case (SendFail rec spans code)
    then show ?thesis by (cases code) (simp_all add: OnSendFail_def exporterHooks_def dropSpans_def)
  qed (simp add: exporterHooks_def)
  with Cons.IH show ?case by simp
qed simp

lemma exporterHooks_exec: "exporter_exec c a e = Some e' \<Longrightarrow> exporterHooks e' = exporterHooks e"
  by (erule exporter_exec_cases)
    (simp_all add: handleClientEvents_enc_hooks del: enc_exec.simps, auto simp: exporterHooks_def handleEvents_frame
      requestConfig_def SetConfig_def simp del: enc_exec.simps dest: enc_exec_hooks)

section \<open>The invariant\<close>

definition exporter_started :: "string \<Rightarrow> exporter \<Rightarrow> bool" where
  "exporter_started name e \<longleftrightarrow>
     (\<exists>register cfg. CreateTraceExporter register cfg = Some e \<and> cfg_Name cfg = name)"

definition exporter_inv :: "codec \<Rightarrow> string \<Rightarrow> exporter \<Rightarrow> bool" where
  "exporter_inv c name e \<longleftrightarrow> enc_inv c (ex_enc e) \<and> beforeConnect e \<and> accounted_for e \<and>
     sendsOk c e \<and> exporterHooks e = newTelemetryHooks name []"

lemma exporter_inv_init:
  assumes "CreateTraceExporter register cfg = Some e"
  shows "exporter_inv c (cfg_Name cfg) e"
proof -
  from assms obtain cfg2 enc where new: "newEncoder register (encoderOptions cfg2) = Some enc"
    and name: "cfg_Name cfg2 = cfg_Name cfg"
    and e: "ex_enc e = enc_sys_init enc" "ex_client e = NewClientUnary" "ex_sending e = []"
      "ex_spansToRetry e = make_chan retryQueueSize" "ex_stats e = []" "ex_consumed e = []"
      "ex_delivered e = []" "ex_dropped e = []" "ex_unanswered e = []" "ex_abandoned e = []"
    by (auto simp: CreateTraceExporter_def NewExporter_def Let_def split: option.splits if_splits)
  from new have hooks: "en_hooks enc = newTelemetryHooks (cfg_Name cfg) []"
    and enc0: "chan_items (en_spanBatchesToProcess enc) = []" "en_heap enc = []"
    by (auto simp: newEncoder_def populateDefaults_def encoderOptions_def Let_def name make_chan_def
        split: if_splits)
  have pending: "client_pending NewClientUnary = []"
    by (simp add: client_pending_def NewClientUnary_def queuedRequests_def callingRequests_def)
  show ?thesis
    unfolding exporter_inv_def
  proof (intro conjI)
    show "enc_inv c (ex_enc e)" using enc_inv_init [OF new] by (simp add: e)
    show "beforeConnect e"
      using pending by (simp add: beforeConnect_def e NewClientUnary_def)
    show "accounted_for e"
      by (simp add: accounted_for_def e outside_defs client_unary.requestKeys_def pending make_chan_def
          sysKeys_def enc_sys_init_def encKeys_def queueKeys_def enc0)
    show "sendsOk c e" by (simp add: sendsOk_def e pending)
    show "exporterHooks e = newTelemetryHooks (cfg_Name cfg) []"
      by (simp add: exporterHooks_def e enc_sys_init_def hooks)
  qed
qed

interpretation exporter_inv: transition_invariant "exporter_started name" "exporter_step c" "exporter_inv c name"
  for c name
proof
  fix e assume "exporter_started name e"
  then show "exporter_inv c name e" by (auto simp: exporter_started_def exporter_inv_init)
next
  fix e e' assume "exporter_step c e e'" and inv: "exporter_inv c name e"
  then obtain a where a: "exporter_exec c a e = Some e'" by (auto elim: exporter_stepE)
  from inv have enc: "enc_inv c (ex_enc e)" "inv_shape c (ex_enc e)" "beforeConnect e"
    by (auto simp: exporter_inv_def enc_inv_def)
  note good = goodMove_exec [OF a enc(2,3)]
  from inv good have "accounted_for e'"
    by (auto simp: exporter_inv_def accounted_for_def goodMove_def ac_simps)
  moreover from good enc_inv.run_inv [OF _ enc(1)] have "enc_inv c (ex_enc e')"
    by (auto simp: goodMove_def)
  ultimately show "exporter_inv c name e'"
    using beforeConnect_exec [OF a enc(3)] sendsOk_exec [OF a _ enc(2,3)] exporterHooks_exec [OF a] inv
    by (auto simp: exporter_inv_def)
qed

section \<open>A concrete run\<close>

definition sampleConfig :: Config where
  "sampleConfig =
     \<lparr>cfg_Name = ''omnishard'', cfg_Endpoint = ''localhost:123'', cfg_UseSecure = False,
      cfg_Headers = [], cfg_SendConcurrency = 1, cfg_NumWorkers = 2, cfg_MaxRecordSize = 10,
      cfg_BatchFlushInterval = 1, cfg_MaxAllowedSizePerSpan = 60\<rparr>"

definition sampleExporter :: exporter where
  "sampleExporter =
     \<lparr>ex_cfg = sampleConfig, ex_enc = enc_sys_init sampleEnc, ex_client = NewClientUnary,
      ex_spansToRetry = make_chan retryQueueSize, ex_done = False, ex_start = NotConnecting,
      ex_retry = RetryNotStarted, ex_sending = [], ex_panics = [], ex_stats = [], ex_consumed = [],
      ex_delivered = [], ex_dropped = [], ex_unanswered = [], ex_abandoned = []\<rparr>"

lemma sampleExporter_new: "CreateTraceExporter (\<lambda>_. True) sampleConfig = Some sampleExporter"
proof -
  have "encoderOptions sampleConfig = sampleOptions"
    by (simp add: encoderOptions_def sampleConfig_def sampleOptions_def)
  then show ?thesis
    by (simp add: CreateTraceExporter_def NewExporter_def sampleEnc_new sampleExporter_def Let_def)
      (simp add: sampleConfig_def)
qed

definition configuredExporter :: exporter where
  "configuredExporter = sampleExporter\<lparr>ex_enc := sampleSys4, ex_client := sampleClient [] SendIdle,
     ex_start := StartReturned, ex_retry := RetryRunning\<rparr>"

lemma encoder_run_lift:
  assumes "enc_run c (replicate n ConfigStep) (ex_enc e) = Some t" and "es_events t = es_events (ex_enc e)"
    and "ex_sending e = []"
  shows "exporter_run c (replicate n (XEncoder ConfigStep)) e = Some (e\<lparr>ex_enc := t\<rparr>)"
  using assms
proof (induction n arbitrary: e)
  case (Suc n)
  then obtain s where s: "enc_exec c ConfigStep (ex_enc e) = Some s" "enc_run c (replicate n ConfigStep) s = Some t"
    by (auto simp del: enc_exec.simps split: option.splits)
  have ev: "es_events s = es_events (ex_enc e)"
    using enc_exec_events [OF s(1)] enc_run_events [OF s(2)] unfolding Suc.prems(2) by auto
  with s(1) Suc.prems(3) have "exporter_exec c (XEncoder ConfigStep) e = Some (e\<lparr>ex_enc := s\<rparr>)"
    by (simp add: encoderMove_def del: enc_exec.simps)
  with ev Suc.prems(2,3) s(2) Suc.IH [of "e\<lparr>ex_enc := s\<rparr>"] show ?case by simp
qed simp

lemma configuredExporter_run:
  "exporter_run sampleCodec ([XStart, XConnect True, XGetConfig (Some testConfig4)] @
     replicate 8 (XEncoder ConfigStep)) sampleExporter = Some configuredExporter"
proof -
  have c: "connectionOptions sampleConfig = sampleConn"
    by (simp add: connectionOptions_def sampleConfig_def sampleConn_def)
  have r: "client_GetShardingConfig (\<lambda>_. Some testConfig4) (sampleClient [] SendIdle) = Inr (Some testConfig4)"
    by (simp add: client_GetShardingConfig_def sampleClient_def)
  let ?e = "sampleExporter\<lparr>ex_client := sampleClient [] SendIdle, ex_start := StartReturned, ex_retry := RetryRunning,
    ex_enc := (enc_sys_init sampleEnc)\<lparr>es_enc := SetConfig (Some testConfig4) sampleEnc\<rparr>\<rparr>"
  have "exporter_run sampleCodec [XStart, XConnect True, XGetConfig (Some testConfig4)] sampleExporter = Some ?e"
    by (simp add: sampleExporter_def exporter_Start_def connectStep_def c r sampleClient_connected
        getConfigStep_def requestConfig_def enc_sys_init_def)
  moreover have "exporter_run sampleCodec (replicate 8 (XEncoder ConfigStep)) ?e = Some (?e\<lparr>ex_enc := sampleSys4\<rparr>)"
  proof (rule encoder_run_lift)
    show "enc_run sampleCodec (replicate 8 ConfigStep) (ex_enc ?e) = Some sampleSys4"
      using sampleSys4_turn [of sampleCodec] by simp
  qed (simp_all add: sampleSys4_def enc_sys_init_def sampleExporter_def)
  moreover have "?e\<lparr>ex_enc := sampleSys4\<rparr> = configuredExporter" by (simp add: configuredExporter_def)
  ultimately show ?thesis by (metis exporter_run_append)
qed

definition sendingExporter :: exporter where
  "sendingExporter = configuredExporter\<lparr>ex_enc := sampleSent, ex_consumed := [sampleSpan 3 0],
     ex_sending := [(Flusher 2, sampleSentRecord, [sampleSpan 3 0], shards inMem4 ! 2)]\<rparr>"

lemma sampleFlushStats: "fold (handleEvent g) (flushStats h sampleSentRecord) e = e"
  by (simp add: flushStats_def OnCompressed_def sampleSentRecord_def)

lemma sendingExporter_run:
  "exporter_run sampleCodec [XConsume (Some (None, [sampleSpan 3 0])), XEncoder (CallerAdd 0),
     XEncoder (CallerSend 0), XEncoder (WorkerStep 0), XEncoder (WorkerStep 0), XEncoder (WorkerStep 0),
     XEncoder (WorkerStep 0), XEncoder (WorkerStep 0), XEncoder (FlusherTick 2)] configuredExporter =
   Some sendingExporter"
proof -
  have f: "fillProcess None [sampleSpan 3 0] = [sampleSpan 3 0]"
    by (simp add: fillProcess_def)
  show ?thesis
    by (simp add: configuredExporter_def sampleExporter_def ConsumeTraceData_def f encoderMove_def
      sampleSys4_def sample_eval sendingExporter_def sampleSent_def sampleEncoded_def sample_flush flusher_tick_def
      onRecordReady_def sampleFlushStats sampleEnc_request(6) Let_def)
qed

text \<open>The record is sent and taken by the sending goroutine, and then rejected by the server.\<close>

definition calledExporter :: exporter where
  "calledExporter = sendingExporter\<lparr>ex_sending := [], ex_client := sampleClient []
     (SendCalling (newRequest sampleSentRecord [sampleSpan 3 0] (origin (shards inMem4 ! 2))))\<rparr>"

lemma calledExporter_run:
  "exporter_run sampleCodec [XFinishSend 0, XClient (TakeRequest 0)] sendingExporter = Some calledExporter"
  by (simp add: sendingExporter_def configuredExporter_def sampleExporter_def calledExporter_def
      finishSend_def client_Send_def sampleClient_def chan_send_def chan_recv_def sampleConn_def
      clientStep_def removeNth_def)

definition rejection :: ExportResponse where
  "rejection = \<lparr>RespResultCode = FAILED_NOT_RETRYABLE, RespShardingConfig = None\<rparr>"

definition rejectedExporter :: exporter where
  "rejectedExporter =
     OnSendResponse sampleSentRecord [sampleSpan 3 0] rejection
       (calledExporter\<lparr>ex_client := sampleClient [] SendIdle\<rparr>)"

lemma rejectedExporter_run:
  "exporter_run sampleCodec [XClient (ExportReturns 0 (ExportOk rejection))] calledExporter =
     Some rejectedExporter"
  by (simp add: calledExporter_def rejectedExporter_def clientStep_def sampleClient_def
      sendRequest_def newRequest_def sampleConn_def)

text \<open>Another answer asks for a retry: the span is queued again.\<close>

definition retriedExporter :: exporter where
  "retriedExporter =
     OnSendResponse sampleSentRecord [sampleSpan 3 0] (rejection\<lparr>RespResultCode := FAILED_RETRYABLE\<rparr>)
       (calledExporter\<lparr>ex_client := sampleClient [] SendIdle\<rparr>)"

lemma sampleExporter_started: "exporter_started ''omnishard'' sampleExporter"
proof -
  have "cfg_Name sampleConfig = ''omnishard''" by (simp add: sampleConfig_def)
  with sampleExporter_new show ?thesis unfolding exporter_started_def by blast
qed

lemmas sample_reachConfigured = exporter_run_reachable [OF configuredExporter_run]
lemmas sample_reachSendingX =
  rtranclp_trans [OF sample_reachConfigured exporter_run_reachable [OF sendingExporter_run]]
lemmas sample_reachCalled =
  rtranclp_trans [OF sample_reachSendingX exporter_run_reachable [OF calledExporter_run]]
lemmas sample_reachRejected =
  rtranclp_trans [OF sample_reachCalled exporter_run_reachable [OF rejectedExporter_run]]

lemma sampleExporter_facts:
  "ex_consumed sendingExporter = [sampleSpan 3 0]" "ex_panics sendingExporter = []"
  "ex_panics calledExporter = []"
  "ex_consumed rejectedExporter = [sampleSpan 3 0]" "ex_panics rejectedExporter = []"
  "ex_dropped rejectedExporter = [(ExportResponseNotRetryable, [sampleSpan 3 0])]"
  "ex_delivered rejectedExporter = []" "ex_unanswered rejectedExporter = []"
  "ex_abandoned rejectedExporter = []" "ex_sending rejectedExporter = []"
  "chan_items (ex_spansToRetry rejectedExporter) = []"
  "client_pending (ex_client calledExporter) =
     [newRequest sampleSentRecord [sampleSpan 3 0] (origin (shards inMem4 ! 2))]"
  by (simp_all add: rejectedExporter_def calledExporter_def sendingExporter_def configuredExporter_def
      sampleExporter_def OnSendResponse_def dropSpans_def rejection_def make_chan_def client_pending_def
      queuedRequests_def callingRequests_def sampleClient_def Let_def)

lemma retriedExporter_facts:
  "ex_retry retriedExporter = RetryRunning" "\<not> isStopping (es_enc (ex_enc retriedExporter))"
  "chan_items (ex_spansToRetry retriedExporter) = [[sampleSpan 3 0]]"
  "es_checked (ex_enc retriedExporter) = []"
proof -
  have "es_checked sampleSent = []" "\<not> isStopping (es_enc sampleSent)"
    by (simp_all add: sampleSent_def sampleEncoded_def sampleSys4_def flusher_tick_def sampleEnc4_facts
      sample_flush emit_def isStopping_def setShardEncoder_def sampleEnc_request(6))
  then show "ex_retry retriedExporter = RetryRunning" "\<not> isStopping (es_enc (ex_enc retriedExporter))"
    "chan_items (ex_spansToRetry retriedExporter) = [[sampleSpan 3 0]]"
    "es_checked (ex_enc retriedExporter) = []"
    by (simp_all add: retriedExporter_def calledExporter_def sendingExporter_def configuredExporter_def
      sampleExporter_def OnSendResponse_def resendSpans_def rejection_def make_chan_def retryQueueSize_def
      chan_send_def Let_def)
qed

section \<open>Construction\<close>

lemma CreateTraceExporter_config:
  obtains cfg2 where "CreateTraceExporter register cfg = NewExporter register cfg2 NewClientUnary"
    "0 < cfg_SendConcurrency cfg2" "0 < cfg_NumWorkers cfg2"
    "0 < cfg_SendConcurrency cfg \<and> 0 < cfg_NumWorkers cfg \<longrightarrow> cfg2 = cfg"
proof
  let ?cfg1 = "if cfg_SendConcurrency cfg < 1 then cfg\<lparr>cfg_SendConcurrency := defSendConcurrency\<rparr> else cfg"
  let ?cfg2 = "if cfg_NumWorkers ?cfg1 < 1 then ?cfg1\<lparr>cfg_NumWorkers := 1\<rparr> else ?cfg1"
  show "CreateTraceExporter register cfg = NewExporter register ?cfg2 NewClientUnary"
    by (simp add: CreateTraceExporter_def Let_def)
  show "0 < cfg_SendConcurrency ?cfg2" "0 < cfg_NumWorkers ?cfg2"
    "0 < cfg_SendConcurrency cfg \<and> 0 < cfg_NumWorkers cfg \<longrightarrow> ?cfg2 = cfg"
    by (simp_all add: word_less_1 word_gt_0 defSendConcurrency_def)
qed

lemma NewExporter_cases:
  "case NewExporter register cfg cl of
     None \<Rightarrow> \<not> register metricViews
   | Some e \<Rightarrow> register metricViews \<and> ex_cfg e = cfg \<and>
       en_options (es_enc (ex_enc e)) = populateDefaults (encoderOptions cfg) \<and>
       (0 < cfg_NumWorkers cfg \<longrightarrow> NumWorkers (en_options (es_enc (ex_enc e))) = cfg_NumWorkers cfg)"
  by (simp add: NewExporter_def newEncoder_def enc_sys_init_def Let_def)
    (simp add: populateDefaults_def encoderOptions_def Let_def)

section \<open>The retry queue drains\<close>

lemma retryTake_accepts:
  assumes "ex_retry e = RetryRunning" and "\<not> isStopping (es_enc (ex_enc e))"
    and "chan_items (ex_spansToRetry e) = spans # rest"
  shows "retryTake c e = Some (e\<lparr>ex_spansToRetry := (ex_spansToRetry e)\<lparr>chan_items := rest\<rparr>,
     ex_enc := (ex_enc e)\<lparr>es_checked := spans # es_checked (ex_enc e),
                          es_accepted := spans @ es_accepted (ex_enc e)\<rparr>\<rparr>)"
  using assms by (simp add: retryTake_def chan_recv_def)

lemma retry_drains:
  assumes "ex_retry e = RetryRunning" and "\<not> isStopping (es_enc (ex_enc e))"
    and "chan_items (ex_spansToRetry e) = batches"
  shows "\<exists>e'. (exporter_step c)\<^sup>*\<^sup>* e e' \<and> chan_items (ex_spansToRetry e') = [] \<and>
     es_checked (ex_enc e') = rev batches @ es_checked (ex_enc e) \<and>
     ex_dropped e' = ex_dropped e \<and> ex_abandoned e' = ex_abandoned e"
  using assms
proof (induction batches arbitrary: e)
  case Nil
  then show ?case by (intro exI [of _ e]) simp
next
  case (Cons spans rest)
  let ?e = "e\<lparr>ex_spansToRetry := (ex_spansToRetry e)\<lparr>chan_items := rest\<rparr>,
     ex_enc := (ex_enc e)\<lparr>es_checked := spans # es_checked (ex_enc e),
                          es_accepted := spans @ es_accepted (ex_enc e)\<rparr>\<rparr>"
  from retryTake_accepts [OF Cons.prems] have step: "exporter_step c e ?e"
    by (intro exporter_step.act [of c XRetryTake]) simp
  from Cons.IH [of ?e] Cons.prems obtain e' where "(exporter_step c)\<^sup>*\<^sup>* ?e e'"
    "chan_items (ex_spansToRetry e') = []" "es_checked (ex_enc e') = rev rest @ spans # es_checked (ex_enc e)"
    "ex_dropped e' = ex_dropped e" "ex_abandoned e' = ex_abandoned e"
    by auto
  with step show ?case by (intro exI [of _ e']) (auto intro: converse_rtranclp_into_rtranclp)
qed

section \<open>Properties\<close>

text \<open>
  C1: no span the exporter has accepted is lost or duplicated without a trace. In every state that
  callers, encoder, client, retry queue, start and shutdown can reach together, unless a
  goroutine has panicked, the spans consumed are, with their multiplicities, those inside the
  encoder, in a call of \<open>Send\<close>, pending at the client, in the retry queue, delivered, dropped
  under a drop code, answered with an unknown result code, or taken from the retry queue while
  the encoder was stopping.
\<close>

theorem exporter_accounts_for_every_span:
  assumes "CreateTraceExporter register cfg = Some e0" and "(exporter_step c)\<^sup>*\<^sup>* e0 e" and "ex_panics e = []"
  shows "spanKeys (ex_consumed e) =
     sysKeys (ex_enc e) + (\<Sum>h\<leftarrow>ex_sending e. spanKeys (fst (snd (snd h)))) +
     (\<Sum>r\<leftarrow>client_pending (ex_client e). spanKeys (originalSpans r)) +
     spanKeys (concat (chan_items (ex_spansToRetry e))) + spanKeys (ex_delivered e) +
     spanKeys (concat (map snd (ex_dropped e))) + spanKeys (ex_unanswered e) + spanKeys (ex_abandoned e)"
proof -
  from assms(1) have "exporter_started (cfg_Name cfg) e0" by (auto simp: exporter_started_def)
  from exporter_inv.reachable_inv [OF this assms(2)] assms(3)
  have "spanKeys (ex_consumed e) = sysKeys (ex_enc e) + outsideKeys e"
    by (simp add: exporter_inv_def accounted_for_def)
  then show ?thesis
    by (simp add: outside_defs client_unary.requestKeys_def ac_simps)
qed

theorem exporter_accounts_for_every_span_witness:
  "spanKeys [sampleSpan 3 0] =
     sysKeys (ex_enc rejectedExporter) + client_unary.requestKeys (ex_client rejectedExporter) +
     spanKeys [sampleSpan 3 0] \<and>
   ex_dropped rejectedExporter = [(ExportResponseNotRetryable, [sampleSpan 3 0])]"
  using exporter_accounts_for_every_span
    [OF sampleExporter_new sample_reachRejected]
  by (simp add: sampleExporter_facts client_unary.requestKeys_def)

text \<open>
  C4: the exporter keeps the contract of the client's \<open>Send\<close> under every interleaving: in each
  request pending at the client the record's partition key, and the keys of all the original
  spans, lie in the range of the shard the request names, and the same holds of each record
  that is being handed over.
\<close>

theorem exporter_send_contract:
  assumes "CreateTraceExporter register cfg = Some e0" and "(exporter_step c)\<^sup>*\<^sup>* e0 e"
    and "r \<in> set (client_pending (ex_client e))"
  shows "belongsToShard (toInMem (ReqShard (exportRequest r))) (PartitionKey (ReqRecord (exportRequest r))) \<and>
    (\<forall>s \<in> set (originalSpans r). belongsToShard (toInMem (ReqShard (exportRequest r))) (spanPartitionKey c s))"
proof -
  from assms(1) have "exporter_started (cfg_Name cfg) e0" by (auto simp: exporter_started_def)
  from exporter_inv.reachable_inv [OF this assms(2)] assms(3) show ?thesis
    by (auto simp: exporter_inv_def sendsOk_def requestOk_def Let_def)
qed

theorem exporter_send_contract_witness:
  "belongsToShard (toInMem (origin (shards inMem4 ! 2))) (PartitionKey sampleSentRecord) \<and>
   client_pending (ex_client calledExporter) \<noteq> []"
  using exporter_send_contract [OF sampleExporter_new sample_reachCalled]
  by (simp add: sampleExporter_facts newRequest_def)

text \<open>
  spans whose failure is retryable are encoded again. While the encoder accepts spans, the
  goroutine of the retry queue can always empty the queue: every batch in it becomes a
  caller of \<open>EncodeSpans\<close>, oldest first, and none is dropped or abandoned on the way.
\<close>

lemma exporter_retry_drains:
  assumes "ex_retry e = RetryRunning" and "\<not> isStopping (es_enc (ex_enc e))"
  shows "\<exists>e'. (exporter_step c)\<^sup>*\<^sup>* e e' \<and> chan_items (ex_spansToRetry e') = [] \<and>
     es_checked (ex_enc e') = rev (chan_items (ex_spansToRetry e)) @ es_checked (ex_enc e) \<and>
     ex_dropped e' = ex_dropped e \<and> ex_abandoned e' = ex_abandoned e"
  using assms by (rule retry_drains) simp

lemma exporter_retry_drains_witness:
  "\<exists>e'. (exporter_step sampleCodec)\<^sup>*\<^sup>* retriedExporter e' \<and> chan_items (ex_spansToRetry e') = [] \<and>
     es_checked (ex_enc e') = [[sampleSpan 3 0]] \<and> chan_items (ex_spansToRetry retriedExporter) \<noteq> []"
  using exporter_retry_drains [OF retriedExporter_facts(1,2), of sampleCodec]
  by (auto simp: retriedExporter_facts)

text \<open>
  The factory makes a working exporter of any configuration. It fails exactly when the metric
  views cannot be registered; the exporter has at least one sending goroutine and one
  worker, and the encoder is given the limits of the configuration, with its own defaults for
  the ones that are zero. A configuration with positive counts is used as it is, and the default
  configuration is one of them.
\<close>

lemma CreateTraceExporter_correct:
  "(CreateTraceExporter register cfg = None \<longleftrightarrow> \<not> register metricViews) \<and>
   (\<forall>e. CreateTraceExporter register cfg = Some e \<longrightarrow>
      0 < cfg_SendConcurrency (ex_cfg e) \<and> 0 < cfg_NumWorkers (ex_cfg e) \<and>
      en_options (es_enc (ex_enc e)) = populateDefaults (encoderOptions (ex_cfg e)) \<and>
      NumWorkers (en_options (es_enc (ex_enc e))) = cfg_NumWorkers (ex_cfg e) \<and>
      (0 < cfg_SendConcurrency cfg \<and> 0 < cfg_NumWorkers cfg \<longrightarrow> ex_cfg e = cfg)) \<and>
   0 < cfg_SendConcurrency CreateDefaultConfig \<and> 0 < cfg_NumWorkers CreateDefaultConfig \<and>
   populateDefaults (encoderOptions CreateDefaultConfig) = encoderOptions CreateDefaultConfig"
proof -
  have "0 < cfg_SendConcurrency CreateDefaultConfig \<and> 0 < cfg_NumWorkers CreateDefaultConfig"
    "populateDefaults (encoderOptions CreateDefaultConfig) = encoderOptions CreateDefaultConfig"
    by (simp_all add: CreateDefaultConfig_def encoderOptions_def populateDefaults_def defs
        defSendConcurrency_def defNumWorkers_def Let_def)
  moreover obtain cfg2 where cfg2: "CreateTraceExporter register cfg = NewExporter register cfg2 NewClientUnary"
    "0 < cfg_SendConcurrency cfg2" "0 < cfg_NumWorkers cfg2"
    "0 < cfg_SendConcurrency cfg \<and> 0 < cfg_NumWorkers cfg \<longrightarrow> cfg2 = cfg"
    by (rule CreateTraceExporter_config)
  ultimately show ?thesis
    using NewExporter_cases [of register cfg2 NewClientUnary]
    by (cases "NewExporter register cfg2 NewClientUnary") auto
qed

lemma CreateTraceExporter_correct_witness:
  "\<exists>e. CreateTraceExporter (\<lambda>_. True) CreateDefaultConfig = Some e \<and> ex_cfg e = CreateDefaultConfig"
  using CreateTraceExporter_correct [of "\<lambda>_. True" CreateDefaultConfig]
  by (cases "CreateTraceExporter (\<lambda>_. True) CreateDefaultConfig") auto

end
