(* ===== verification/Delivery.thy ===== *)
theory Delivery
  imports EncoderLoad Exporter
begin

text \<open>
  The exporter gets rid of what it has accepted. The moves of its goroutines that carry spans on are
  singled out, with the answers of a server that does not ask for a retry; the load of the
  exporter, which each of them makes smaller, bounds how many there can be, and where none is
  left every span is settled. So each schedule of the goroutines settles all spans.
\<close>

section \<open>The moves that carry spans on\<close>

text \<open>An answer after which the exporter does not send the spans again.\<close>

fun finalAnswer :: "exportResult \<Rightarrow> bool" where
  "finalAnswer (ExportOk response) \<longleftrightarrow>
     RespResultCode response \<noteq> FAILED_RETRYABLE \<and> RespResultCode response \<noteq> SHARD_CONFIG_MISTMATCH"
| "finalAnswer (ExportError details) \<longleftrightarrow> retryRequested details = Inr False"

fun carriesOn :: "exporterAction \<Rightarrow> bool" where
  "carriesOn (XEncoder act) = carries act"
| "carriesOn (XFinishSend i) = True"
| "carriesOn (XClient (TakeRequest i)) = True"
| "carriesOn (XClient (ExportReturns i result)) = finalAnswer result"
| "carriesOn XRetryTake = True"
| "carriesOn _ = False"

definition working :: "codec \<Rightarrow> exporter \<Rightarrow> exporter \<Rightarrow> bool" where
  "working c e e' \<longleftrightarrow> (\<exists>a. carriesOn a \<and> exporter_exec c a e = Some e' \<and> e' \<noteq> e)"

lemma carriesOn_not_consume: "carriesOn a \<Longrightarrow> \<not> isConsume a"
  by (cases a) simp_all

lemma working_step: "working c e e' \<Longrightarrow> exporter_step c e e'"
  by (auto simp: working_def intro: exporter_step.act)

section \<open>The load of the exporter\<close>

definition clientLoad :: "ClientUnary \<Rightarrow> nat" where
  "clientLoad c = 4 * length (queuedRequests c) + 3 * length (callingRequests c)"

definition clientWork :: "exporter \<Rightarrow> nat" where
  "clientWork e = 5 * length (ex_sending e) + clientLoad (ex_client e)"

definition outLoad :: "exporter \<Rightarrow> nat" where
  "outLoad e = (\<Sum>b\<leftarrow>chan_items (ex_spansToRetry e). batchLoad 6 b) + clientWork e"

definition exLoad :: "exporter \<Rightarrow> nat" where
  "exLoad e = encLoad (ex_enc e) + outLoad e"

lemma clientWork_frame [simp]:
  "clientWork (e\<lparr>ex_enc := enc\<rparr>) = clientWork e" "clientWork (e\<lparr>ex_spansToRetry := q\<rparr>) = clientWork e"
  "clientWork (e\<lparr>ex_abandoned := d\<rparr>) = clientWork e"
  by (simp_all add: clientWork_def)

lemma outLoad_frame [simp]:
  "outLoad (e\<lparr>ex_enc := enc\<rparr>) = outLoad e" "outLoad (e\<lparr>ex_panics := ps\<rparr>) = outLoad e"
  "outLoad (e\<lparr>ex_stats := st\<rparr>) = outLoad e" "outLoad (e\<lparr>ex_delivered := d\<rparr>) = outLoad e"
  "outLoad (e\<lparr>ex_unanswered := d\<rparr>) = outLoad e" "outLoad (e\<lparr>ex_abandoned := d\<rparr>) = outLoad e"
  "outLoad (dropSpans code spans rec e) = outLoad e"
  by (simp_all add: outLoad_def clientWork_def dropSpans_def)

lemma outLoad_resend: "outLoad (resendSpans spans e) \<le> outLoad e + batchLoad 6 spans"
proof (cases rule: resendSpans_cases [of spans e])
  case (queued q)
  with gochan.send_Some [OF queued(1)] show ?thesis by (simp add: outLoad_def clientWork_def)
qed simp

lemma outLoad_event: "outLoad (handleEvent g ev e) \<le> outLoad e + eventLoad ev"
proof (cases ev)
  case (SpanProcessFail spans code)
  then show ?thesis using outLoad_resend by (cases code) (simp_all add: onSpanProcessFail_def)
next
  case (RecordReady rec spans sh)
  then show ?thesis by (simp add: onRecordReady_def outLoad_def clientWork_def)
qed simp_all

lemma outLoad_events: "outLoad (fold (handleEvent g) evs e) \<le> outLoad e + eventsLoad evs"
proof (induction evs arbitrary: e)
  case (Cons ev evs)
  from Cons.IH [of "handleEvent g ev e"] outLoad_event [of g ev e] show ?case by simp
qed simp

lemma finalAnswer_events:
  assumes "finalAnswer result"
  shows "outLoad (fold handleClientEvent (sendRequest result r) e) = outLoad e \<and>
    ex_enc (fold handleClientEvent (sendRequest result r) e) = ex_enc e \<and>
    ex_panics (fold handleClientEvent (sendRequest result r) e) = ex_panics e"
proof (cases result)
  case (ExportOk response)
  with assms OnSendResponse_keys [of _ _ response e] show ?thesis
    by (cases "RespResultCode response") (simp_all add: sendRequest_def OnSendResponse_def Let_def)
next
  case (ExportError details)
  with assms OnSendFail_keys show ?thesis by (simp add: sendRequest_def OnSendFail_def)
qed

lemma length_removeNth: "i < length xs \<Longrightarrow> Suc (length (removeNth i xs)) = length xs"
  by (simp add: removeNth_def)

lemma callingRequests_update:
  assumes "i < length ws"
  shows "length (concat (map calling (ws[i := w]))) + length (calling (ws ! i)) =
    length (concat (map calling ws)) + length (calling w)"
  using arg_cong [OF calling_update [OF assms, of w], of size] by simp

section \<open>Every such move makes the load smaller\<close>

lemma exLoad_encoder:
  assumes "encoderMove c act e = Some e'" and "carries act" and "inv_shape c (ex_enc e)"
    and "inUseRuns (es_enc (ex_enc e))"
  shows "exLoad e' < exLoad e \<or> e' = e"
  using assms(1)
proof (cases rule: encoderMove_cases)
  case (1 enc evs)
  from encLoad_exec [OF 1(1) assms(2-4)] 1(4)
  have "encLoad enc + eventsLoad evs < encLoad (ex_enc e) \<or> enc = ex_enc e \<and> evs = []"
    by (metis same_append_eq)
  then show ?thesis
  proof
    assume "encLoad enc + eventsLoad evs < encLoad (ex_enc e)"
    with outLoad_events [of "actor act" evs "e\<lparr>ex_enc := enc\<rparr>"] show ?thesis
      by (simp add: 1(3) exLoad_def handleEvents_frame)
  qed (simp add: 1(3))
qed

text \<open>The end of a call of \<open>Send\<close> and the moves of the client make the client's work less, whatever the answer.\<close>

lemma clientWork_finishSend:
  assumes "finishSend i e = Some e'"
  shows "clientWork e' < clientWork e \<and> ex_spansToRetry e' = ex_spansToRetry e \<and> ex_enc e' = ex_enc e"
  using assms
proof (cases rule: finishSend_cases)
  case (1 g rec spans shard cl)
  from 1(3) show ?thesis
  proof (cases rule: client_Send_cases)
    case (1 q q')
    with gochan.send_Some [OF 1(2)] length_removeNth [OF \<open>i < length (ex_sending e)\<close>]
      \<open>e' = _\<close> show ?thesis
      by (simp add: clientWork_def clientLoad_def queuedRequests_def callingRequests_def)
  qed
qed

lemma clientLoad_move:
  assumes "client_move m cl = Some (cl', evs)" and "\<forall>i. m \<noteq> QuitSending i"
  shows "clientLoad cl' < clientLoad cl"
  using assms(1)
proof (cases rule: client_move_cases)
  case (take i q r q')
  with gochan.recv_Some [OF take(5)] callingRequests_update [OF take(2), of "SendCalling r"] show ?thesis
    by (simp add: clientLoad_def queuedRequests_def callingRequests_def)
next
  case (finish i result r)
  with callingRequests_update [OF finish(2), of SendIdle] show ?thesis
    by (simp add: clientLoad_def queuedRequests_def callingRequests_def)
next
  case (quit i)
  with assms(2) show ?thesis by simp
qed

lemma clientWork_client:
  assumes "clientStep m e = Some e'" and "\<forall>i. m \<noteq> QuitSending i"
  shows "clientWork e' < clientWork e"
  using assms(1)
proof (cases rule: clientStep_cases)
  case (1 cl evs)
  from clientLoad_move [OF 1(1) assms(2)] show ?thesis
    by (simp add: 1(2) clientWork_def handleClientEvents_client handleClientEvents_sending)
qed

lemma exLoad_finishSend: "finishSend i e = Some e' \<Longrightarrow> exLoad e' < exLoad e"
  using clientWork_finishSend [of i e e'] by (simp add: exLoad_def outLoad_def)

lemma exLoad_client:
  assumes "clientStep m e = Some e'" and "carriesOn (XClient m)"
  shows "exLoad e' < exLoad e"
  using assms(1)
proof (cases rule: clientStep_cases)
  case (1 cl evs)
  have "outLoad e' = outLoad (e\<lparr>ex_client := cl\<rparr>) \<and> ex_enc e' = ex_enc e"
    using 1(1) assms(2) finalAnswer_events by (cases rule: client_move_cases) (auto simp: 1(2))
  moreover have "clientLoad cl < clientLoad (ex_client e)"
    by (rule clientLoad_move [OF 1(1)]) (use assms(2) in auto)
  ultimately show ?thesis by (simp add: exLoad_def) (simp add: outLoad_def clientWork_def)
qed

lemma exLoad_retry:
  assumes "retryTake c e = Some e'"
  shows "exLoad e' < exLoad e"
  using assms
proof (cases rule: retryTake_cases)
  case (refused spans q)
  with gochan.recv_Some [OF refused(1)] show ?thesis by (simp add: exLoad_def outLoad_def batchLoad_def)
next
  case (encoding spans q enc)
  from encoding(2) have "encLoad enc = encLoad (ex_enc e) + batchLoad 5 spans"
    by (auto simp: encLoad_def split: if_splits)
  with gochan.recv_Some [OF encoding(1)] batchLoad_mono [of 5 6 spans] show ?thesis
    by (simp add: encoding(3) exLoad_def outLoad_def)
qed

lemma working_decreases:
  assumes "working c e e'" and "inv_shape c (ex_enc e)" and "inUseRuns (es_enc (ex_enc e))"
  shows "exLoad e' < exLoad e"
proof -
  from assms(1) obtain a where a: "carriesOn a" "exporter_exec c a e = Some e'" "e' \<noteq> e"
    by (auto simp: working_def)
  show ?thesis
  proof (cases a)
    case (XEncoder act)
    with a assms exLoad_encoder [of c act e e'] show ?thesis by simp
  next
    case (XFinishSend i)
    with a exLoad_finishSend [of i e e'] show ?thesis by simp
  next
    case (XClient m)
    with a exLoad_client [of m e e'] show ?thesis by simp
  next
    case XRetryTake
    with a exLoad_retry [of c e e'] show ?thesis by simp
  qed (use a in simp_all)
qed

section \<open>The connection is ready when the retry queue is served\<close>

definition clientReady :: "ClientUnary \<Rightarrow> bool" where
  "clientReady c \<longleftrightarrow> (case cu_requestsToSend c of None \<Rightarrow> False | Some q \<Rightarrow> 0 < chan_cap q) \<and> cu_workers c \<noteq> []"

definition connectionOk :: "exporter \<Rightarrow> bool" where
  "connectionOk e \<longleftrightarrow> 0 < cfg_SendConcurrency (ex_cfg e) \<and>
     (SendReturned \<in> set (cu_workers (ex_client e)) \<longrightarrow> cu_done (ex_client e)) \<and>
     (ex_start e = GettingConfig \<or> ex_retry e \<noteq> RetryNotStarted \<longrightarrow> clientReady (ex_client e))"

definition control :: "exporter \<Rightarrow> Config \<times> startGoroutine \<times> retryGoroutine" where
  "control e = (ex_cfg e, ex_start e, ex_retry e)"

lemma control_simps [simp]:
  "control (e\<lparr>ex_enc := enc\<rparr>) = control e" "control (e\<lparr>ex_client := cl\<rparr>) = control e"
  "control (e\<lparr>ex_panics := ps\<rparr>) = control e" "control (e\<lparr>ex_stats := st\<rparr>) = control e"
  "control (e\<lparr>ex_sending := sd\<rparr>) = control e" "control (e\<lparr>ex_spansToRetry := q\<rparr>) = control e"
  "control (e\<lparr>ex_abandoned := d\<rparr>) = control e" "control (e\<lparr>ex_delivered := d\<rparr>) = control e"
  "control (e\<lparr>ex_unanswered := d\<rparr>) = control e" "control (e\<lparr>ex_consumed := d\<rparr>) = control e"
  "control (e\<lparr>ex_dropped := dd\<rparr>) = control e" "control (e\<lparr>ex_done := b\<rparr>) = control e"
  by (simp_all add: control_def)

lemma control_drop [simp]: "control (dropSpans code spans rec e) = control e"
  by (simp add: dropSpans_def)

lemma control_resend [simp]: "control (resendSpans spans e) = control e"
  by (cases rule: resendSpans_cases [of spans e]) simp_all

lemma control_request [simp]: "control (requestConfig cfg e) = control e"
  by (simp add: requestConfig_def)

lemma control_event: "control (handleEvent g ev e) = control e"
proof (cases ev)
  case (SpanProcessFail spans code)
  then show ?thesis by (cases code) (simp_all add: onSpanProcessFail_def)
qed (simp_all add: onRecordReady_def)

lemma control_events [simp]: "control (fold (handleEvent g) evs e) = control e"
  by (induction evs arbitrary: e) (simp_all add: control_event)

lemma control_clientEvent: "control (handleClientEvent ev e) = control e"
proof (cases ev)
  case (SendResponse rec spans resp)
  then show ?thesis by (cases "RespResultCode resp") (simp_all add: OnSendResponse_def Let_def)
next
  case (SendFail rec spans code)
  then show ?thesis by (cases code) (simp_all add: OnSendFail_def)
qed simp

lemma control_clientEvents [simp]: "control (fold handleClientEvent evs e) = control e"
  by (induction evs arbitrary: e) (simp_all add: control_clientEvent)

lemma connectionOk_client:
  assumes "connectionOk e" and "control e' = control e"
    and "SendReturned \<in> set (cu_workers (ex_client e')) \<Longrightarrow> cu_done (ex_client e')"
    and "clientReady (ex_client e) \<Longrightarrow> clientReady (ex_client e')"
  shows "connectionOk e'"
  using assms by (auto simp: connectionOk_def control_def)

lemma connectionOk_same:
  "connectionOk e \<Longrightarrow> control e' = control e \<Longrightarrow> ex_client e' = ex_client e \<Longrightarrow> connectionOk e'"
  by (rule connectionOk_client) (auto simp: connectionOk_def)

lemma client_Send_ready:
  assumes "client_Send rec spans shard c = Some c'"
  shows "cu_workers c' = cu_workers c \<and> cu_done c' = cu_done c \<and> (clientReady c \<longrightarrow> clientReady c')"
  using assms
  by (cases rule: client_Send_cases) (auto simp: clientReady_def dest: gochan.send_Some)

lemma client_move_ready:
  assumes "client_move m c = Some (c', evs)"
  shows "cu_done c' = cu_done c \<and> (clientReady c \<longrightarrow> clientReady c') \<and>
    (SendReturned \<in> set (cu_workers c') \<longrightarrow> SendReturned \<in> set (cu_workers c) \<or> cu_done c)"
proof -
  have upd: "x \<in> set (xs[i := y]) \<Longrightarrow> x = y \<or> x \<in> set xs" for x y :: clientWorker and xs i
    using set_update_subset_insert [of xs i y] by auto
  from assms show ?thesis
  proof (cases rule: client_move_cases)
    case (take i q r q')
    with gochan.recv_Some [OF take(5)] show ?thesis by (auto simp: clientReady_def dest: upd)
  next
    case (finish i result r)
    then show ?thesis by (auto simp: clientReady_def dest: upd)
  next
    case (quit i)
    then show ?thesis by (auto simp: clientReady_def dest: upd)
  qed
qed

lemma client_Connect_ready:
  assumes "client_Connect dial (connectionOptions cfg) c = (c', ok)" and "0 < cfg_SendConcurrency cfg"
  shows "cu_done c' = cu_done c \<and>
    (SendReturned \<in> set (cu_workers c') \<longrightarrow> SendReturned \<in> set (cu_workers c)) \<and>
    (ok \<or> clientReady c \<longrightarrow> clientReady c')"
proof -
  have "unat (cfg_SendConcurrency cfg) \<noteq> 0" using assms(2) by (simp add: word_gt_0 unat_eq_zero)
  with assms(1) show ?thesis
    by (auto simp: client_Connect_def clientReady_def connectionOptions_def make_chan_def Let_def
        split: if_splits)
qed

lemma client_Shutdown_ready:
  "client_Shutdown c = (c', evs) \<Longrightarrow> cu_workers c' = cu_workers c \<and> (cu_done c \<longrightarrow> cu_done c') \<and>
    (clientReady c \<longrightarrow> clientReady c')"
  by (auto simp: client_Shutdown_def close_signal_def clientReady_def split: sum.splits if_splits)

lemma connectionOk_exec:
  assumes "exporter_exec c a e = Some e'" and ok: "connectionOk e"
  shows "connectionOk e'"
  using assms(1)
proof (cases rule: exporter_exec_cases)
  case (encoder act enc evs)
  then show ?thesis by (intro connectionOk_same [OF ok]) (simp_all add: handleEvents_frame)
next
  case (sent i g rec spans shard cl)
  with client_Send_ready [OF sent(4)] ok show ?thesis
    by (intro connectionOk_client [OF ok]) (auto simp: connectionOk_def)
next
  case (client m cl evs)
  with client_move_ready [OF client(2)] ok show ?thesis
    by (intro connectionOk_client [OF ok]) (auto simp: handleClientEvents_client connectionOk_def)
next
  case (connected ok' cl b)
  with client_Connect_ready [OF connected(3)] ok show ?thesis
    by (auto simp: connectionOk_def split: if_splits)
next
  case (shutdown cl evs)
  with client_Shutdown_ready [OF shutdown(2)] ok show ?thesis
    by (intro connectionOk_client [OF ok]) (auto simp: handleClientEvents_client connectionOk_def)
qed (use ok in \<open>auto simp: connectionOk_def requestConfig_def\<close>)

lemma connectionOk_init:
  assumes "CreateTraceExporter register cfg = Some e"
  shows "connectionOk e"
proof -
  obtain cfg2 where cfg2: "CreateTraceExporter register cfg = NewExporter register cfg2 NewClientUnary"
    "0 < cfg_SendConcurrency cfg2" by (rule CreateTraceExporter_config)
  from assms cfg2(2) show ?thesis
    by (auto simp: cfg2(1) NewExporter_def connectionOk_def NewClientUnary_def split: option.splits)
qed

interpretation connection_inv:
  transition_invariant "exporter_started name" "exporter_step c" connectionOk for name c
proof
  fix e assume "exporter_started name e"
  then show "connectionOk e" by (auto simp: exporter_started_def connectionOk_init)
next
  fix e e' assume "exporter_step c e e'" "connectionOk e"
  then show "connectionOk e'" by (auto elim!: exporter_stepE intro: connectionOk_exec)
qed

section \<open>Until every span is settled\<close>

lemma worker_step_panic:
  assumes "worker_step c e w = Some (e', w', evs)" and "Crashed p \<in> set evs"
  shows "p = NegativeWaitGroup"
  using assms(1)
proof (cases rule: worker_step_cases)
  case (dequeued spans)
  with assms(2) show ?thesis by (auto simp: dequeueSpans_def split: option.splits)
next
  case finished
  with assms(2) show ?thesis by (auto simp: wgDone_def split: if_splits)
next
  case (rejected a span rest span1 err)
  with tryEncodeSpan_events [OF rejected(2), of p] assms(2) show ?thesis by auto
next
  case (measured a span rest span1 sz)
  with tryEncodeSpan_events [OF measured(2), of p] assms(2) show ?thesis by auto
next
  case (accumulated a span sz rest se needFlush)
  with accumulateLocked_events [OF accumulated(2), of p] assms(2) show ?thesis by auto
next
  case (flushed a rest se)
  with Flush_no_crash [OF flushed(2), of p] assms(2) show ?thesis by auto
qed (use assms(2) in auto)

lemma carries_no_crash:
  assumes "enc_exec c act s = Some t" and "carries act" and "inv_wg s"
    and "es_events t = es_events s @ evs"
  shows "Crashed p \<notin> set evs"
proof
  assume p: "Crashed p \<in> set evs"
  from inv_wg_exec [OF assms(1,3)] assms(4) have "Crashed NegativeWaitGroup \<notin> set evs"
    by (simp add: inv_wg_def)
  moreover from assms(1) have "p = NegativeWaitGroup"
  proof (cases rule: enc_exec_cases)
    case (send i e evs')
    with enqueueSpans_frame [OF send(3), of c] assms(4) p show ?thesis by auto
  next
    case (work i e w evs')
    with worker_step_panic [OF work(3)] assms(4) p show ?thesis by auto
  next
    case (tick a se evs')
    with Flush_no_crash [OF tick(4)] assms(4) p show ?thesis by auto
  next
    case (final a se evs')
    with Flush_no_crash [OF final(4)] assms(4) p show ?thesis by auto
  qed (use assms(2,4) p in auto)
  ultimately show False using p by simp
qed

lemma handleEvents_no_crash:
  "\<forall>p. Crashed p \<notin> set evs \<Longrightarrow> ex_panics (fold (handleEvent g) evs e) = ex_panics e"
proof (induction evs arbitrary: e)
  case (Cons ev evs)
  then have "ex_panics (handleEvent g ev e) = ex_panics e" by (cases ev) auto
  with Cons show ?case by simp
qed simp

text \<open>What a move of the client, or the end of a call of \<open>Send\<close>, leaves as it is.\<close>

fun sends :: "exporterAction \<Rightarrow> bool" where
  "sends (XFinishSend i) = True"
| "sends (XClient m) = True"
| "sends _ = False"

lemma sends_frame:
  assumes "exporter_exec c a e = Some e'" and "sends a" and "carriesOn a"
  shows "ex_enc e' = ex_enc e \<and> ex_panics e' = ex_panics e \<and> control e' = control e \<and>
    ex_consumed e' = ex_consumed e \<and> cu_done (ex_client e') = cu_done (ex_client e) \<and>
    (clientReady (ex_client e) \<longrightarrow> clientReady (ex_client e')) \<and>
    (SendReturned \<in> set (cu_workers (ex_client e')) \<longrightarrow> SendReturned \<in> set (cu_workers (ex_client e)))"
  using assms(1)
proof (cases rule: exporter_exec_cases)
  case (sent i g rec spans shard cl)
  with client_Send_ready [OF sent(4)] show ?thesis by simp
next
  case (client m cl evs)
  note e' = client(3)
  have "ex_panics e' = ex_panics e \<and> ex_enc e' = ex_enc e \<and>
    (SendReturned \<in> set (cu_workers cl) \<longrightarrow> SendReturned \<in> set (cu_workers (ex_client e)))"
    using client(2)
  proof (cases rule: client_move_cases)
    case (take i q r q')
    then show ?thesis by (auto simp: e' dest: set_update_subset_insert [THEN subsetD])
  next
    case (finish i result r)
    with assms(3) client(1) have "finalAnswer result" by simp
    note final = finalAnswer_events [OF this, of r "e\<lparr>ex_client := cl\<rparr>"]
    with finish show ?thesis by (auto simp: e' dest: set_update_subset_insert [THEN subsetD])
  next
    case (quit i)
    with assms(3) client(1) show ?thesis by simp
  qed
  with client_move_ready [OF client(2)] handleClientEvents_keys [of evs "e\<lparr>ex_client := cl\<rparr>"]
  show ?thesis by (auto simp: e' handleClientEvents_client)
qed (use assms(2) in auto)

definition settleable :: "codec \<Rightarrow> string \<Rightarrow> exporter \<Rightarrow> bool" where
  "settleable c name e \<longleftrightarrow> exporter_inv c name e \<and> ex_panics e = [] \<and> ex_retry e = RetryRunning \<and>
     clientReady (ex_client e) \<and> SendReturned \<notin> set (cu_workers (ex_client e)) \<and> encReady (ex_enc e)"

lemma settleable_enc:
  assumes "settleable c name e"
  shows "enc_inv c (ex_enc e)" "inv_shape c (ex_enc e)" "inv_wg (ex_enc e)" "inUseRuns (es_enc (ex_enc e))"
    "encReady (ex_enc e)"
  using assms by (auto simp: settleable_def exporter_inv_def enc_inv_def encReady_def)

lemma control_retry: "control e' = control e \<Longrightarrow> ex_retry e' = ex_retry e"
  by (simp add: control_def)

lemma settleableI:
  assumes "settleable c name e" and "working c e e'" and "ex_panics e' = ex_panics e"
    and "control e' = control e" and "encReady (ex_enc e')"
    and "clientReady (ex_client e) \<longrightarrow> clientReady (ex_client e')"
    and "SendReturned \<in> set (cu_workers (ex_client e')) \<longrightarrow> SendReturned \<in> set (cu_workers (ex_client e))"
  shows "settleable c name e'"
  using assms exporter_inv.step_inv [OF working_step [OF assms(2)], of name]
  by (auto simp: settleable_def dest: control_retry)

lemma working_settleable:
  assumes w: "working c e e'" and s: "settleable c name e"
  shows "settleable c name e' \<and> ex_consumed e' = ex_consumed e"
proof -
  note enc = settleable_enc [OF s]
  from w obtain a where a: "carriesOn a" "exporter_exec c a e = Some e'" by (auto simp: working_def)
  show ?thesis
  proof (cases a)
    case (XEncoder act)
    with a have "encoderMove c act e = Some e'" and ca: "carries act" by simp_all
    from this(1) show ?thesis
    proof (cases rule: encoderMove_cases)
      case (1 t evs)
      have "ex_panics e' = ex_panics e"
        using handleEvents_no_crash [of evs] carries_no_crash [OF 1(1) ca enc(3) 1(4)] by (simp add: 1(3))
      with handleEvents_frame [of "actor act" evs "e\<lparr>ex_enc := t\<rparr>"] encReady_exec [OF 1(1) ca enc(2,5)]
      show ?thesis by (intro conjI settleableI [OF s w]) (auto simp: 1(3))
    qed
  next
    case (XFinishSend i)
    with sends_frame [OF a(2) _ a(1)] enc(5) show ?thesis by (intro conjI settleableI [OF s w]) auto
  next
    case (XClient m)
    with sends_frame [OF a(2) _ a(1)] enc(5) show ?thesis by (intro conjI settleableI [OF s w]) auto
  next
    case XRetryTake
    with a have "retryTake c e = Some e'" by simp
    then show ?thesis
    proof (cases rule: retryTake_cases)
      case (refused spans q)
      with enc(5) show ?thesis by (intro conjI settleableI [OF s w]) auto
    next
      case (encoding spans q t)
      from encoding(2) enc(5) have "encReady t" by (auto simp: encReady_def split: if_splits)
      with encoding(3) show ?thesis by (intro conjI settleableI [OF s w]) auto
    qed
  qed (use a in simp_all)
qed

text \<open>What has been consumed and is not settled yet.\<close>

definition openKeys :: "exporter \<Rightarrow> Span multiset" where
  "openKeys e = sysKeys (ex_enc e) + sendingKeys e + clientKeys e + retryKeys e"

definition acceptance :: ExportResponse where
  "acceptance = \<lparr>RespResultCode = SUCCESS, RespShardingConfig = None\<rparr>"

text \<open>A client that holds a request, or is handed one, can move: the queue is free or a goroutine is.\<close>

lemma client_progress:
  assumes "clientReady (ex_client e)" and "SendReturned \<notin> set (cu_workers (ex_client e))"
    and "client_pending (ex_client e) \<noteq> [] \<or> ex_sending e \<noteq> []"
  obtains a e' where "exporter_exec c a e = Some e'" "carriesOn a" "sends a" "exLoad e' < exLoad e"
proof -
  from assms(1,2) obtain q where q: "cu_requestsToSend (ex_client e) = Some q" "0 < chan_cap q"
    and ws: "cu_workers (ex_client e) \<noteq> []" "SendReturned \<notin> set (cu_workers (ex_client e))"
    by (auto simp: clientReady_def split: option.splits)
  consider (calling) i r where "i < length (cu_workers (ex_client e))" "cu_workers (ex_client e) ! i = SendCalling r"
    | (idle) "\<forall>w \<in> set (cu_workers (ex_client e)). w = SendIdle"
    by (metis clientWorker.exhaust in_set_conv_nth ws(2))
  then show thesis
  proof cases
    case calling
    then obtain e' where e': "clientStep (ExportReturns i (ExportOk acceptance)) e = Some e'"
      by (simp add: clientStep_def)
    have "carriesOn (XClient (ExportReturns i (ExportOk acceptance)))" by (simp add: acceptance_def)
    with e' exLoad_client [OF e' this] show thesis
      by (intro that [of "XClient (ExportReturns i (ExportOk acceptance))"]) simp_all
  next
    case idle
    then have "calling w = []" if "w \<in> set (cu_workers (ex_client e))" for w using that by auto
    then have none: "callingRequests (ex_client e) = []" by (auto simp: callingRequests_def)
    show thesis
    proof (cases "chan_items q")
      case (Cons r rs)
      then obtain e' where e': "clientStep (TakeRequest 0) e = Some e'"
        using q(1) ws(1) idle by (simp add: clientStep_def chan_recv_def)
      with exLoad_client [OF e'] show thesis by (intro that [of "XClient (TakeRequest 0)"]) simp_all
    next
      case Nil
      with assms(3) none q(1) have "ex_sending e \<noteq> []" by (auto simp: client_pending_def queuedRequests_def)
      then obtain g rec spans shard hs where "ex_sending e = (g, rec, spans, shard) # hs"
        by (metis list.exhaust prod.collapse)
      with Nil q obtain e' where e': "finishSend 0 e = Some e'"
        by (simp add: finishSend_def client_Send_def chan_send_def)
      with exLoad_finishSend [OF e'] show thesis by (intro that [of "XFinishSend 0"]) simp_all
    qed
  qed
qed

lemma working_progress:
  assumes s: "settleable c name e" and o: "openKeys e \<noteq> {#}"
  shows "\<exists>e'. working c e e'"
proof (cases "client_pending (ex_client e) \<noteq> [] \<or> ex_sending e \<noteq> []")
  case True
  from s have "clientReady (ex_client e)" "SendReturned \<notin> set (cu_workers (ex_client e))"
    by (auto simp: settleable_def)
  from client_progress [OF this True, of c] obtain a e' where "exporter_exec c a e = Some e'" "carriesOn a"
    "exLoad e' < exLoad e" by blast
  then show ?thesis unfolding working_def by (metis less_irrefl)
next
  case False
  then have out: "sendingKeys e = {#}" "clientKeys e = {#}" "ex_sending e = []"
    by (simp_all add: sendingKeys_def clientKeys_def client_unary.requestKeys_def)
  show ?thesis
  proof (cases "chan_items (ex_spansToRetry e)")
    case (Cons spans rest)
    with s obtain e' where e': "retryTake c e = Some e'"
      by (cases "enc_exec c (CallerCheck spans) (ex_enc e)")
        (auto simp: retryTake_def chan_recv_def settleable_def Let_def simp del: enc_exec.simps)
    with exLoad_retry [OF e'] show ?thesis
      unfolding working_def by (metis carriesOn.simps(5) exporter_exec.simps(5) less_irrefl)
  next
    case Nil
    with o out have "sysKeys (ex_enc e) \<noteq> {#}" by (simp add: openKeys_def retryKeys_def)
    from enc_progress [OF settleable_enc(1,5) [OF s] this] obtain act t where
      t: "enc_exec c act (ex_enc e) = Some t" "carries act" "t \<noteq> ex_enc e" by blast
    have "internalAction act (es_stop (ex_enc e))" using t(2) by (cases act) simp_all
    with t out(3) obtain e' where e': "encoderMove c act e = Some e'" "ex_enc e' = t"
      by (cases act) (simp_all add: encoderMove_def handleEvents_frame del: enc_exec.simps)
    with t(2,3) show ?thesis
      unfolding working_def by (metis carriesOn.simps(1) exporter_exec.simps(2))
  qed
qed

lemma settleable_run:
  assumes "(working c)\<^sup>*\<^sup>* e e'" and "settleable c name e"
  shows "settleable c name e' \<and> ex_consumed e' = ex_consumed e"
  using assms by (induction rule: rtranclp_induct) (auto dest: working_settleable)

interpretation exporter_work: bounded_progress "working c" "settleable c name" exLoad for c name
proof
  fix e e' assume w: "working c e e'" and s: "settleable c name e"
  from working_settleable [OF w s] show "settleable c name e'" by simp
  from working_decreases [OF w settleable_enc(2,4) [OF s]] show "exLoad e' < exLoad e" .
qed

lemma settled_when_stuck:
  assumes "settleable c name e" and "\<nexists>e'. working c e e'"
  shows "spanKeys (ex_consumed e) = settledKeys e"
proof -
  from working_progress [OF assms(1)] assms(2) have "openKeys e = {#}" by blast
  moreover from assms(1) have "spanKeys (ex_consumed e) = sysKeys (ex_enc e) + outsideKeys e"
    by (simp add: settleable_def exporter_inv_def accounted_for_def)
  ultimately show ?thesis by (simp add: openKeys_def outsideKeys_def)
qed

section \<open>Property\<close>

text \<open>
  C2: the exporter delivers what it accepts. Take a reachable state in which nothing has panicked, a
  configuration has been received (the retry loop runs), the client is not shut down, the encoder has
  workers and these have no signal to stop, and none of the shard encoders in use is stopped. The last
  excludes the states after a rejected configuration: there the shard encoders in use are stopped,
  each span is handed back, and the retry queue goes round for ever. Let the goroutines
  carry the spans on in any order, with no new batch, configuration or shutdown, against a server whose
  answers do not ask for a retry. They make at most \<open>exLoad\<close> moves, however they are scheduled;
  when none of them can move any more, nothing has panicked and every span ever consumed
  is delivered, dropped under a code, answered with an unknown code or abandoned; and such
  an end can be reached.
\<close>

theorem exporter_settles:
  assumes "CreateTraceExporter register cfg = Some e0" and "(exporter_step c)\<^sup>*\<^sup>* e0 e"
    and "ex_panics e = []" and "ex_retry e = RetryRunning" and "\<not> cu_done (ex_client e)"
    and "es_workers (ex_enc e) \<noteq> []" and "\<not> en_workerHardStop (es_enc (ex_enc e))"
    and "\<forall>a \<in> set (en_shardEncoders (es_enc (ex_enc e))). \<not> se_stopped (en_heap (es_enc (ex_enc e)) ! a)"
  shows "(\<forall>n e'. (working c ^^ n) e e' \<longrightarrow> n \<le> exLoad e) \<and>
    (\<forall>e'. (working c)\<^sup>*\<^sup>* e e' \<and> (\<nexists>e''. working c e' e'') \<longrightarrow>
       ex_panics e' = [] \<and> ex_consumed e' = ex_consumed e \<and>
       spanKeys (ex_consumed e) = spanKeys (ex_delivered e') + spanKeys (concat (map snd (ex_dropped e'))) +
         spanKeys (ex_unanswered e') + spanKeys (ex_abandoned e')) \<and>
    (\<exists>e'. (working c)\<^sup>*\<^sup>* e e' \<and> (\<nexists>e''. working c e' e''))"
proof -
  from assms(1) have start: "exporter_started (cfg_Name cfg) e0" by (auto simp: exporter_started_def)
  from exporter_inv.reachable_inv [OF start assms(2)] connection_inv.reachable_inv [OF start assms(2)] assms(3-8)
  have s: "settleable c (cfg_Name cfg) e"
    by (auto simp: settleable_def connectionOk_def encReady_def inUseRuns_def stoppedAt_def)
  have "ex_panics e' = [] \<and> ex_consumed e' = ex_consumed e \<and> spanKeys (ex_consumed e) = settledKeys e'"
    if "(working c)\<^sup>*\<^sup>* e e'" "\<nexists>e''. working c e' e''" for e'
    using settleable_run [OF that(1) s] settled_when_stuck [OF _ that(2)] by (auto simp: settleable_def)
  then show ?thesis
    using exporter_work.run_bound [OF _ s] exporter_work.stuck.reaches_goal [OF s] unfolding settledKeys_def by blast
qed

lemma sendingExporter_live:
  "ex_retry sendingExporter = RetryRunning" "\<not> cu_done (ex_client sendingExporter)"
  "es_workers (ex_enc sendingExporter) \<noteq> []" "\<not> en_workerHardStop (es_enc (ex_enc sendingExporter))"
  "\<forall>a \<in> set (en_shardEncoders (es_enc (ex_enc sendingExporter))).
     \<not> se_stopped (en_heap (es_enc (ex_enc sendingExporter)) ! a)"
proof -
  have st: "\<not> se_stopped (shardEncoderFor opts sh)" for opts sh
    by (simp add: shardEncoderFor_def newShardEncoder_def)
  have "ex_enc sendingExporter = sampleSent" "cu_done (ex_client sendingExporter) = False"
    "ex_retry sendingExporter = RetryRunning"
    by (simp_all add: sendingExporter_def configuredExporter_def sampleClient_def)
  moreover have "es_workers sampleSent \<noteq> []" "\<not> en_workerHardStop (es_enc sampleSent)"
    "\<forall>a \<in> set (en_shardEncoders (es_enc sampleSent)). \<not> se_stopped (en_heap (es_enc sampleSent) ! a)"
    by (auto simp: sampleSent_def sampleEncoded_def sampleSys4_def emit_def sample_flush sampleEnc4_facts
        flusher_tick_def sampleEnc_request(6) st sampleEnc4_def sampleEnc_def nth_list_update)
  ultimately show "ex_retry sendingExporter = RetryRunning" "\<not> cu_done (ex_client sendingExporter)"
    "es_workers (ex_enc sendingExporter) \<noteq> []" "\<not> en_workerHardStop (es_enc (ex_enc sendingExporter))"
    "\<forall>a \<in> set (en_shardEncoders (es_enc (ex_enc sendingExporter))).
       \<not> se_stopped (en_heap (es_enc (ex_enc sendingExporter)) ! a)"
    by simp_all
qed

theorem exporter_settles_witness:
  "\<exists>e'. (working sampleCodec)\<^sup>*\<^sup>* sendingExporter e' \<and> ex_panics e' = [] \<and>
     add_mset (spanKey (sampleSpan 3 0)) {#} = settledKeys e' \<and> ex_sending sendingExporter \<noteq> []"
proof -
  have "ex_sending sendingExporter \<noteq> []" by (simp add: sendingExporter_def)
  with exporter_settles [OF sampleExporter_new sample_reachSendingX sampleExporter_facts(2) sendingExporter_live]
  show ?thesis by (auto simp: sampleExporter_facts(1) settledKeys_def)
qed

end
