(* ===== verification/MockServer.thy ===== *)
theory MockServer
  imports Client "HOL-Library.List_Lexorder" "HOL-Library.Char_ord"
begin

text \<open>
  The server of the OmniShard protocol that the repository itself provides
  (\<open>exporter/omnishard/mock_server.go\<close>) and the helpers beside it (\<open>test_helpers.go\<close>): the handlers of
  the two calls, the sink of received records, the sinks for the events of encoder and client,
  and the waiting loop.

  A handler works on the server under its mutexes, so each is one transition. The number that
  \<open>rand.Float64\<close> yields and the metadata of the context are parameters. A nil byte slice and an
  empty one are the same list, which is what \<open>compareHashKey\<close> makes of them.
\<close>

section \<open>State\<close>

record mockServerSink =
  mss_requests :: "ExportRequest list"
  mss_records :: "EncodedRecord list"

record mockServer =
  ms_Sink :: mockServerSink
  ms_RandomServerError :: bool
  ms_nextResponseCode :: ResultCode
  ms_nextResponseShardingConfig :: "ShardingConfig option"
  ms_config :: "ShardingConfig option"

record gRPCServer =
  gs_srv :: mockServer
  gs_headers :: "(string \<times> string) list"

definition newMockServer :: mockServer where
  "newMockServer =
     \<lparr>ms_Sink = \<lparr>mss_requests = [], mss_records = []\<rparr>, ms_RandomServerError = False,
      ms_nextResponseCode = SUCCESS, ms_nextResponseShardingConfig = None,
      ms_config = Some \<lparr>ShardDefinitions = []\<rparr>\<rparr>"

definition ms_GetConfig :: "mockServer \<Rightarrow> ShardingConfig option" where
  "ms_GetConfig srv = ms_config srv"

definition ms_SetConfig :: "ShardingConfig option \<Rightarrow> mockServer \<Rightarrow> mockServer" where
  "ms_SetConfig config srv = srv\<lparr>ms_config := config\<rparr>"

text \<open>\<open>Listen\<close> makes the handler object; the listener and the serving loop are gRPC's.\<close>

definition SetRequiredHeaders :: "(string \<times> string) list \<Rightarrow> gRPCServer \<Rightarrow> gRPCServer" where
  "SetRequiredHeaders headers s = s\<lparr>gs_headers := headers\<rparr>"

definition ms_Listen :: "(string \<times> string) list \<Rightarrow> mockServer \<Rightarrow> gRPCServer" where
  "ms_Listen headers srv =
     (let grpcSrv = \<lparr>gs_srv = srv, gs_headers = []\<rparr>
      in if length headers > 0 then SetRequiredHeaders headers grpcSrv else grpcSrv)"

text \<open>
  \<open>Listen\<close> as a whole: \<open>net.Listen\<close> and \<open>Serve\<close> are parameters; their errors are logged, and
  the result is nil in any case. \<open>Stop\<close> is the call of \<open>grpc.Server.Stop\<close>.
\<close>

datatype serverLog = FailedToListen | FailedToServe

definition mockServer_Listen ::
  "(string \<Rightarrow> 'lis option) \<Rightarrow> ('lis option \<Rightarrow> gRPCServer \<Rightarrow> bool) \<Rightarrow> string \<Rightarrow> (string \<times> string) list \<Rightarrow>
     mockServer \<Rightarrow> gRPCServer \<times> serverLog list" where
  "mockServer_Listen net_Listen serve endpoint headers srv =
     (let lis = net_Listen endpoint;
          grpcSrv = ms_Listen headers srv
      in (grpcSrv, (if lis = None then [FailedToListen] else []) @
                   (if serve lis grpcSrv then [] else [FailedToServe])))"

definition sink_onReceive :: "ExportRequest \<Rightarrow> mockServerSink \<Rightarrow> mockServerSink" where
  "sink_onReceive request mss =
     mss\<lparr>mss_requests := mss_requests mss @ [request], mss_records := mss_records mss @ [ReqRecord request]\<rparr>"

text \<open>
  \<open>runServer\<close> listens with a callback that hands each request to the sink of the server; it ignores
  what \<open>Listen\<close> returns. The callback is what \<open>mock_Export\<close> calls below.
\<close>

definition runServer_onReceive :: "ExportRequest \<Rightarrow> mockServer \<Rightarrow> mockServer" where
  [simp]: "runServer_onReceive request srv = srv\<lparr>ms_Sink := sink_onReceive request (ms_Sink srv)\<rparr>"

definition runServer ::
  "(string \<Rightarrow> 'lis option) \<Rightarrow> ('lis option \<Rightarrow> gRPCServer \<Rightarrow> bool) \<Rightarrow> mockServer \<Rightarrow> string \<Rightarrow>
     (string \<times> string) list \<Rightarrow> gRPCServer \<times> serverLog list" where
  "runServer net_Listen serve srv listenAddress headers =
     mockServer_Listen net_Listen serve listenAddress headers srv"

definition GetRecords :: "mockServerSink \<Rightarrow> EncodedRecord list" where
  "GetRecords mss = mss_records mss"

section \<open>The handlers\<close>

text \<open>\<open>bytes.Compare\<close> and the lookup of a shard.\<close>

fun bytes_Compare :: "bytes \<Rightarrow> bytes \<Rightarrow> int" where
  "bytes_Compare [] [] = 0"
| "bytes_Compare [] (_ # _) = - 1"
| "bytes_Compare (_ # _) [] = 1"
| "bytes_Compare (a # as) (b # bs) = (if a < b then - 1 else if b < a then 1 else bytes_Compare as bs)"

definition compareHashKey :: "bytes \<Rightarrow> bytes \<Rightarrow> int" where
  "compareHashKey k1 k2 = bytes_Compare k1 k2"

fun shardLoop :: "ShardDefinition \<Rightarrow> ShardDefinition list \<Rightarrow> bool" where
  "shardLoop shard [] = False"
| "shardLoop shard (s # ss) =
     (if ShardId s = ShardId shard \<and>
         compareHashKey (StartingHashKey s) (StartingHashKey shard) = 0 \<and>
         compareHashKey (EndingHashKey s) (EndingHashKey shard) = 0
      then True else shardLoop shard ss)"

definition shardIsPartOfConfig :: "ShardDefinition \<Rightarrow> ShardingConfig \<Rightarrow> bool" where
  "shardIsPartOfConfig shard config = shardLoop shard (ShardDefinitions config)"

text \<open>
  \<open>checkRequiredHeaders\<close>: the metadata of the context, if there is any, as its \<open>Get\<close> function. The
  loop goes over a map, so the list may be in any order.
\<close>

datatype headerError = NoMetadata | WrongHeader string string "string list"

fun headerLoop :: "(string \<Rightarrow> string list) \<Rightarrow> (string \<times> string) list \<Rightarrow> headerError option" where
  "headerLoop md [] = None"
| "headerLoop md ((k, v) # hs) =
     (let vals = md k in
      if length vals \<noteq> 1 \<or> vals ! 0 \<noteq> v then Some (WrongHeader k v vals) else headerLoop md hs)"

definition checkRequiredHeaders ::
  "(string \<Rightarrow> string list) option \<Rightarrow> gRPCServer \<Rightarrow> headerError option" where
  "checkRequiredHeaders ctx s =
     (if length (gs_headers s) < 1 then None
      else (case ctx of None \<Rightarrow> Some NoMetadata | Some md \<Rightarrow> headerLoop md (gs_headers s)))"

text \<open>
  \<open>Export\<close>. A plain error is a status without details at the client; a nil configuration is
  dereferenced.
\<close>

definition unavailable :: exportResult where
  "unavailable = ExportError [RetryInfo (Some \<lparr>Seconds = 0, Nanos = 1000000 * 100\<rparr>)]"

definition mock_Export ::
  "(string \<Rightarrow> string list) option \<Rightarrow> bool \<Rightarrow> ExportRequest \<Rightarrow> gRPCServer \<Rightarrow>
     panic + exportResult \<times> gRPCServer" where
  "mock_Export ctx unlucky request s =
     (if checkRequiredHeaders ctx s \<noteq> None then Inr (ExportError [], s)
      else if ms_RandomServerError (gs_srv s) \<and> unlucky then Inr (unavailable, s)
      else (case ms_GetConfig (gs_srv s) of
              None \<Rightarrow> Inl NilDereference
            | Some config \<Rightarrow>
                if \<not> shardIsPartOfConfig (ReqShard request) config
                then Inr (ExportOk \<lparr>RespResultCode = SHARD_CONFIG_MISTMATCH,
                                    RespShardingConfig = Some config\<rparr>, s)
                else Inr (ExportOk \<lparr>RespResultCode = ms_nextResponseCode (gs_srv s),
                                    RespShardingConfig = ms_nextResponseShardingConfig (gs_srv s)\<rparr>,
                          s\<lparr>gs_srv := runServer_onReceive request (gs_srv s)\<rparr>)))"

definition mock_GetShardingConfig ::
  "(string \<Rightarrow> string list) option \<Rightarrow> gRPCServer \<Rightarrow> headerError + ShardingConfig option" where
  "mock_GetShardingConfig ctx s =
     (case checkRequiredHeaders ctx s of
        Some err \<Rightarrow> Inl err
      | None \<Rightarrow> Inr (ms_GetConfig (gs_srv s)))"

section \<open>Sinks of events\<close>

record encoderSink =
  successSpanCount :: int
  encodedRecords :: "EncodedRecord list"
  failSpanCount :: int
  failedSpans :: "Span list"

definition encoderSink_onReady ::
  "EncodedRecord \<Rightarrow> Span list \<Rightarrow> shardInMemConfig \<Rightarrow> encoderSink \<Rightarrow> encoderSink" where
  "encoderSink_onReady record spans shard es =
     es\<lparr>successSpanCount := successSpanCount es + SpanCount record,
        encodedRecords := encodedRecords es @ [record]\<rparr>"

definition encoderSink_onFail :: "Span list \<Rightarrow> EncoderErrorCode \<Rightarrow> encoderSink \<Rightarrow> encoderSink" where
  "encoderSink_onFail failed code es =
     es\<lparr>failSpanCount := failSpanCount es + int (length failed),
        failedSpans := failedSpans es @ failed\<rparr>"

definition getSuccessSpanCount :: "encoderSink \<Rightarrow> int" where
  "getSuccessSpanCount es = successSpanCount es"

definition getEncodedRecords :: "encoderSink \<Rightarrow> EncodedRecord list" where
  "getEncodedRecords es = encodedRecords es"

definition getFailSpanCount :: "encoderSink \<Rightarrow> int" where
  "getFailSpanCount es = failSpanCount es"

definition getFailedSpans :: "encoderSink \<Rightarrow> Span list" where
  "getFailedSpans es = failedSpans es"

text \<open>\<open>byPartitionKey\<close>; strings are compared byte by byte.\<close>

definition byPartitionKey_Less :: "EncodedRecord list \<Rightarrow> nat \<Rightarrow> nat \<Rightarrow> bool" where
  "byPartitionKey_Less a i j = (PartitionKey (a ! i) < PartitionKey (a ! j))"

definition byPartitionKey_Swap :: "EncodedRecord list \<Rightarrow> nat \<Rightarrow> nat \<Rightarrow> EncodedRecord list" where
  "byPartitionKey_Swap a i j = a[i := a ! j, j := a ! i]"

record clientSink =
  cs_responseToRecords :: "EncodedRecord list"
  cs_responses :: "ExportResponse list"
  cs_failedRecords :: "EncodedRecord list"

definition clientSink_onSendResponse ::
  "EncodedRecord \<Rightarrow> Span list \<Rightarrow> ExportResponse \<Rightarrow> clientSink \<Rightarrow> clientSink" where
  "clientSink_onSendResponse record spans response cs =
     cs\<lparr>cs_responseToRecords := cs_responseToRecords cs @ [record], cs_responses := cs_responses cs @ [response]\<rparr>"

definition clientSink_onSendFail ::
  "EncodedRecord \<Rightarrow> Span list \<Rightarrow> SendErrorCode \<Rightarrow> clientSink \<Rightarrow> clientSink" where
  "clientSink_onSendFail record spans code cs =
     cs\<lparr>cs_failedRecords := cs_failedRecords cs @ [record]\<rparr>"

definition getResponseToRecords :: "clientSink \<Rightarrow> EncodedRecord list" where
  "getResponseToRecords cs = cs_responseToRecords cs"

definition getResponses :: "clientSink \<Rightarrow> ExportResponse list" where
  "getResponses cs = cs_responses cs"

section \<open>The waiting loop\<close>

text \<open>
  \<open>WaitForN\<close>: times are nanoseconds since the call. \<open>late n\<close> is how much longer than the interval
  round \<open>n\<close> takes, the evaluation of the condition included; the condition is asked at the
  time its round begins. No returned value stands for a loop that does not end.
\<close>

definition millisecond :: int where
  "millisecond = 1000000"

partial_function (option) waitLoop ::
  "(int \<Rightarrow> bool) \<Rightarrow> (nat \<Rightarrow> nat) \<Rightarrow> int \<Rightarrow> nat \<Rightarrow> int \<Rightarrow> int \<Rightarrow> (bool \<times> int) option" where
  "waitLoop cond late duration n now waitInterval =
     (if cond now then Some (True, now)
      else
        let next = (if waitInterval < millisecond * 500 then waitInterval * 2 else waitInterval);
            elapsed = now + waitInterval + int (late n)
        in if elapsed > duration then Some (False, elapsed)
           else waitLoop cond late duration (Suc n) elapsed next)"

definition WaitForN :: "(int \<Rightarrow> bool) \<Rightarrow> (nat \<Rightarrow> nat) \<Rightarrow> int \<Rightarrow> (bool \<times> int) option" where
  "WaitForN cond late duration = waitLoop cond late duration 0 0 (millisecond * 5)"

definition WaitFor :: "(int \<Rightarrow> bool) \<Rightarrow> (nat \<Rightarrow> nat) \<Rightarrow> (bool \<times> int) option" where
  "WaitFor cond late = WaitForN cond late (1000 * millisecond * 10)"

section \<open>Lemmas\<close>

lemma bytes_Compare_eq [simp]: "bytes_Compare k1 k2 = 0 \<longleftrightarrow> k1 = k2"
  by (induction k1 k2 rule: bytes_Compare.induct) auto

lemma shardLoop_iff: "shardLoop shard ss \<longleftrightarrow> shard \<in> set ss"
  by (induction ss) (auto simp: compareHashKey_def intro: ShardDefinition.equality)

lemma shardIsPartOfConfig_iff: "shardIsPartOfConfig shard config \<longleftrightarrow> shard \<in> set (ShardDefinitions config)"
  by (simp add: shardIsPartOfConfig_def shardLoop_iff)

lemma headerLoop_None: "headerLoop md hs = None \<longleftrightarrow> (\<forall>(k, v) \<in> set hs. md k = [v])"
  by (induction md hs rule: headerLoop.induct) (auto simp: Let_def length_Suc_conv)

text \<open>The headers a call needs: each exactly once, with its value.\<close>

definition headersPresent :: "(string \<Rightarrow> string list) option \<Rightarrow> gRPCServer \<Rightarrow> bool" where
  "headersPresent ctx s \<longleftrightarrow>
     gs_headers s = [] \<or> (\<exists>md. ctx = Some md \<and> (\<forall>(k, v) \<in> set (gs_headers s). md k = [v]))"

lemma checkRequiredHeaders_None: "checkRequiredHeaders ctx s = None \<longleftrightarrow> headersPresent ctx s"
  by (cases ctx; cases "gs_headers s")
    (auto simp: checkRequiredHeaders_def headersPresent_def headerLoop_None)

text \<open>The loop doubles its interval from 5 to 640 milliseconds and ends.\<close>

definition waitIntervals :: "int set" where
  "waitIntervals = (\<lambda>k. millisecond * k) ` {5, 10, 20, 40, 80, 160, 320, 640}"

lemma waitIntervals_next:
  "w \<in> waitIntervals \<Longrightarrow>
     0 < w \<and> w \<le> millisecond * 640 \<and> (if w < millisecond * 500 then w * 2 else w) \<in> waitIntervals"
  by (auto simp: waitIntervals_def millisecond_def)

lemma waitLoop_returns:
  assumes "w \<in> waitIntervals"
  shows "\<exists>b t. waitLoop cond late duration n now w = Some (b, t) \<and>
     (if b then cond t \<and> t \<le> max now duration
      else duration < t \<and>
        (\<exists>p k. \<not> cond p \<and> p \<le> max now duration \<and> t \<le> p + millisecond * 640 + int (late k)))"
  using assms
proof (induction "nat (duration - now)" arbitrary: n now w rule: less_induct)
  case less
  let ?w = "if w < millisecond * 500 then w * 2 else w"
  let ?t = "now + w + int (late n)"
  from waitIntervals_next [OF less.prems] have w: "0 < w" "w \<le> millisecond * 640" "?w \<in> waitIntervals"
    by blast+
  show ?case
  proof (cases "cond now")
    case True
    then have "waitLoop cond late duration n now w = Some (True, now)" by (subst waitLoop.simps) simp
    with True show ?thesis by (intro exI [of _ True] exI [of _ now]) simp
  next
    case no: False
    show ?thesis
    proof (cases "?t > duration")
      case True
      have "waitLoop cond late duration n now w = Some (False, ?t)"
        using no True by (subst waitLoop.simps) (simp add: Let_def)
      moreover have "\<exists>p k. \<not> cond p \<and> p \<le> max now duration \<and> ?t \<le> p + millisecond * 640 + int (late k)"
        using no w(2) by (intro exI [of _ now] exI [of _ n]) simp
      ultimately show ?thesis using True by (intro exI [of _ False] exI [of _ ?t]) simp
    next
      case False
      have "waitLoop cond late duration n now w = waitLoop cond late duration (Suc n) ?t ?w"
        using no False by (subst waitLoop.simps) (simp add: Let_def)
      moreover from False w(1) have "nat (duration - ?t) < nat (duration - now)" by simp
      note less.hyps [OF this w(3), of "Suc n"]
      moreover from False w(1) have "max ?t duration = max now duration" by simp
      ultimately show ?thesis by (simp only:)
    qed
  qed
qed

section \<open>Properties\<close>

text \<open>
  C30: the wait of the tests ends. For every condition, whatever the delays, \<open>WaitForN\<close> returns.
  It returns true only at a moment when it has seen the condition hold, and not after the
  duration; it returns false only after the duration, and then it has last looked no longer
  before than its longest interval, 640 milliseconds, and the delay of that round: a condition
  that stays true from some earlier time on is noticed.
\<close>

theorem WaitForN_returns:
  assumes "\<And>n. late n \<le> late_max"
  shows "\<exists>b t. WaitForN cond late duration = Some (b, t) \<and>
     (b \<longrightarrow> cond t \<and> t \<le> max 0 duration) \<and>
     (\<not> b \<longrightarrow> duration < t \<and> t \<le> max 0 duration + millisecond * 640 + int late_max) \<and>
     (\<forall>T. (\<forall>p \<ge> T. cond p) \<and> T + millisecond * 640 + int late_max \<le> duration \<longrightarrow> b)"
proof -
  have "millisecond * 5 \<in> waitIntervals" by (simp add: waitIntervals_def)
  from waitLoop_returns [OF this, of cond late duration 0 0] obtain b t where
    ret: "WaitForN cond late duration = Some (b, t)"
    and b: "if b then cond t \<and> t \<le> max 0 duration
      else duration < t \<and>
        (\<exists>p k. \<not> cond p \<and> p \<le> max 0 duration \<and> t \<le> p + millisecond * 640 + int (late k))"
    unfolding WaitForN_def by blast
  show ?thesis
  proof (cases b)
    case True
    with ret b show ?thesis by auto
  next
    case False
    with b obtain p k where p: "duration < t" "\<not> cond p" "p \<le> max 0 duration"
      "t \<le> p + millisecond * 640 + int (late k)" by auto
    from assms [of k] have k: "int (late k) \<le> int late_max" by simp
    have "t \<le> max 0 duration + millisecond * 640 + int late_max" using p(3,4) k by linarith
    moreover have False if "\<forall>p \<ge> T. cond p" "T + millisecond * 640 + int late_max \<le> duration" for T
    proof -
      from that(2) p(1,4) k have "p \<ge> T" by linarith
      with that(1) p(2) show False by blast
    qed
    ultimately show ?thesis using ret p(1) False by (intro exI [of _ b] exI [of _ t]) auto
  qed
qed

theorem WaitForN_returns_witness:
  "\<exists>t. WaitForN (\<lambda>now. now \<ge> millisecond * 100) (\<lambda>_. 0) (millisecond * 1000) = Some (True, t)"
proof -
  let ?cond = "\<lambda>now. now \<ge> millisecond * 100"
  from WaitForN_returns [of "\<lambda>_. 0" 0 ?cond "millisecond * 1000"] obtain b t where
    bt: "WaitForN ?cond (\<lambda>_. 0) (millisecond * 1000) = Some (b, t)"
      "(\<forall>p \<ge> millisecond * 100. ?cond p) \<and>
         millisecond * 100 + millisecond * 640 + int 0 \<le> millisecond * 1000 \<longrightarrow> b"
    by (metis order_refl)
  have "millisecond * 100 + millisecond * 640 + int 0 \<le> millisecond * 1000" by (simp add: millisecond_def)
  with bt show ?thesis by simp
qed

text \<open>
  the server answers a call of \<open>Export\<close> in one of four ways. A call without exactly the
  required headers fails without details, which the client does not retry; an artificial
  outage is an error that the client does retry; a record for a shard that is not, byte for
  byte, one of the current configuration is not stored and answered with that configuration;
  any other is stored last in the sink and answered with the code that was set.
\<close>

lemma mock_Export_correct:
  assumes "ms_config (gs_srv s) = Some config"
  shows "\<exists>result s'. mock_Export ctx unlucky (exportRequest r) s = Inr (result, s') \<and>
    (let sink = (\<lambda>s. GetRecords (ms_Sink (gs_srv s)));
         failed = SendFail (ReqRecord (exportRequest r)) (originalSpans r)
     in if \<not> headersPresent ctx s then s' = s \<and> sendRequest result r = [failed ErrFailedNotRetryable]
        else if ms_RandomServerError (gs_srv s) \<and> unlucky
        then s' = s \<and> sendRequest result r = [failed ErrFailedRetryable]
        else if ReqShard (exportRequest r) \<notin> set (ShardDefinitions config)
        then s' = s \<and> result = ExportOk \<lparr>RespResultCode = SHARD_CONFIG_MISTMATCH,
                                         RespShardingConfig = Some config\<rparr>
        else sink s' = sink s @ [ReqRecord (exportRequest r)] \<and>
             result = ExportOk \<lparr>RespResultCode = ms_nextResponseCode (gs_srv s),
                                RespShardingConfig = ms_nextResponseShardingConfig (gs_srv s)\<rparr>)"
proof -
  have "sendRequest (ExportError []) r =
      [SendFail (ReqRecord (exportRequest r)) (originalSpans r) ErrFailedNotRetryable]"
    "sendRequest unavailable r = [SendFail (ReqRecord (exportRequest r)) (originalSpans r) ErrFailedRetryable]"
    by (simp_all add: sendRequest_def unavailable_def)
  then show ?thesis
    using assms
    by (simp add: mock_Export_def checkRequiredHeaders_None ms_GetConfig_def shardIsPartOfConfig_iff GetRecords_def
        sink_onReceive_def Let_def)
qed

lemma mock_Export_correct_witness:
  "\<exists>result s'. mock_Export None False (exportRequest (sampleReq ''a'')) (ms_Listen [] newMockServer) =
     Inr (result, s') \<and>
     result = ExportOk \<lparr>RespResultCode = SHARD_CONFIG_MISTMATCH,
                        RespShardingConfig = Some \<lparr>ShardDefinitions = []\<rparr>\<rparr>"
  using mock_Export_correct [of "ms_Listen [] newMockServer" "\<lparr>ShardDefinitions = []\<rparr>" None False "sampleReq ''a''"]
  by (simp add: ms_Listen_def newMockServer_def headersPresent_def Let_def)

end
