(* ===== verification/System.thy ===== *)
theory System
  imports Exporter MockServer
begin

text \<open>
  The exporter against the server of the repository: every call the client makes is answered by
  \<open>mock_server.go\<close> or lost on the way, and the server may change its configuration at any moment.
  The records the server stores, with the requests they came in, are history.
\<close>

section \<open>The system\<close>

record system =
  sys_ex :: exporter
  sys_srv :: gRPCServer
  sys_stored :: "(requestToSend \<times> ResultCode option) list"
  sys_transport :: "(string \<times> string) list"

text \<open>
  The metadata the server finds in its context, as \<open>md.Get\<close> reads it: the headers of the client's
  context, and \<open>sys_transport\<close>, what gRPC itself puts into the metadata of every call (such as
  \<open>:authority\<close>, \<open>content-type\<close> and \<open>user-agent\<close>; a parameter, as gRPC is not part of the
  repository). Keys are kept, and looked up, in lower case.
\<close>

definition sentHeaders :: "(string \<times> string) list \<Rightarrow> ClientUnary \<Rightarrow> string \<Rightarrow> string list" where
  "sentHeaders transport c k = map snd (filter (\<lambda>h. ToLower (fst h) = ToLower k) (transport @ cu_baseCtx c))"

text \<open>The call in which a sending goroutine of the client is.\<close>

definition callOf :: "nat \<Rightarrow> ClientUnary \<Rightarrow> requestToSend option" where
  "callOf i c =
     (if i < length (cu_workers c)
      then (case cu_workers c ! i of SendCalling r \<Rightarrow> Some r | _ \<Rightarrow> None) else None)"

definition storesRecord :: "gRPCServer \<Rightarrow> gRPCServer \<Rightarrow> bool" where
  "storesRecord s s' \<longleftrightarrow> length (GetRecords (ms_Sink (gs_srv s))) < length (GetRecords (ms_Sink (gs_srv s')))"

text \<open>
  A call of \<open>Export\<close> that the server answers, and one whose answer is lost: the client then sees
  some error, and the server may or may not have been reached.
\<close>

definition networkReply ::
  "(bool \<times> errorDetail list) option \<Rightarrow> exportResult \<times> gRPCServer \<Rightarrow> gRPCServer \<Rightarrow> exportResult \<times> gRPCServer"
where
  "networkReply lost reply srv0 =
     (case lost of
        None \<Rightarrow> reply
      | Some (reached, details) \<Rightarrow> (ExportError details, if reached then snd reply else srv0))"

definition replyCode :: "exportResult \<Rightarrow> ResultCode option" where
  "replyCode result =
     (case result of ExportOk response \<Rightarrow> Some (RespResultCode response) | ExportError _ \<Rightarrow> None)"

definition exportCall :: "nat \<Rightarrow> bool \<Rightarrow> (bool \<times> errorDetail list) option \<Rightarrow> system \<Rightarrow> system option" where
  "exportCall i unlucky lost s =
     (case callOf i (ex_client (sys_ex s)) of
        None \<Rightarrow> None
      | Some r \<Rightarrow>
          (case mock_Export (Some (sentHeaders (sys_transport s) (ex_client (sys_ex s)))) unlucky (exportRequest r) (sys_srv s) of
             Inl p \<Rightarrow> None
           | Inr reply \<Rightarrow>
               (case networkReply lost reply (sys_srv s) of
                  (result, srv) \<Rightarrow>
                    (case clientStep (ExportReturns i result) (sys_ex s) of
                       None \<Rightarrow> None
                     | Some e \<Rightarrow>
                         Some (s\<lparr>sys_ex := e, sys_srv := srv,
                                 sys_stored := (if storesRecord (sys_srv s) srv
                                                then (r, replyCode result) # sys_stored s else sys_stored s)\<rparr>)))))"

definition configCall :: "bool \<Rightarrow> system \<Rightarrow> system option" where
  "configCall lost s =
     (let rpc = (\<lambda>headers. case mock_GetShardingConfig (Some (sentHeaders (sys_transport s) (ex_client (sys_ex s)))) (sys_srv s) of
                   Inr (Some config) \<Rightarrow> if lost then None else Some config
                 | _ \<Rightarrow> None)
      in (case getConfigStep rpc (sys_ex s) of
            None \<Rightarrow> None
          | Some e \<Rightarrow> Some (s\<lparr>sys_ex := e\<rparr>)))"

text \<open>The actions of the exporter that make no call.\<close>

fun localAction :: "exporterAction \<Rightarrow> bool" where
  "localAction (XClient (ExportReturns _ _)) = False"
| "localAction (XGetConfig _) = False"
| "localAction _ = True"

datatype systemAction =
    Local exporterAction
  | ExportCall nat bool "(bool \<times> errorDetail list) option"
  | ConfigCall bool
  | ServerSetConfig "ShardingConfig option"

fun system_exec :: "codec \<Rightarrow> systemAction \<Rightarrow> system \<Rightarrow> system option" where
  "system_exec c (Local a) s =
     (if localAction a
      then (case exporter_exec c a (sys_ex s) of None \<Rightarrow> None | Some e \<Rightarrow> Some (s\<lparr>sys_ex := e\<rparr>))
      else None)"
| "system_exec c (ExportCall i unlucky lost) s = exportCall i unlucky lost s"
| "system_exec c (ConfigCall lost) s = configCall lost s"
| "system_exec c (ServerSetConfig config) s =
     Some (s\<lparr>sys_srv := (sys_srv s)\<lparr>gs_srv := ms_SetConfig config (gs_srv (sys_srv s))\<rparr>\<rparr>)"

inductive system_step :: "codec \<Rightarrow> system \<Rightarrow> system \<Rightarrow> bool" for c where
  act: "system_exec c a s = Some t \<Longrightarrow> system_step c s t"

inductive_cases system_stepE: "system_step c s t"

text \<open>Steps that hand no new batch to the exporter.\<close>

fun feeds :: "systemAction \<Rightarrow> bool" where
  "feeds (Local a) = isConsume a"
| "feeds _ = False"

definition unfed_step :: "codec \<Rightarrow> system \<Rightarrow> system \<Rightarrow> bool" where
  "unfed_step c s t \<longleftrightarrow> (\<exists>a. \<not> feeds a \<and> system_exec c a s = Some t)"

lemma unfed_step_system: "unfed_step c s t \<Longrightarrow> system_step c s t"
  by (auto simp: unfed_step_def intro: system_step.act)

lemma unfed_run_system: "(unfed_step c)\<^sup>*\<^sup>* s t \<Longrightarrow> (system_step c)\<^sup>*\<^sup>* s t"
  by (induction rule: rtranclp_induct) (auto intro: unfed_step_system rtranclp.rtrancl_into_rtrancl)

definition system_started :: "string \<Rightarrow> system \<Rightarrow> bool" where
  "system_started name s \<longleftrightarrow> exporter_started name (sys_ex s) \<and>
     GetRecords (ms_Sink (gs_srv (sys_srv s))) = [] \<and> sys_stored s = []"

section \<open>The system refines the exporter\<close>

text \<open>Every step of the system is a step of the exporter alone, or none.\<close>

lemma exportCall_cases:
  assumes "exportCall i unlucky lost s = Some t"
  obtains r reply result srv where "callOf i (ex_client (sys_ex s)) = Some r"
    "mock_Export (Some (sentHeaders (sys_transport s) (ex_client (sys_ex s)))) unlucky (exportRequest r) (sys_srv s) = Inr reply"
    "networkReply lost reply (sys_srv s) = (result, srv)"
    "clientStep (ExportReturns i result) (sys_ex s) = Some (sys_ex t)" "sys_srv t = srv"
    "sys_stored t = (if storesRecord (sys_srv s) srv then (r, replyCode result) # sys_stored s else sys_stored s)"
    "sys_transport t = sys_transport s"
  using assms by (auto simp: exportCall_def split: option.splits sum.splits prod.splits)

lemma system_exec_action:
  assumes "system_exec c a s = Some t"
  obtains (same) "sys_ex t = sys_ex s"
    | (moves) b where "exporter_exec c b (sys_ex s) = Some (sys_ex t)" "a = Local b \<or> \<not> localAction b"
proof (cases a)
  case (Local x)
  with assms have "exporter_exec c x (sys_ex s) = Some (sys_ex t)"
    by (auto split: if_splits option.splits)
  with Local moves show thesis by blast
next
  case (ExportCall i unlucky lost)
  with assms have "exportCall i unlucky lost s = Some t" by simp
  then show thesis
  proof (cases rule: exportCall_cases)
    case (1 r reply result srv)
    then show thesis by (intro moves [of "XClient (ExportReturns i result)"]) simp_all
  qed
next
  case (ConfigCall lost)
  with assms obtain rpc e where "getConfigStep rpc (sys_ex s) = Some e" "sys_ex t = e"
    by (auto simp: configCall_def Let_def split: option.splits)
  moreover have "getConfigStep rpc x = getConfigStep (\<lambda>_. rpc (cu_baseCtx (ex_client x))) x" for x
    by (simp add: getConfigStep_def client_GetShardingConfig_def)
  ultimately have "exporter_exec c (XGetConfig (rpc (cu_baseCtx (ex_client (sys_ex s))))) (sys_ex s) = Some (sys_ex t)"
    by simp
  then show thesis by (rule moves) simp
next
  case (ServerSetConfig config)
  with assms same show thesis by auto
qed

lemma system_step_exporter:
  assumes "system_exec c a s = Some t"
  shows "(exporter_step c)\<^sup>*\<^sup>* (sys_ex s) (sys_ex t)"
  using assms by (cases rule: system_exec_action) (auto intro: exporter_step.act)

section \<open>What counts as delivered\<close>

lemma delivered_frame [simp]:
  "ex_delivered (dropSpans code spans orec e) = ex_delivered e"
  "ex_delivered (requestConfig cfg e) = ex_delivered e"
  "ex_delivered (onRecordReady g rec spans sh e) = ex_delivered e"
  by (simp_all add: dropSpans_def requestConfig_def onRecordReady_def)

lemma resendSpans_delivered [simp]: "ex_delivered (resendSpans spans e) = ex_delivered e"
  by (cases rule: resendSpans_cases [of spans e]) simp_all

lemma onSpanProcessFail_delivered [simp]: "ex_delivered (onSpanProcessFail spans code e) = ex_delivered e"
  by (cases code) (simp_all add: onSpanProcessFail_def)

lemma handleEvents_delivered [simp]: "ex_delivered (fold (handleEvent g) evs e) = ex_delivered e"
proof (induction evs arbitrary: e)
  case (Cons ev evs)
  have "ex_delivered (handleEvent g ev e) = ex_delivered e" by (cases ev) simp_all
  with Cons.IH show ?case by simp
qed simp

lemma OnSendResponse_delivered:
  "ex_delivered (OnSendResponse rec spans resp e) =
     (if RespResultCode resp = SUCCESS then spans @ ex_delivered e else ex_delivered e)"
  by (cases "RespResultCode resp") (simp_all add: OnSendResponse_def Let_def)

lemma started_delivered: "CreateTraceExporter register cfg = Some e \<Longrightarrow> ex_delivered e = []"
  by (auto simp: CreateTraceExporter_def NewExporter_def Let_def split: option.splits)

lemma OnSendFail_delivered [simp]: "ex_delivered (OnSendFail rec spans code e) = ex_delivered e"
  by (cases code) (simp_all add: OnSendFail_def)

lemma sendRequest_delivered:
  "ex_delivered (fold handleClientEvent (sendRequest result r) e) =
     (if replyCode result = Some SUCCESS then originalSpans r @ ex_delivered e else ex_delivered e)"
  by (auto simp: sendRequest_def replyCode_def OnSendResponse_delivered
      split: exportResult.splits sum.splits bool.splits)

lemma clientStep_returns:
  assumes "clientStep (ExportReturns i result) e = Some e'" and "callOf i (ex_client e) = Some r"
  shows "ex_delivered e' =
    (if replyCode result = Some SUCCESS then originalSpans r @ ex_delivered e else ex_delivered e)"
  using assms
  by (auto simp: clientStep_def callOf_def sendRequest_delivered split: if_splits clientWorker.splits)

lemma callOf_pending: "callOf i cl = Some r \<Longrightarrow> r \<in> set (client_pending cl)"
  by (fastforce simp: callOf_def client_pending_def callingRequests_def dest: nth_mem
      split: if_splits clientWorker.splits)

lemma local_delivered:
  assumes "exporter_exec c a e = Some e'" and "localAction a"
  shows "ex_delivered e' = ex_delivered e"
  using assms(1)
proof (cases rule: exporter_exec_cases)
  case (client m cl evs)
  from client(2) client(1) assms(2) show ?thesis
    by (cases rule: client_move_cases) (auto simp: client(3))
next
  case (shutdown cl evs)
  then show ?thesis by (auto simp: client_Shutdown_def split: sum.splits)
qed (use assms(2) in auto)

section \<open>What the server stores\<close>

lemma mock_Export_stores:
  assumes "mock_Export ctx unlucky request s = Inr (result, s')"
  shows "s' = s \<and> replyCode result \<noteq> Some SUCCESS \<or>
    s' = s\<lparr>gs_srv := (gs_srv s)\<lparr>ms_Sink := sink_onReceive request (ms_Sink (gs_srv s))\<rparr>\<rparr>"
  using assms
  by (auto simp: mock_Export_def replyCode_def unavailable_def split: if_splits option.splits)

lemma storesRecord_same [simp]: "\<not> storesRecord s s"
  by (simp add: storesRecord_def)

definition sinkRecords :: "system \<Rightarrow> EncodedRecord list" where
  "sinkRecords s = GetRecords (ms_Sink (gs_srv (sys_srv s)))"

definition storedSpans :: "system \<Rightarrow> Span multiset" where
  "storedSpans s = (\<Sum>h\<leftarrow>sys_stored s. if snd h = Some SUCCESS then spanKeys (originalSpans (fst h)) else {#})"

definition system_inv :: "codec \<Rightarrow> string \<Rightarrow> system \<Rightarrow> bool" where
  "system_inv c name s \<longleftrightarrow> exporter_inv c name (sys_ex s) \<and>
     sinkRecords s = rev (map (\<lambda>h. ReqRecord (exportRequest (fst h))) (sys_stored s)) \<and>
     (\<forall>h \<in> set (sys_stored s). requestOk c (fst h)) \<and>
     spanKeys (ex_delivered (sys_ex s)) = storedSpans s"

lemma system_inv_same:
  assumes "system_inv c name s" and "exporter_inv c name (sys_ex t)"
    and "ex_delivered (sys_ex t) = ex_delivered (sys_ex s)" and "sinkRecords t = sinkRecords s"
    and "sys_stored t = sys_stored s"
  shows "system_inv c name t"
  using assms by (simp add: system_inv_def storedSpans_def)

lemma system_inv_call:
  assumes "exportCall i unlucky lost s = Some t" and "system_inv c name s"
    and "exporter_inv c name (sys_ex t)"
  shows "system_inv c name t"
  using assms(1)
proof (cases rule: exportCall_cases)
  case (1 r reply result srv)
  from callOf_pending [OF 1(1)] assms(2) have ok: "requestOk c r"
    by (auto simp: system_inv_def exporter_inv_def sendsOk_def)
  note del = clientStep_returns [OF 1(4) 1(1)]
  obtain result0 srv0 where reply: "reply = (result0, srv0)" by (cases reply)
  from mock_Export_stores [OF 1(2) [unfolded reply]] 1(3)
  have "srv = sys_srv s \<and> replyCode result \<noteq> Some SUCCESS \<or>
      srv = (sys_srv s)\<lparr>gs_srv := (gs_srv (sys_srv s))
        \<lparr>ms_Sink := sink_onReceive (exportRequest r) (ms_Sink (gs_srv (sys_srv s)))\<rparr>\<rparr>"
    by (auto simp: reply networkReply_def replyCode_def split: option.splits if_splits)
  then show ?thesis
  proof
    assume "srv = sys_srv s \<and> replyCode result \<noteq> Some SUCCESS"
    with 1(5,6) del show ?thesis
      by (intro system_inv_same [OF assms(2,3)]) (simp_all add: sinkRecords_def)
  next
    assume srv: "srv = (sys_srv s)\<lparr>gs_srv := (gs_srv (sys_srv s))
        \<lparr>ms_Sink := sink_onReceive (exportRequest r) (ms_Sink (gs_srv (sys_srv s)))\<rparr>\<rparr>"
    then have "storesRecord (sys_srv s) srv" by (simp add: storesRecord_def GetRecords_def sink_onReceive_def)
    with 1(6) have stored: "sys_stored t = (r, replyCode result) # sys_stored s" by simp
    have "sinkRecords t = sinkRecords s @ [ReqRecord (exportRequest r)]"
      by (simp add: sinkRecords_def 1(5) srv GetRecords_def sink_onReceive_def)
    with assms(2,3) ok stored del show ?thesis
      by (auto simp: system_inv_def storedSpans_def)
  qed
qed

interpretation system_inv: transition_invariant "system_started name" "system_step c" "system_inv c name"
  for c name
proof
  fix s assume s: "system_started name s"
  then have "exporter_started name (sys_ex s)" by (simp add: system_started_def)
  then obtain register cfg where "CreateTraceExporter register cfg = Some (sys_ex s)" "cfg_Name cfg = name"
    by (auto simp: exporter_started_def)
  then have "exporter_inv c name (sys_ex s)" "ex_delivered (sys_ex s) = []"
    using exporter_inv_init [of register cfg "sys_ex s" c] started_delivered by auto
  with s show "system_inv c name s"
    by (simp add: system_inv_def system_started_def sinkRecords_def storedSpans_def)
next
  fix s t assume "system_step c s t" and inv: "system_inv c name s"
  then obtain a where a: "system_exec c a s = Some t" by (auto elim: system_stepE)
  from inv have "exporter_inv c name (sys_ex s)" by (simp add: system_inv_def)
  from exporter_inv.run_inv [OF system_step_exporter [OF a] this] have ex: "exporter_inv c name (sys_ex t)" .
  show "system_inv c name t"
  proof (cases a)
    case (Local x)
    with a obtain e where e: "exporter_exec c x (sys_ex s) = Some e" "localAction x" "t = s\<lparr>sys_ex := e\<rparr>"
      by (auto split: if_splits option.splits)
    with local_delivered [OF e(1,2)] show ?thesis
      by (intro system_inv_same [OF inv ex]) (simp_all add: sinkRecords_def)
  next
    case (ExportCall i unlucky lost)
    with a have "exportCall i unlucky lost s = Some t" by simp
    then show ?thesis by (rule system_inv_call [OF _ inv ex])
  next
    case (ConfigCall lost)
    with a show ?thesis
      by (intro system_inv_same [OF inv ex])
        (auto simp: configCall_def getConfigStep_def sinkRecords_def Let_def
          split: option.splits if_splits sum.splits)
  next
    case (ServerSetConfig config)
    with a show ?thesis
      by (intro system_inv_same [OF inv ex]) (auto simp: sinkRecords_def ms_SetConfig_def)
  qed
qed

section \<open>What a configuration change leaves\<close>

lemma processConfigChange_shards:
  assumes "processConfigChange e = (e', ConfigApplied first, evs)" and "en_configChangeRequest e = Some req"
  shows "\<exists>cfg. newShardingInMemConfig req = Inr cfg \<and> currentShards e' = shards cfg"
proof -
  let ?e1 = "stopShardEncoders (e\<lparr>en_configChangeRequest := None\<rparr>)"
  have app: "applyConfig req ?e1 = (e', ConfigApplied first, evs)"
    using assms by (cases "en_configChangeStopped e") (simp_all add: processConfigChange_def takeConfigRequest_def)
  then obtain cfg where new: "newShardingInMemConfig req = Inr cfg"
    by (cases "newShardingInMemConfig req") (simp_all add: applyConfig_def)
  obtain e2 evs2 where start: "startShardEncoders cfg ?e1 = (e2, evs2)" by fastforce
  from app have "e' = e2\<lparr>en_workersStarted := True\<rparr>"
    by (simp only: applyConfig_def new start sum.case prod.case prod.inject)
  note cfg = new start this
  from arg_cong [OF startShardEncoders_shards [OF cfg(2)], of "map se_shard"]
  have "currentShards e2 = shards cfg" by (simp add: currentShards_def comp_def)
  with cfg show ?thesis by (simp add: currentShards_def)
qed

lemma accepted_origin:
  assumes "newShardingInMemConfig config = Inr cfg" and "shard \<in> set (shards cfg)"
  shows "origin shard \<in> set (ShardDefinitions config)"
proof -
  from library_sort.with_accepts(2) [OF assms(1) [unfolded newShardingInMemConfig_def]]
  have "set (shards cfg) = set (map toInMem (ShardDefinitions config))" by (rule mset_eq_setD)
  with assms(2) obtain s where "shard = toInMem s" "s \<in> set (ShardDefinitions config)" by auto
  then show ?thesis by (simp add: toInMem_def)
qed

section \<open>Headers\<close>

text \<open>The exporter hands no headers to its client, and nothing else sets them.\<close>

lemma client_move_baseCtx: "client_move m cl = Some (cl', evs) \<Longrightarrow> cu_baseCtx cl' = cu_baseCtx cl"
  by (cases m) (auto split: if_splits option.splits clientWorker.splits prod.splits)

lemma client_Send_baseCtx: "client_Send rec spans sh cl = Some cl' \<Longrightarrow> cu_baseCtx cl' = cu_baseCtx cl"
  by (auto simp: client_Send_def split: option.splits)

lemma handleEvents_baseCtx: "cu_baseCtx (ex_client (fold (handleEvent g) evs e)) = cu_baseCtx (ex_client e)"
  using handleEvents_frame [of g evs e] by simp

lemma baseCtx_exec:
  assumes "exporter_exec c a e = Some e'" and "cu_baseCtx (ex_client e) = []"
  shows "cu_baseCtx (ex_client e') = []"
  using assms(1)
proof (cases rule: exporter_exec_cases)
  case (sent i g rec spans shard cl)
  with client_Send_baseCtx [OF sent(4)] assms(2) show ?thesis by simp
next
  case (client m cl evs)
  with client_move_baseCtx [OF client(2)] assms(2) show ?thesis by (simp add: handleClientEvents_client)
next
  case (connected ok cl b)
  with assms(2) show ?thesis
    by (auto simp: client_Connect_def connectionOptions_def Let_def split: if_splits)
next
  case (shutdown cl evs)
  with assms(2) show ?thesis
    by (auto simp: handleClientEvents_client client_Shutdown_def split: sum.splits)
qed (use assms(2) in \<open>simp_all add: handleEvents_baseCtx\<close>)

lemma baseCtx_run: "(exporter_step c)\<^sup>*\<^sup>* e e' \<Longrightarrow> cu_baseCtx (ex_client e) = [] \<Longrightarrow> cu_baseCtx (ex_client e') = []"
  by (induction rule: rtranclp_induct) (auto elim!: exporter_stepE dest: baseCtx_exec)

text \<open>One of the required headers is not among those gRPC sends by itself.\<close>

definition ownHeader :: "(string \<times> string) list \<Rightarrow> (string \<times> string) list \<Rightarrow> bool" where
  "ownHeader transport required \<longleftrightarrow>
     list_ex (\<lambda>h. ToLower (fst h) \<notin> set (map (\<lambda>t. ToLower (fst t)) transport)) required"

definition headers_inv :: "system \<Rightarrow> bool" where
  "headers_inv s \<longleftrightarrow> cu_baseCtx (ex_client (sys_ex s)) = [] \<and> sys_stored s = [] \<and>
     ownHeader (sys_transport s) (gs_headers (sys_srv s))"

lemma no_headers_no_reply:
  assumes "ownHeader tm (gs_headers s)" and "cu_baseCtx cl = []"
  shows "checkRequiredHeaders (Some (sentHeaders tm cl)) s \<noteq> None"
proof -
  from assms(1) obtain h where h: "h \<in> set (gs_headers s)" "ToLower (fst h) \<notin> set (map (\<lambda>t. ToLower (fst t)) tm)"
    by (auto simp: ownHeader_def list_ex_iff)
  then have "\<forall>t \<in> set tm. ToLower (fst t) \<noteq> ToLower (fst h)" by (metis image_eqI list.set_map)
  then have "sentHeaders tm cl (fst h) = []" using assms(2) by (simp add: sentHeaders_def filter_empty_conv)
  with h(1) show ?thesis by (auto simp: checkRequiredHeaders_None headersPresent_def intro!: bexI [of _ h])
qed

interpretation headers_inv: transition_invariant headers_inv "system_step c" headers_inv for c
proof
  fix s t assume "system_step c s t" and inv: "headers_inv s"
  then obtain a where a: "system_exec c a s = Some t" by (auto elim: system_stepE)
  from baseCtx_run [OF system_step_exporter [OF a]] inv
  have ctx: "cu_baseCtx (ex_client (sys_ex t)) = []" by (simp add: headers_inv_def)
  show "headers_inv t"
  proof (cases a)
    case (ExportCall i unlucky lost)
    with a have "exportCall i unlucky lost s = Some t" by simp
    then show ?thesis
    proof (cases rule: exportCall_cases)
      case (1 r reply result srv)
      from inv no_headers_no_reply [of "sys_transport s" "sys_srv s" "ex_client (sys_ex s)"]
      have "checkRequiredHeaders (Some (sentHeaders (sys_transport s) (ex_client (sys_ex s)))) (sys_srv s) \<noteq> None"
        by (simp add: headers_inv_def)
      with 1(2) have "reply = (ExportError [], sys_srv s)" by (simp add: mock_Export_def)
      with 1(3) have "srv = sys_srv s" by (auto simp: networkReply_def split: option.splits if_splits)
      with inv ctx 1(5-7) show ?thesis by (simp add: headers_inv_def)
    qed
  qed (use a inv ctx in \<open>auto simp: headers_inv_def configCall_def ms_SetConfig_def Let_def
      split: if_splits option.splits\<close>)
qed

section \<open>A run of the whole system\<close>

text \<open>A run of the exporter whose calls are answered with the server's configuration.\<close>

fun answeredBy :: "ShardingConfig \<Rightarrow> exporterAction \<Rightarrow> bool" where
  "answeredBy config (XGetConfig cfg) \<longleftrightarrow> cfg = Some config"
| "answeredBy config a \<longleftrightarrow> localAction a"

lemma answered_exec:
  assumes "exporter_exec c a e = Some e'" and "answeredBy config a"
    and "gs_headers srv = []" and "ms_config (gs_srv srv) = Some config"
  obtains b where "system_exec c b \<lparr>sys_ex = e, sys_srv = srv, sys_stored = st, sys_transport = tm\<rparr> =
      Some \<lparr>sys_ex = e', sys_srv = srv, sys_stored = st, sys_transport = tm\<rparr>" "b = Local a \<or> b = ConfigCall False"
proof (cases "localAction a")
  case True
  with assms(1) show thesis by (intro that [of "Local a"]) simp_all
next
  case False
  with assms(2) have "a = XGetConfig (Some config)" by (cases a) (auto elim: localAction.elims)
  with assms(1,3,4) show thesis
    by (intro that [of "ConfigCall False"])
      (simp_all add: configCall_def mock_GetShardingConfig_def checkRequiredHeaders_def ms_GetConfig_def)
qed

lemma system_lift:
  assumes "exporter_run c as e = Some e'" and "list_all (answeredBy config) as"
    and "gs_headers srv = []" and "ms_config (gs_srv srv) = Some config"
  shows "(system_step c)\<^sup>*\<^sup>* \<lparr>sys_ex = e, sys_srv = srv, sys_stored = st, sys_transport = tm\<rparr>
    \<lparr>sys_ex = e', sys_srv = srv, sys_stored = st, sys_transport = tm\<rparr>"
  using assms(1,2)
proof (induction "as" arbitrary: e)
  case (Cons a "as")
  then obtain e1 where e1: "exporter_exec c a e = Some e1" "exporter_run c as e1 = Some e'"
    "answeredBy config a" "list_all (answeredBy config) as"
    by (auto split: option.splits)
  from answered_exec [OF e1(1,3) assms(3,4)] Cons.IH [OF e1(2,4)] show ?case
    by (metis converse_rtranclp_into_rtranclp system_step.act)
qed simp

definition sampleTransport :: "(string \<times> string) list" where
  "sampleTransport =
     [('':authority'', ''localhost''), (''content-type'', ''application/grpc''), (''user-agent'', ''grpc-go'')]"

lemma ToLower_eval:
  "ToLower ''token'' = ''token''" "ToLower '':authority'' = '':authority''"
  "ToLower ''content-type'' = ''content-type''" "ToLower ''user-agent'' = ''user-agent''"
  by code_simp+

definition sampleServer :: "(string \<times> string) list \<Rightarrow> gRPCServer" where
  "sampleServer headers = ms_Listen headers (ms_SetConfig (Some testConfig4) newMockServer)"

definition deliveredSystem :: system where
  "deliveredSystem = the (system_exec sampleCodec (ExportCall 0 False None)
     \<lparr>sys_ex = calledExporter, sys_srv = sampleServer [], sys_stored = [], sys_transport = sampleTransport\<rparr>)"

lemma sampleShard_inConfig: "origin (shards inMem4 ! 2) \<in> set (ShardDefinitions testConfig4)"
  by (simp add: inMem4_def testConfig4_def toInMem_def)

lemma deliveredSystem_call:
  "system_exec sampleCodec (ExportCall 0 False None)
     \<lparr>sys_ex = calledExporter, sys_srv = sampleServer [], sys_stored = [], sys_transport = sampleTransport\<rparr> = Some deliveredSystem"
  and deliveredSystem_facts: "ex_delivered (sys_ex deliveredSystem) = [sampleSpan 3 0]"
    "GetRecords (ms_Sink (gs_srv (sys_srv deliveredSystem))) = [sampleSentRecord]"
  using sampleShard_inConfig
  by (simp_all add: deliveredSystem_def calledExporter_def sampleClient_def exportCall_def callOf_def
      mock_Export_def checkRequiredHeaders_def sampleServer_def ms_Listen_def newMockServer_def
      ms_SetConfig_def ms_GetConfig_def shardIsPartOfConfig_iff newRequest_def networkReply_def
      clientStep_def sendRequest_def OnSendResponse_delivered sampleExporter_facts Let_def
      sink_onReceive_def GetRecords_def sendingExporter_def configuredExporter_def sampleExporter_def)

lemma sampleServer_facts: "gs_headers (sampleServer hs) = hs"
    "ms_config (gs_srv (sampleServer hs)) = Some testConfig4"
  by (simp_all add: sampleServer_def ms_Listen_def ms_SetConfig_def SetRequiredHeaders_def Let_def)

lemma deliveredSystem_reach:
  "(system_step sampleCodec)\<^sup>*\<^sup>* \<lparr>sys_ex = sampleExporter, sys_srv = sampleServer [], sys_stored = [], sys_transport = sampleTransport\<rparr> deliveredSystem"
proof -
  note lift = system_lift [where config = testConfig4 and srv = "sampleServer []", OF _ _ sampleServer_facts]
  have 1: "(system_step sampleCodec)\<^sup>*\<^sup>* \<lparr>sys_ex = sampleExporter, sys_srv = sampleServer [], sys_stored = [], sys_transport = sampleTransport\<rparr>
      \<lparr>sys_ex = configuredExporter, sys_srv = sampleServer [], sys_stored = [], sys_transport = sampleTransport\<rparr>"
    by (intro lift [OF configuredExporter_run]) (simp_all add: list_all_iff)
  have 2: "(system_step sampleCodec)\<^sup>*\<^sup>* \<lparr>sys_ex = configuredExporter, sys_srv = sampleServer [], sys_stored = [], sys_transport = sampleTransport\<rparr>
      \<lparr>sys_ex = sendingExporter, sys_srv = sampleServer [], sys_stored = [], sys_transport = sampleTransport\<rparr>"
    by (intro lift [OF sendingExporter_run]) simp
  have 3: "(system_step sampleCodec)\<^sup>*\<^sup>* \<lparr>sys_ex = sendingExporter, sys_srv = sampleServer [], sys_stored = [], sys_transport = sampleTransport\<rparr>
      \<lparr>sys_ex = calledExporter, sys_srv = sampleServer [], sys_stored = [], sys_transport = sampleTransport\<rparr>"
    by (intro lift [OF calledExporter_run]) simp
  from rtranclp_trans [OF rtranclp_trans [OF 1 2] 3]
  have "(system_step sampleCodec)\<^sup>*\<^sup>* \<lparr>sys_ex = sampleExporter, sys_srv = sampleServer [], sys_stored = [], sys_transport = sampleTransport\<rparr>
      \<lparr>sys_ex = calledExporter, sys_srv = sampleServer [], sys_stored = [], sys_transport = sampleTransport\<rparr>"
    .
  then show ?thesis by (rule rtranclp.rtrancl_into_rtrancl) (rule system_step.act [OF deliveredSystem_call])
qed

section \<open>Properties\<close>

text \<open>
  C6: what is delivered has arrived. Whatever the exporter, the network and the server do, the
  records in the server's sink are those of the requests the server has stored, in order; each
  of them names a shard that its partition key and all its spans belong to; and the spans the
  exporter counts as delivered are, with multiplicities, those of the stored requests whose
  answer SUCCESS has come back.
\<close>

theorem system_delivery:
  assumes "CreateTraceExporter register cfg = Some e0" and "GetRecords (ms_Sink (gs_srv srv)) = []"
    and "(system_step c)\<^sup>*\<^sup>* \<lparr>sys_ex = e0, sys_srv = srv, sys_stored = [], sys_transport = tm\<rparr> s"
  shows "GetRecords (ms_Sink (gs_srv (sys_srv s))) =
      rev (map (\<lambda>h. ReqRecord (exportRequest (fst h))) (sys_stored s)) \<and>
    (\<forall>h \<in> set (sys_stored s).
       let shard = toInMem (ReqShard (exportRequest (fst h)))
       in belongsToShard shard (PartitionKey (ReqRecord (exportRequest (fst h)))) \<and>
          (\<forall>sp \<in> set (originalSpans (fst h)). belongsToShard shard (spanPartitionKey c sp))) \<and>
    spanKeys (ex_delivered (sys_ex s)) =
      (\<Sum>h\<leftarrow>sys_stored s. if snd h = Some SUCCESS then spanKeys (originalSpans (fst h)) else {#})"
proof -
  from assms(1,2) have "system_started (cfg_Name cfg) \<lparr>sys_ex = e0, sys_srv = srv, sys_stored = [], sys_transport = tm\<rparr>"
    by (auto simp: system_started_def exporter_started_def)
  from system_inv.reachable_inv [OF this assms(3)] show ?thesis
    by (simp add: system_inv_def sinkRecords_def storedSpans_def requestOk_def Let_def)
qed

theorem system_delivery_witness:
  "\<exists>r. sys_stored deliveredSystem = [(r, Some SUCCESS)] \<and> ReqRecord (exportRequest r) = sampleSentRecord \<and>
     spanKeys (originalSpans r) = spanKeys [sampleSpan 3 0]"
proof -
  have "GetRecords (ms_Sink (gs_srv (sampleServer []))) = []"
    by (simp add: sampleServer_def ms_Listen_def ms_SetConfig_def newMockServer_def GetRecords_def Let_def)
  from system_delivery [OF sampleExporter_new this deliveredSystem_reach] deliveredSystem_facts
  show ?thesis by (cases "sys_stored deliveredSystem") (auto split: if_splits)
qed

text \<open>
  C29: a server that requires a header of its own never gets a record from this exporter, whatever
  headers the exporter's configuration has: \<open>connectAndGetConfig\<close> does not pass them on. If one of
  the required headers is not among those gRPC sends by itself, every call is refused: no record is
  ever stored, nothing is ever delivered, and the exporter never gets a configuration from the server.
\<close>

theorem system_headers_missing:
  assumes "CreateTraceExporter register cfg = Some e0"
    and "ownHeader tm (gs_headers srv)"
    and "GetRecords (ms_Sink (gs_srv srv)) = []"
    and "(system_step c)\<^sup>*\<^sup>* \<lparr>sys_ex = e0, sys_srv = srv, sys_stored = [], sys_transport = tm\<rparr> s"
  shows "GetRecords (ms_Sink (gs_srv (sys_srv s))) = [] \<and> ex_delivered (sys_ex s) = [] \<and>
    (\<forall>i unlucky lost t. system_exec c (ExportCall i unlucky lost) s = Some t \<longrightarrow> sys_srv t = sys_srv s) \<and>
    (\<forall>lost t. system_exec c (ConfigCall lost) s = Some t \<longrightarrow>
       en_configChangeRequest (es_enc (ex_enc (sys_ex t))) = en_configChangeRequest (es_enc (ex_enc (sys_ex s))))"
proof -
  let ?s0 = "\<lparr>sys_ex = e0, sys_srv = srv, sys_stored = [], sys_transport = tm\<rparr>"
  from assms(1,3) have "system_started (cfg_Name cfg) ?s0"
    by (auto simp: system_started_def exporter_started_def)
  from system_inv.reachable_inv [OF this assms(4)] have inv: "system_inv c (cfg_Name cfg) s" .
  from assms(1) have "ex_client e0 = NewClientUnary"
    by (auto simp: CreateTraceExporter_def NewExporter_def Let_def split: option.splits)
  with assms(2) have "headers_inv ?s0" by (simp add: headers_inv_def NewClientUnary_def)
  from headers_inv.run_inv [OF assms(4) this] have hinv: "headers_inv s" .
  then have refused: "checkRequiredHeaders (Some (sentHeaders (sys_transport s) (ex_client (sys_ex s)))) (sys_srv s) \<noteq> None"
    by (intro no_headers_no_reply) (simp_all add: headers_inv_def)
  have "sys_srv t = sys_srv s" if "exportCall i unlucky lost s = Some t" for i unlucky lost t
    using that
  proof (cases rule: exportCall_cases)
    case (1 r reply result srv)
    with refused show ?thesis by (auto simp: mock_Export_def networkReply_def split: option.splits if_splits)
  qed
  moreover have "en_configChangeRequest (es_enc (ex_enc (sys_ex t))) = en_configChangeRequest (es_enc (ex_enc (sys_ex s)))"
    if "configCall lost s = Some t" for lost t
    using that refused
    by (auto simp: configCall_def mock_GetShardingConfig_def getConfigStep_def client_GetShardingConfig_def Let_def
        split: option.splits if_splits sum.splits)
  moreover from hinv have "sys_stored s = []" by (simp add: headers_inv_def)
  ultimately show ?thesis using inv by (simp add: system_inv_def sinkRecords_def storedSpans_def)
qed

text \<open>
  A server that requires a token: the exporter starts, connects, is refused the configuration and takes a
  batch, which stays with it.
\<close>

definition refusedSystem :: system where
  "refusedSystem =
     \<lparr>sys_ex = sampleExporter\<lparr>ex_client := sampleClient [] SendIdle, ex_start := StartReturned,
        ex_enc := (enc_sys_init sampleEnc)\<lparr>es_checked := [[sampleSpan 3 0]], es_accepted := [sampleSpan 3 0]\<rparr>,
        ex_consumed := [sampleSpan 3 0]\<rparr>,
      sys_srv = sampleServer [(''token'', ''x'')], sys_stored = [], sys_transport = sampleTransport\<rparr>"

lemma refusedSystem_reach:
  "(system_step sampleCodec)\<^sup>*\<^sup>* \<lparr>sys_ex = sampleExporter, sys_srv = sampleServer [(''token'', ''x'')],
     sys_stored = [], sys_transport = sampleTransport\<rparr> refusedSystem"
proof -
  let ?sys = "\<lambda>e. \<lparr>sys_ex = e, sys_srv = sampleServer [(''token'', ''x'')], sys_stored = [],
    sys_transport = sampleTransport\<rparr>"
  let ?e1 = "sampleExporter\<lparr>ex_start := Connecting\<rparr>"
  let ?e2 = "sampleExporter\<lparr>ex_client := sampleClient [] SendIdle, ex_start := GettingConfig\<rparr>"
  let ?e3 = "sampleExporter\<lparr>ex_client := sampleClient [] SendIdle, ex_start := StartReturned\<rparr>"
  have c: "connectionOptions sampleConfig = sampleConn"
    by (simp add: connectionOptions_def sampleConfig_def sampleConn_def)
  have refused: "checkRequiredHeaders (Some (sentHeaders sampleTransport (sampleClient [] SendIdle)))
      (sampleServer [(''token'', ''x'')]) \<noteq> None"
    by (intro no_headers_no_reply) (simp_all add: ownHeader_def sampleServer_facts sampleClient_def sampleTransport_def ToLower_eval)
  have "system_exec sampleCodec (Local XStart) (?sys sampleExporter) = Some (?sys ?e1)"
    by (simp add: exporter_Start_def sampleExporter_def)
  moreover have "system_exec sampleCodec (Local (XConnect True)) (?sys ?e1) = Some (?sys ?e2)"
    by (simp add: connectStep_def sampleExporter_def c sampleClient_connected)
  moreover have "system_exec sampleCodec (ConfigCall False) (?sys ?e2) = Some (?sys ?e3)"
    using refused
    by (auto simp: configCall_def mock_GetShardingConfig_def getConfigStep_def client_GetShardingConfig_def
        sampleClient_def Let_def split: option.split)
  moreover have "system_exec sampleCodec (Local (XConsume (Some (None, [sampleSpan 3 0])))) (?sys ?e3) = Some refusedSystem"
    by (simp add: ConsumeTraceData_def sampleExporter_def refusedSystem_def enc_sys_init_def isStopping_def
        fillProcess_def sampleEnc_def Let_def)
  ultimately show ?thesis
    by (meson system_step.act converse_rtranclp_into_rtranclp rtranclp.rtrancl_refl)
qed

theorem system_headers_missing_witness:
  "ex_consumed (sys_ex refusedSystem) = [sampleSpan 3 0] \<and> ex_delivered (sys_ex refusedSystem) = [] \<and>
   GetRecords (ms_Sink (gs_srv (sys_srv refusedSystem))) = []"
proof -
  have "ownHeader sampleTransport (gs_headers (sampleServer [(''token'', ''x'')]))"
    by (simp add: ownHeader_def sampleServer_facts sampleTransport_def ToLower_eval)
  moreover have "GetRecords (ms_Sink (gs_srv (sampleServer [(''token'', ''x'')]))) = []"
    by (simp add: sampleServer_def ms_Listen_def ms_SetConfig_def newMockServer_def GetRecords_def
        SetRequiredHeaders_def Let_def)
  ultimately show ?thesis
    using system_headers_missing [OF sampleExporter_new _ _ refusedSystem_reach] by (simp add: refusedSystem_def)
qed

text \<open>
  A mismatch heals itself. When the server rejects a record because its shard is not part of
  the configuration, the exporter asks the encoder for the configuration in the answer and
  queues the spans again; and once the encoder has applied it, every record for any
  of its shards is one that this server stores: no span is rejected twice for the same change.
\<close>

lemma mismatch_heals:
  assumes "mock_Export ctx False (exportRequest r) srv = Inr (ExportOk response, srv')"
    and "RespResultCode response = SHARD_CONFIG_MISTMATCH"
    and "ms_nextResponseCode (gs_srv srv) \<noteq> SHARD_CONFIG_MISTMATCH"
    and "\<not> en_configChangeStopped (es_enc (ex_enc e))"
    and "length (chan_items (ex_spansToRetry e)) < chan_cap (ex_spansToRetry e)"
    and "e' = fold handleClientEvent (sendRequest (ExportOk response) r) e"
    and "processConfigChange (es_enc (ex_enc e')) = (enc, ConfigApplied first, evs)"
  shows "srv' = srv \<and> chan_items (ex_spansToRetry e') = chan_items (ex_spansToRetry e) @ [originalSpans r] \<and>
    (\<exists>config cfg. ms_config (gs_srv srv) = Some config \<and> newShardingInMemConfig config = Inr cfg \<and>
       currentShards enc = shards cfg) \<and>
    (\<forall>shard \<in> set (currentShards enc). \<forall>record spans. \<exists>reply srv''.
       mock_Export ctx False (exportRequest (newRequest record spans (origin shard))) srv' = Inr (reply, srv'') \<and>
       GetRecords (ms_Sink (gs_srv srv'')) = GetRecords (ms_Sink (gs_srv srv)) @ [record])"
proof -
  from assms(1-3) obtain config where config: "ms_config (gs_srv srv) = Some config" "srv' = srv"
    and ctx: "checkRequiredHeaders ctx srv = None"
    and resp: "RespShardingConfig response = Some config"
    by (auto simp: mock_Export_def ms_GetConfig_def split: if_splits option.splits)
  have enc': "en_configChangeRequest (es_enc (ex_enc e')) = Some config"
    "\<not> en_configChangeStopped (es_enc (ex_enc e'))"
    using assms(2,4,6) resp
    by (simp_all add: sendRequest_def OnSendResponse_def requestConfig_def SetConfig_def Let_def)
  have queue: "chan_items (ex_spansToRetry e') = chan_items (ex_spansToRetry e) @ [originalSpans r]"
    using assms(2,5,6)
    by (simp add: sendRequest_def OnSendResponse_def resendSpans_def requestConfig_def chan_send_def Let_def)
  from processConfigChange_shards [OF assms(7) enc'(1)] obtain cfg
    where cfg: "newShardingInMemConfig config = Inr cfg" "currentShards enc = shards cfg" by blast
  have "\<exists>reply srv''. mock_Export ctx False (exportRequest (newRequest rec0 spans (origin shard))) srv = Inr (reply, srv'') \<and>
      GetRecords (ms_Sink (gs_srv srv'')) = GetRecords (ms_Sink (gs_srv srv)) @ [rec0]"
    if "shard \<in> set (currentShards enc)" for shard and rec0 :: EncodedRecord and spans
  proof -
    from that cfg have "shardIsPartOfConfig (origin shard) config"
      by (simp add: shardIsPartOfConfig_iff accepted_origin)
    with ctx config(1) show ?thesis
      by (simp add: mock_Export_def ms_GetConfig_def newRequest_def GetRecords_def sink_onReceive_def)
  qed
  with config queue cfg show ?thesis by blast
qed

lemma mismatch_heals_witness:
  "\<exists>cfg. newShardingInMemConfig testConfig4 = Inr cfg \<and> currentShards sampleEnc4 = shards cfg"
proof -
  let ?response = "\<lparr>RespResultCode = SHARD_CONFIG_MISTMATCH, RespShardingConfig = Some testConfig4\<rparr>"
  have call: "mock_Export None False (exportRequest (sampleReq ''a'')) (sampleServer []) =
      Inr (ExportOk ?response, sampleServer [])"
    by (simp add: mock_Export_def checkRequiredHeaders_def sampleServer_facts ms_GetConfig_def
        shardIsPartOfConfig_iff sampleReq_def newRequest_def testConfig4_def quarterShard_def)
  have next_code: "ms_nextResponseCode (gs_srv (sampleServer [])) \<noteq> SHARD_CONFIG_MISTMATCH"
    by (simp add: sampleServer_def ms_Listen_def ms_SetConfig_def newMockServer_def Let_def)
  have e: "\<not> en_configChangeStopped (es_enc (ex_enc sampleExporter))"
    "length (chan_items (ex_spansToRetry sampleExporter)) < chan_cap (ex_spansToRetry sampleExporter)"
    by (simp_all add: sampleExporter_def enc_sys_init_def sampleEnc_def make_chan_def retryQueueSize_def)
  have change: "processConfigChange (es_enc (ex_enc (fold handleClientEvent
      (sendRequest (ExportOk ?response) (sampleReq ''a'')) sampleExporter))) = (sampleEnc4, ConfigApplied True, [])"
    using sampleEnc4_config
    by (simp add: sampleExporter_def enc_sys_init_def sendRequest_def OnSendResponse_def requestConfig_def Let_def)
  from mismatch_heals [OF call _ next_code e refl change] sampleServer_facts(2) [of "[]"]
  show ?thesis by auto
qed

end
