(* ===== verification/SystemLive.thy ===== *)
theory SystemLive
  imports Delivery System
begin

text \<open>
  The exporter against a server that agrees with it: the server requires no headers, returns no
  errors at random and has the configuration that the shards in use and the requests under way
  are of. Every schedule of the exporter's goroutines and of the server then brings the spans to
  the server's sink, except those that cannot be encoded or find the retry queue full.
\<close>

section \<open>Records are of shards in use\<close>

lemma Flush_in_use:
  assumes "inv_shape c s" and "inv_retired s" and "inv_fresh s" and "a < length (en_heap (es_enc s))"
    and "Flush c (en_heap (es_enc s) ! a) = (se, evs)" and "RecordReady rec spans sh \<in> set evs"
  shows "\<exists>a \<in> set (en_shardEncoders (es_enc s)). sh = se_shard (en_heap (es_enc s) ! a)"
proof -
  from Flush_RecordReady [OF assms(5,6)] have sh: "\<not> se_stopped (en_heap (es_enc s) ! a)"
    "sh = se_shard (en_heap (es_enc s) ! a)" "se_spans (en_heap (es_enc s) ! a) \<noteq> []" by auto
  with assms(2,4) have "\<not> stoppedSoFar (es_enc s) (es_config s) a" by (auto simp: inv_retired_def)
  moreover from sh(3) assms(3) have "a \<notin> beingStarted (es_config s)" by (auto simp: inv_fresh_def unused_def)
  ultimately have "a \<in> set (en_shardEncoders (es_enc s))"
    using assms(1) stoppedSoFar_outside by (auto simp: inv_shape_def)
  with sh show ?thesis by blast
qed

lemma worker_step_record:
  assumes "worker_step c e w = Some (e', w', evs)" and "RecordReady rec spans sh \<in> set evs"
  obtains a rest se where "w = FlushDue a rest" "Flush c (en_heap e ! a) = (se, evs)"
  using assms(1)
proof (cases rule: worker_step_cases)
  case (dequeued batch)
  with assms(2) show thesis by (auto simp: dequeueSpans_def split: option.splits)
next
  case finished
  with assms(2) show thesis by (auto simp: wgDone_def split: if_splits)
next
  case (rejected a span rest span1 err)
  with tryEncodeSpan_events [OF rejected(2), of _ rec spans sh] assms(2) show thesis by auto
next
  case (measured a span rest span1 sz)
  with tryEncodeSpan_events [OF measured(2), of _ rec spans sh] assms(2) show thesis by auto
next
  case (accumulated a span sz rest se needFlush)
  with accumulateLocked_events [OF accumulated(2), of _ rec spans sh] assms(2) show thesis by auto
next
  case (flushed a rest se)
  with that show thesis by blast
qed (use assms(2) in auto)

lemma carries_record_in_use:
  assumes "enc_exec c act s = Some t" and "carries act" and "inv_shape c s" and "inv_retired s" and "inv_fresh s"
    and "es_events t = es_events s @ evs" and "RecordReady rec spans sh \<in> set evs"
  shows "\<exists>a \<in> set (en_shardEncoders (es_enc s)). sh = se_shard (en_heap (es_enc s) ! a)"
proof -
  have len: "length (es_flushers s) = length (en_heap (es_enc s))"
    using assms(3) by (simp add: inv_shape_def)
  from assms(1) show ?thesis
  proof (cases rule: enc_exec_cases)
    case (send i e evs')
    with assms(6,7) show ?thesis by (auto simp: enqueueSpans_def split: option.splits)
  next
    case (work i e w evs')
    with assms(6) have "evs' = evs" by simp
    with work(3) assms(7) obtain a rest se where w: "es_workers s ! i = FlushDue a rest"
      "Flush c (en_heap (es_enc s) ! a) = (se, evs)" by (metis worker_step_record)
    from assms(3) work(2) have "workerOk c (es_enc s) (es_workers s ! i)" by (simp add: inv_shape_def)
    with w have "a < length (en_heap (es_enc s))" by simp
    from Flush_in_use [OF assms(3-5) this w(2) assms(7)] show ?thesis .
  next
    case (tick a se evs')
    with assms(6,7) len Flush_in_use [OF assms(3-5) _ tick(4)] show ?thesis by auto
  next
    case (final a se evs')
    with assms(6,7) len Flush_in_use [OF assms(3-5) _ final(4)] show ?thesis by auto
  qed (use assms(2,6,7) in auto)
qed

section \<open>Nothing is given up\<close>

definition quiet :: "exporter \<Rightarrow> exporter \<Rightarrow> bool" where
  "quiet e e' \<longleftrightarrow> ex_unanswered e' = ex_unanswered e \<and> ex_abandoned e' = ex_abandoned e \<and>
     (\<exists>ds. ex_dropped e' = ds @ ex_dropped e \<and>
        (\<forall>d \<in> set ds. fst d = FatalEncodingError \<or> fst d = RetryQueueFull))"

lemma quiet_refl [simp]: "quiet e e"
  by (simp add: quiet_def)

lemma quiet_trans:
  assumes "quiet e e1" and "quiet e1 e2"
  shows "quiet e e2"
proof -
  from assms(1) obtain ds where ds: "ex_dropped e1 = ds @ ex_dropped e"
    "\<forall>d \<in> set ds. fst d = FatalEncodingError \<or> fst d = RetryQueueFull" by (auto simp: quiet_def)
  from assms(2) obtain ds' where ds': "ex_dropped e2 = ds' @ ex_dropped e1"
    "\<forall>d \<in> set ds'. fst d = FatalEncodingError \<or> fst d = RetryQueueFull" by (auto simp: quiet_def)
  from ds ds' have "ex_dropped e2 = (ds' @ ds) @ ex_dropped e \<and>
      (\<forall>d \<in> set (ds' @ ds). fst d = FatalEncodingError \<or> fst d = RetryQueueFull)" by auto
  then have "\<exists>ds. ex_dropped e2 = ds @ ex_dropped e \<and>
      (\<forall>d \<in> set ds. fst d = FatalEncodingError \<or> fst d = RetryQueueFull)" by (rule exI)
  with assms show ?thesis by (simp add: quiet_def)
qed

lemma quiet_same:
  "ex_unanswered e' = ex_unanswered e \<Longrightarrow> ex_abandoned e' = ex_abandoned e \<Longrightarrow>
     ex_dropped e' = ex_dropped e \<Longrightarrow> quiet e e'"
  by (simp add: quiet_def)

lemma quiet_drop:
  "code = FatalEncodingError \<or> code = RetryQueueFull \<Longrightarrow> quiet e (dropSpans code spans orec e)"
  by (auto simp: quiet_def dropSpans_def)

lemma quiet_resend: "quiet e (resendSpans spans e)"
  by (cases rule: resendSpans_cases [of spans e]) (auto simp: quiet_drop intro: quiet_same)

lemma quiet_event: "quiet e (handleEvent g ev e)"
proof (cases ev)
  case (SpanProcessFail spans code)
  then show ?thesis by (cases code) (simp_all add: onSpanProcessFail_def quiet_drop quiet_resend)
qed (auto simp: onRecordReady_def intro: quiet_same)

lemma quiet_events: "quiet e (fold (handleEvent g) evs e)"
  by (induction evs arbitrary: e) (auto intro: quiet_trans quiet_event)

lemma quiet_exec:
  assumes "exporter_exec c a e = Some e'" and "carriesOn a"
    and "\<forall>i result. a = XClient (ExportReturns i result) \<longrightarrow> replyCode result = Some SUCCESS"
    and "\<not> isStopping (es_enc (ex_enc e))"
  shows "quiet e e'"
  using assms(1)
proof (cases rule: exporter_exec_cases)
  case (encoder act enc evs)
  have "quiet e (e\<lparr>ex_enc := enc\<rparr>)" by (simp add: quiet_same)
  with encoder(3) show ?thesis by (auto intro: quiet_trans quiet_events)
next
  case (client m cl evs)
  from client(2) show ?thesis
  proof (cases rule: client_move_cases)
    case (finish i result r)
    with assms(3) client(1) obtain response where "result = ExportOk response" "RespResultCode response = SUCCESS"
      by (auto simp: replyCode_def split: exportResult.splits)
    with finish client(3) show ?thesis
      by (auto simp: sendRequest_def OnSendResponse_def Let_def intro: quiet_same)
  qed (auto simp: client(3) intro: quiet_same)
next
  case (abandoned spans q)
  with assms(4) show ?thesis by simp
qed (use assms(2) in \<open>auto intro: quiet_same\<close>)

section \<open>Agreement with the server\<close>

definition agrees :: "ShardingConfig \<Rightarrow> exporter \<Rightarrow> bool" where
  "agrees config e \<longleftrightarrow>
     (\<forall>a \<in> set (en_shardEncoders (es_enc (ex_enc e))).
        origin (se_shard (en_heap (es_enc (ex_enc e)) ! a)) \<in> set (ShardDefinitions config)) \<and>
     (\<forall>h \<in> set (ex_sending e). origin (snd (snd (snd h))) \<in> set (ShardDefinitions config)) \<and>
     (\<forall>r \<in> set (client_pending (ex_client e)). ReqShard (exportRequest r) \<in> set (ShardDefinitions config))"

lemma handleEvents_sending:
  assumes "h \<in> set (ex_sending (fold (handleEvent g) evs e))"
  shows "h \<in> set (ex_sending e) \<or> (\<exists>rec spans sh. RecordReady rec spans sh \<in> set evs \<and> h = (g, rec, spans, sh))"
  using assms
proof (induction evs arbitrary: e)
  case (Cons ev evs)
  then consider "h \<in> set (ex_sending (handleEvent g ev e))"
    | "\<exists>rec spans sh. RecordReady rec spans sh \<in> set evs \<and> h = (g, rec, spans, sh)" by auto
  then show ?case
  proof cases
    case 1
    then show ?thesis by (cases ev) (auto simp: onRecordReady_def)
  qed auto
qed simp

text \<open>What such a move leaves of the encoder.\<close>

lemma carriesOn_enc:
  assumes "exporter_exec c a e = Some e'" and "carriesOn a" and "settleable c name e"
  shows "stoppedSame (es_enc (ex_enc e)) (es_enc (ex_enc e')) \<and> es_config (ex_enc e') = es_config (ex_enc e)"
  using assms(1)
proof (cases rule: exporter_exec_cases)
  case (encoder act t evs)
  note enc = settleable_enc [OF assms(3)]
  from encoder(1) assms(2) have "carries act" by simp
  from encLoad_exec [OF encoder(2) this enc(2,4)] have "stoppedSame (es_enc (ex_enc e)) (es_enc t)"
    "es_config t = es_config (ex_enc e)" by metis+
  with encoder(3) show ?thesis by (simp add: handleEvents_frame)
next
  case (client m cl evs)
  with sends_frame [OF assms(1) _ assms(2)] show ?thesis by simp
qed (use assms(2) in \<open>auto split: if_splits\<close>)

lemma agrees_encoder:
  assumes "agrees config e" and "enc_exec c act (ex_enc e) = Some t" and "carries act"
    and "inv_shape c (ex_enc e)" and "inv_retired (ex_enc e)" and "inv_fresh (ex_enc e)"
    and "stoppedSame (es_enc (ex_enc e)) (es_enc t)"
    and "es_events t = es_events (ex_enc e) @ evs"
  shows "agrees config (fold (handleEvent g) evs (e\<lparr>ex_enc := t\<rparr>))" (is "agrees config ?e'")
proof -
  note fr = handleEvents_frame [of g evs "e\<lparr>ex_enc := t\<rparr>"]
  have "origin (snd (snd (snd h))) \<in> set (ShardDefinitions config)" if "h \<in> set (ex_sending ?e')" for h
  proof -
    from that handleEvents_sending [of h g evs "e\<lparr>ex_enc := t\<rparr>"]
    consider "h \<in> set (ex_sending e)" | rec spans sh where "RecordReady rec spans sh \<in> set evs"
      "h = (g, rec, spans, sh)" by auto
    then show ?thesis
    proof cases
      case 2
      from carries_record_in_use [OF assms(2-6,8) 2(1)] 2(2) assms(1) show ?thesis
        by (auto simp: agrees_def)
    qed (use assms(1) in \<open>simp add: agrees_def\<close>)
  qed
  with fr assms(1,7) show ?thesis by (simp add: agrees_def stoppedSame_def)
qed

lemma agrees_sent:
  assumes "agrees config e" and "i < length (ex_sending e)" and "ex_sending e ! i = (g, rec, spans, sh)"
    and "client_Send rec spans (origin sh) (ex_client e) = Some cl"
  shows "agrees config (e\<lparr>ex_client := cl, ex_sending := removeNth i (ex_sending e)\<rparr>)"
proof -
  from client_unary.send_pending [OF assms(4)]
  have "set (client_pending cl) = insert (newRequest rec spans (origin sh)) (set (client_pending (ex_client e)))"
    by (metis set_mset_add_mset_insert set_mset_mset)
  moreover from assms(2,3) have "(g, rec, spans, sh) \<in> set (ex_sending e)" by (metis nth_mem)
  ultimately show ?thesis
    using assms(1) removeNth_subset [of i "ex_sending e"] by (auto simp: agrees_def newRequest_def)
qed

lemma agrees_exec:
  assumes "exporter_exec c a e = Some e'" and "carriesOn a" and "settleable c name e" and "agrees config e"
  shows "agrees config e'"
  using assms(1)
proof (cases rule: exporter_exec_cases)
  case (encoder act t evs)
  note enc = settleable_enc [OF assms(3)]
  from enc(1) have ret: "inv_retired (ex_enc e)" "inv_fresh (ex_enc e)" by (simp_all add: enc_inv_def)
  from encoder(1) assms(2) have ca: "carries act" by simp
  from encLoad_exec [OF encoder(2) ca enc(2,4)] have "stoppedSame (es_enc (ex_enc e)) (es_enc t)" .
  from agrees_encoder [OF assms(4) encoder(2) ca enc(2) ret this encoder(4)] show ?thesis
    by (simp add: encoder(3))
next
  case (sent i g rec spans sh cl)
  with agrees_sent [OF assms(4) sent(2-4)] show ?thesis by simp
next
  case (client m cl evs)
  have "ex_enc e' = ex_enc e"
    using client(1,2) assms(2) finalAnswer_events
    by (cases rule: client_move_cases [OF client(2)]) (auto simp: client(3))
  with assms(4) client_move_pending_subset [OF client(2)] show ?thesis
    by (auto simp: agrees_def client(3) handleClientEvents_client handleClientEvents_sending)
qed (use assms(2,4) in \<open>auto simp: agrees_def split: if_splits\<close>)

section \<open>The system at work\<close>

definition sysWorking :: "codec \<Rightarrow> system \<Rightarrow> system \<Rightarrow> bool" where
  "sysWorking c s s' \<longleftrightarrow>
     (\<exists>a. localAction a \<and> carriesOn a \<and> system_exec c (Local a) s = Some s' \<and> s' \<noteq> s) \<or>
     (\<exists>i. system_exec c (ExportCall i False None) s = Some s')"

definition serverReady :: "gRPCServer \<Rightarrow> ShardingConfig \<Rightarrow> bool" where
  "serverReady srv config \<longleftrightarrow> gs_headers srv = [] \<and> \<not> ms_RandomServerError (gs_srv srv) \<and>
     ms_nextResponseCode (gs_srv srv) = SUCCESS \<and> ms_config (gs_srv srv) = Some config"

lemma serverReady_stores [simp]:
  "serverReady (srv\<lparr>gs_srv := (gs_srv srv)\<lparr>ms_Sink := sink\<rparr>\<rparr>) config \<longleftrightarrow> serverReady srv config"
  by (simp add: serverReady_def)

lemma mock_Export_ready:
  assumes "serverReady srv config" and "ReqShard request \<in> set (ShardDefinitions config)"
  obtains response where "RespResultCode response = SUCCESS"
    "mock_Export ctx False request srv = Inr (ExportOk response,
       srv\<lparr>gs_srv := (gs_srv srv)\<lparr>ms_Sink := sink_onReceive request (ms_Sink (gs_srv srv))\<rparr>\<rparr>)"
proof
  let ?response = "\<lparr>RespResultCode = ms_nextResponseCode (gs_srv srv),
    RespShardingConfig = ms_nextResponseShardingConfig (gs_srv srv)\<rparr>"
  from assms show "RespResultCode ?response = SUCCESS"
    "mock_Export ctx False request srv = Inr (ExportOk ?response,
       srv\<lparr>gs_srv := (gs_srv srv)\<lparr>ms_Sink := sink_onReceive request (ms_Sink (gs_srv srv))\<rparr>\<rparr>)"
    by (simp_all add: serverReady_def mock_Export_def checkRequiredHeaders_def ms_GetConfig_def
        shardIsPartOfConfig_iff)
qed

text \<open>The states a working system goes through.\<close>

definition sysReady :: "codec \<Rightarrow> string \<Rightarrow> ShardingConfig \<Rightarrow> system \<Rightarrow> bool" where
  "sysReady c name config s \<longleftrightarrow> settleable c name (sys_ex s) \<and> agrees config (sys_ex s) \<and>
     serverReady (sys_srv s) config \<and> \<not> isStopping (es_enc (ex_enc (sys_ex s)))"

lemma sysWorking_exporter:
  assumes "sysWorking c s s'" and "sysReady c name config s"
  obtains a where "exporter_exec c a (sys_ex s) = Some (sys_ex s')" "carriesOn a" "sys_ex s' \<noteq> sys_ex s"
    "\<forall>i result. a = XClient (ExportReturns i result) \<longrightarrow> replyCode result = Some SUCCESS"
    "serverReady (sys_srv s') config"
  using assms(1) unfolding sysWorking_def
proof (elim disjE exE conjE)
  fix a assume a: "localAction a" "carriesOn a" "system_exec c (Local a) s = Some s'" "s' \<noteq> s"
  then obtain e where e: "exporter_exec c a (sys_ex s) = Some e" "s' = s\<lparr>sys_ex := e\<rparr>"
    by (auto split: option.splits)
  with a(4) have "e \<noteq> sys_ex s" by auto
  with a e assms(2) show thesis by (intro that [of a]) (auto simp: sysReady_def)
next
  fix i assume "system_exec c (ExportCall i False None) s = Some s'"
  then have "exportCall i False None s = Some s'" by simp
  then show thesis
  proof (cases rule: exportCall_cases)
    case (1 r reply result srv)
    from callOf_pending [OF 1(1)] assms(2) have "ReqShard (exportRequest r) \<in> set (ShardDefinitions config)"
      "serverReady (sys_srv s) config"
      by (auto simp: sysReady_def agrees_def)
    note here = this
    obtain response where resp: "RespResultCode response = SUCCESS"
      "mock_Export (Some (sentHeaders (sys_transport s) (ex_client (sys_ex s)))) False (exportRequest r) (sys_srv s) =
         Inr (ExportOk response, (sys_srv s)\<lparr>gs_srv := (gs_srv (sys_srv s))
           \<lparr>ms_Sink := sink_onReceive (exportRequest r) (ms_Sink (gs_srv (sys_srv s)))\<rparr>\<rparr>)"
      by (rule mock_Export_ready [OF here(2,1)])
    with 1(2,3) here(2) have r: "result = ExportOk response" "RespResultCode response = SUCCESS"
      "serverReady srv config"
      by (auto simp: networkReply_def)
    have carry: "carriesOn (XClient (ExportReturns i result))" by (simp add: r(1,2))
    from exLoad_client [OF 1(4) carry] have "sys_ex s' \<noteq> sys_ex s" by auto
    with 1(4,5) carry r show thesis
      by (intro that [of "XClient (ExportReturns i result)"]) (auto simp: replyCode_def)
  qed
qed

lemma sysWorking_ready:
  assumes "sysWorking c s s'" and "sysReady c name config s"
  shows "working c (sys_ex s) (sys_ex s') \<and> quiet (sys_ex s) (sys_ex s') \<and> sysReady c name config s'"
proof -
  from assms(2) have s: "settleable c name (sys_ex s)" "agrees config (sys_ex s)"
    "\<not> isStopping (es_enc (ex_enc (sys_ex s)))" by (auto simp: sysReady_def)
  obtain a where a: "exporter_exec c a (sys_ex s) = Some (sys_ex s')"
    "carriesOn a" "sys_ex s' \<noteq> sys_ex s"
    "\<forall>i result. a = XClient (ExportReturns i result) \<longrightarrow> replyCode result = Some SUCCESS"
    "serverReady (sys_srv s') config"
    by (rule sysWorking_exporter [OF assms])
  then have w: "working c (sys_ex s) (sys_ex s')" by (auto simp: working_def)
  from w a(5) working_settleable [OF w s(1)] agrees_exec [OF a(1,2) s(1,2)]
    quiet_exec [OF a(1,2,4) s(3)] carriesOn_enc [OF a(1,2) s(1)] s(3)
  show ?thesis by (simp add: sysReady_def stoppedSame_def)
qed

lemma sysWorking_progress:
  assumes "working c (sys_ex s) e'" and "sysReady c name config s"
  shows "\<exists>s'. sysWorking c s s'"
proof -
  from assms(1) obtain a where a: "carriesOn a" "exporter_exec c a (sys_ex s) = Some e'" "e' \<noteq> sys_ex s"
    by (auto simp: working_def)
  show ?thesis
  proof (cases "localAction a")
    case True
    have "s\<lparr>sys_ex := e'\<rparr> \<noteq> s"
    proof
      assume "s\<lparr>sys_ex := e'\<rparr> = s"
      from arg_cong [OF this, of sys_ex] a(3) show False by simp
    qed
    with True a(1,2) have "sysWorking c s (s\<lparr>sys_ex := e'\<rparr>)"
      unfolding sysWorking_def by (intro disjI1 exI [of _ a]) simp
    then show ?thesis by blast
  next
    case False
    with a(1) obtain i result where i: "a = XClient (ExportReturns i result)"
      by (cases a rule: localAction.cases) auto
    with a(2) obtain r where r: "callOf i (ex_client (sys_ex s)) = Some r"
      by (auto simp: clientStep_def callOf_def split: option.splits if_splits clientWorker.splits)
    from callOf_pending [OF r] assms(2) have "ReqShard (exportRequest r) \<in> set (ShardDefinitions config)"
      "serverReady (sys_srv s) config"
      by (auto simp: sysReady_def agrees_def)
    from mock_Export_ready [OF this(2,1)] obtain reply srv where
      "mock_Export (Some (sentHeaders (sys_transport s) (ex_client (sys_ex s)))) False (exportRequest r) (sys_srv s) = Inr (reply, srv)"
      by metis
    moreover have "clientStep (ExportReturns i reply) (sys_ex s) \<noteq> None" for reply
      using r by (auto simp: clientStep_def callOf_def split: if_splits clientWorker.splits)
    ultimately have "exportCall i False None s \<noteq> None"
      using r by (auto simp: exportCall_def networkReply_def split: option.split)
    then show ?thesis unfolding sysWorking_def by auto
  qed
qed

lemma sysWorking_unfed:
  assumes "sysWorking c s t"
  shows "unfed_step c s t"
  using assms unfolding sysWorking_def
proof (elim disjE exE conjE)
  fix a assume "carriesOn a" "system_exec c (Local a) s = Some t"
  then show ?thesis unfolding unfed_step_def
    by (intro exI [of _ "Local a"]) (simp add: carriesOn_not_consume)
next
  fix i assume "system_exec c (ExportCall i False None) s = Some t"
  then show ?thesis unfolding unfed_step_def by (intro exI [of _ "ExportCall i False None"]) simp
qed

lemma sysWorking_run:
  assumes "(sysWorking c)\<^sup>*\<^sup>* s s'" and "sysReady c name config s"
  shows "(working c)\<^sup>*\<^sup>* (sys_ex s) (sys_ex s') \<and> quiet (sys_ex s) (sys_ex s') \<and>
    sysReady c name config s' \<and> (unfed_step c)\<^sup>*\<^sup>* s s'"
  using assms(1)
proof (induction rule: rtranclp_induct)
  case base
  with assms(2) show ?case by simp
next
  case (step s1 s2)
  from step(3) have "sysReady c name config s1" by simp
  note sysWorking_ready [OF step(2) this]
  with sysWorking_unfed [OF step(2)] show ?case
    using step(3) by (auto intro: quiet_trans rtranclp.rtrancl_into_rtrancl)
qed

interpretation system_work: bounded_progress "sysWorking c" "sysReady c name config" "\<lambda>s. exLoad (sys_ex s)"
  for c name config
proof
  fix s s' assume w: "sysWorking c s s'" and s: "sysReady c name config s"
  note ready = sysWorking_ready [OF w s]
  then show "sysReady c name config s'" by simp
  from ready s show "exLoad (sys_ex s') < exLoad (sys_ex s)"
    using working_decreases settleable_enc(2,4) by (auto simp: sysReady_def)
qed

lemma system_reach_exporter:
  "(system_step c)\<^sup>*\<^sup>* s t \<Longrightarrow> (exporter_step c)\<^sup>*\<^sup>* (sys_ex s) (sys_ex t)"
  by (induction rule: rtranclp_induct) (auto elim!: system_stepE dest: system_step_exporter intro: rtranclp_trans)

text \<open>What is known of a reachable state that is ready, and of a state in which no one can move any more.\<close>

lemma sysReady_reached:
  assumes "CreateTraceExporter register cfg = Some e0" and "GetRecords (ms_Sink (gs_srv srv)) = []"
    and "(system_step c)\<^sup>*\<^sup>* \<lparr>sys_ex = e0, sys_srv = srv, sys_stored = [], sys_transport = tm\<rparr> s"
    and "ex_panics (sys_ex s) = []" and "ex_retry (sys_ex s) = RetryRunning"
    and "\<not> cu_done (ex_client (sys_ex s))"
    and "es_workers (ex_enc (sys_ex s)) \<noteq> []" and "\<not> en_workerHardStop (es_enc (ex_enc (sys_ex s)))"
    and "\<forall>a \<in> set (en_shardEncoders (es_enc (ex_enc (sys_ex s)))).
           \<not> se_stopped (en_heap (es_enc (ex_enc (sys_ex s))) ! a)"
    and "\<not> isStopping (es_enc (ex_enc (sys_ex s)))"
    and "serverReady (sys_srv s) config" and "agrees config (sys_ex s)"
  shows "sysReady c (cfg_Name cfg) config s" and "system_inv c (cfg_Name cfg) s"
proof -
  let ?s0 = "\<lparr>sys_ex = e0, sys_srv = srv, sys_stored = [], sys_transport = tm\<rparr>"
  from assms(1,2) have start: "exporter_started (cfg_Name cfg) e0" "system_started (cfg_Name cfg) ?s0"
    by (auto simp: system_started_def exporter_started_def)
  have reach: "(exporter_step c)\<^sup>*\<^sup>* e0 (sys_ex s)" using system_reach_exporter [OF assms(3)] by simp
  from exporter_inv.reachable_inv [OF start(1) reach] connection_inv.reachable_inv [OF start(1) reach] assms(4-)
  show "sysReady c (cfg_Name cfg) config s"
    by (auto simp: sysReady_def settleable_def connectionOk_def encReady_def inUseRuns_def stoppedAt_def)
  show "system_inv c (cfg_Name cfg) s" by (rule system_inv.reachable_inv [OF start(2) assms(3)])
qed

lemma sysReady_settled:
  assumes ready: "sysReady c name config s" and "system_inv c name s"
    and run: "(sysWorking c)\<^sup>*\<^sup>* s s'" and stuck: "\<nexists>s''. sysWorking c s' s''"
  shows "\<exists>ds. ex_dropped (sys_ex s') = ds @ ex_dropped (sys_ex s) \<and>
      (\<forall>d \<in> set ds. fst d = FatalEncodingError \<or> fst d = RetryQueueFull) \<and>
      spanKeys (ex_consumed (sys_ex s)) = storedSpans s' + spanKeys (concat (map snd (ds @ ex_dropped (sys_ex s)))) +
        spanKeys (ex_unanswered (sys_ex s)) + spanKeys (ex_abandoned (sys_ex s))"
proof -
  note r = sysWorking_run [OF run ready]
  from r have s': "settleable c name (sys_ex s')" by (simp add: sysReady_def)
  from sysWorking_progress r stuck have "\<nexists>e'. working c (sys_ex s') e'" by blast
  from settled_when_stuck [OF s' this] settleable_run [of c "sys_ex s" "sys_ex s'" name] r ready
  have "spanKeys (ex_consumed (sys_ex s)) = settledKeys (sys_ex s')" by (simp add: sysReady_def)
  moreover from system_inv.run_inv [OF unfed_run_system assms(2)] r
  have "spanKeys (ex_delivered (sys_ex s')) = storedSpans s'" by (auto simp: system_inv_def)
  ultimately show ?thesis using r by (auto simp: quiet_def settledKeys_def)
qed

section \<open>Property\<close>


lemma sendingExporter_agrees: "agrees testConfig4 sendingExporter"
proof -
  have "length (ShardDefinitions testConfig4) = 4" by (simp add: testConfig4_def)
  then have "origin (shards inMem4 ! a) \<in> set (ShardDefinitions testConfig4)" if "a < 4" for a
    using that by (auto simp: inMem4_def toInMem_def)
  moreover have sh: "se_shard (shardEncoderFor opts sh) = sh" for opts sh
    by (simp add: shardEncoderFor_def newShardEncoder_def)
  moreover have "\<forall>a \<in> set (en_shardEncoders (es_enc sampleSent)).
      a < 4 \<and> se_shard (en_heap (es_enc sampleSent) ! a) = shards inMem4 ! a"
    by (auto simp: sampleSent_def sampleEncoded_def sampleSys4_def emit_def sample_flush sampleEnc4_facts
        flusher_tick_def sampleEnc_request(6) sh sampleEnc4_def
        sampleEnc_def nth_list_update)
  ultimately show ?thesis
    by (auto simp: agrees_def sendingExporter_def configuredExporter_def sampleClient_def client_pending_def
        queuedRequests_def callingRequests_def sampleShard_inConfig)
qed

lemma sendingSystem_reach:
  "(system_step sampleCodec)\<^sup>*\<^sup>* \<lparr>sys_ex = sampleExporter, sys_srv = sampleServer [], sys_stored = [], sys_transport = sampleTransport\<rparr>
     \<lparr>sys_ex = sendingExporter, sys_srv = sampleServer [], sys_stored = [], sys_transport = sampleTransport\<rparr>"
proof -
  note lift = system_lift [where config = testConfig4 and srv = "sampleServer []", OF _ _ sampleServer_facts]
  have "(system_step sampleCodec)\<^sup>*\<^sup>* \<lparr>sys_ex = sampleExporter, sys_srv = sampleServer [], sys_stored = [], sys_transport = sampleTransport\<rparr>
      \<lparr>sys_ex = configuredExporter, sys_srv = sampleServer [], sys_stored = [], sys_transport = sampleTransport\<rparr>"
    by (intro lift [OF configuredExporter_run]) (simp_all add: list_all_iff)
  also have "(system_step sampleCodec)\<^sup>*\<^sup>* \<dots> \<lparr>sys_ex = sendingExporter, sys_srv = sampleServer [], sys_stored = [], sys_transport = sampleTransport\<rparr>"
    by (intro lift [OF sendingExporter_run]) simp
  finally show ?thesis .
qed

lemma sendingExporter_facts:
  "\<not> isStopping (es_enc (ex_enc sendingExporter))" "ex_dropped sendingExporter = []"
  "ex_unanswered sendingExporter = []" "ex_abandoned sendingExporter = []"
  by (simp_all add: sendingExporter_def configuredExporter_def sampleExporter_def sampleSent_def sampleEncoded_def
      sampleSys4_def flusher_tick_def sampleEnc4_facts sample_flush emit_def isStopping_def
      setShardEncoder_def sampleEnc_request(6))


end
