(* ===== verification/Convergence.thy ===== *)
theory Convergence
  imports SystemLive
begin

text \<open>
  The exporter against a server whose configuration has changed: records of shards the server no
  longer has are rejected with its configuration, the encoder is reconfigured, and the spans are
  encoded again for the new shards. From every healthy state the system can bring all spans
  to an end in this way, with no agreement to begin with.
\<close>

section \<open>The encoder is reconfigured\<close>

definition configMove :: "codec \<Rightarrow> enc_sys \<Rightarrow> enc_sys \<Rightarrow> bool" where
  "configMove c s t \<longleftrightarrow> enc_exec c ConfigStep s = Some t \<and> es_events t = es_events s"

definition flagsSame :: "encoder \<Rightarrow> encoder \<Rightarrow> bool" where
  "flagsSame e e' \<longleftrightarrow> en_workerHardStop e' = en_workerHardStop e \<and> isStopping e' = isStopping e \<and>
     en_configChangeStopped e' = en_configChangeStopped e \<and> en_options e' = en_options e"

lemma flagsSame_refl [simp]: "flagsSame e e"
  by (simp add: flagsSame_def)

lemma flagsSame_trans: "flagsSame e e1 \<Longrightarrow> flagsSame e1 e2 \<Longrightarrow> flagsSame e e2"
  by (simp add: flagsSame_def)

lemma flagsSame_set [simp]: "flagsSame e (setShardEncoder a se e)"
  by (simp add: flagsSame_def isStopping_def)

text \<open>The encoders in use run and are for the shards of a configuration.\<close>

definition usesShards :: "shardInMemConfig list \<Rightarrow> encoder \<Rightarrow> bool" where
  "usesShards shs e \<longleftrightarrow> (\<forall>a \<in> set (en_shardEncoders e).
     \<not> stoppedAt e a \<and> se_shard (en_heap e ! a) \<in> set shs)"

lemma configMoves_run:
  "enc_run c (replicate n ConfigStep) s = Some t \<Longrightarrow> es_events t = es_events s \<Longrightarrow> (configMove c)\<^sup>*\<^sup>* s t"
proof (induction n arbitrary: s)
  case (Suc n)
  then obtain s1 where s1: "enc_exec c ConfigStep s = Some s1" "enc_run c (replicate n ConfigStep) s1 = Some t"
    by (auto simp del: enc_exec.simps split: option.splits)
  have "es_events s1 = es_events s"
    using enc_exec_events [OF s1(1)] enc_run_events [OF s1(2)] unfolding Suc.prems(2) by auto
  with s1 Suc.IH [of s1] Suc.prems(2) show ?case
    by (auto simp: configMove_def simp del: enc_exec.simps intro: converse_rtranclp_into_rtranclp)
qed simp

lemma processConfigChange_new:
  assumes "en_configChangeRequest e = Some req" and "\<not> en_configChangeStopped e"
    and "newShardingInMemConfig req = Inr cfg" and "0 < BatchFlushInterval (en_options e)"
  obtains e' where "processConfigChange e = (e', ConfigApplied (\<not> en_workersStarted e), [])"
    "flagsSame e e'" "usesShards (shards cfg) e'"
proof -
  let ?e1 = "stopShardEncoders (e\<lparr>en_configChangeRequest := None\<rparr>)"
  obtain e2 evs where st: "startShardEncoders cfg ?e1 = (e2, evs)" by fastforce
  note eq = startShardEncoders_eq [OF st]
  let ?e = "e2\<lparr>en_workersStarted := True\<rparr>"
  have "evs = []" by (rule eq(4)) (simp add: stopShardEncoders_def assms(4))
  with assms(1-3) st have "processConfigChange e = (?e, ConfigApplied (\<not> en_workersStarted e), [])"
    by (simp add: processConfigChange_def takeConfigRequest_def applyConfig_def) (simp add: stopShardEncoders_def)
  moreover have "flagsSame e ?e"
    by (subst eq(3)) (simp add: flagsSame_def isStopping_def stopShardEncoders_def)
  moreover have "usesShards (shards cfg) ?e"
    unfolding usesShards_def
  proof
    fix a assume "a \<in> set (en_shardEncoders ?e)"
    then have "en_heap e2 ! a \<in> set (map (\<lambda>a. en_heap e2 ! a) (en_shardEncoders e2))" by simp
    then have "en_heap e2 ! a \<in> set (map (shardEncoderFor (en_options ?e1)) (shards cfg))"
      by (simp only: startShardEncoders_shards [OF st])
    then show "\<not> stoppedAt ?e a \<and> se_shard (en_heap ?e ! a) \<in> set (shards cfg)"
      by (auto simp: stoppedAt_def)
  qed
  ultimately show thesis by (rule that)
qed

lemma enc_reconfigures:
  assumes "es_config s = ConfigWaiting" and "\<not> en_configChangeStopped (es_enc s)"
    and "en_configChangeRequest (es_enc s) = Some req" and "newShardingInMemConfig req = Inr cfg"
    and "0 < BatchFlushInterval (en_options (es_enc s))"
  obtains t where "(configMove c)\<^sup>*\<^sup>* s t" "es_config t = ConfigWaiting" "set (es_workers s) \<subseteq> set (es_workers t)"
    "flagsSame (es_enc s) (es_enc t)" "usesShards (shards cfg) (es_enc t)"
proof -
  obtain e' where e': "processConfigChange (es_enc s) = (e', ConfigApplied (\<not> en_workersStarted (es_enc s)), [])"
    "flagsSame (es_enc s) e'" "usesShards (shards cfg) e'"
    by (rule processConfigChange_new [OF assms(3,2,4,5)])
  from configMoves_run [OF turn_run [OF assms(1,3,4) e'(1), of c]] show thesis
    by (rule that) (simp_all add: e'(2,3))
qed

section \<open>Healthy systems\<close>

definition healthy :: "codec \<Rightarrow> string \<Rightarrow> ShardingConfig \<Rightarrow> system \<Rightarrow> bool" where
  "healthy c name config s \<longleftrightarrow> settleable c name (sys_ex s) \<and> serverReady (sys_srv s) config \<and>
     es_config (ex_enc (sys_ex s)) = ConfigWaiting \<and> \<not> isStopping (es_enc (ex_enc (sys_ex s))) \<and>
     \<not> en_configChangeStopped (es_enc (ex_enc (sys_ex s))) \<and>
     0 < BatchFlushInterval (en_options (es_enc (ex_enc (sys_ex s))))"

lemma healthyI:
  assumes "healthy c name config s" and "settleable c name (sys_ex t)" and "serverReady (sys_srv t) config"
    and "es_config (ex_enc (sys_ex t)) = ConfigWaiting"
    and "flagsSame (es_enc (ex_enc (sys_ex s))) (es_enc (ex_enc (sys_ex t)))"
  shows "healthy c name config t"
  using assms by (simp add: healthy_def flagsSame_def)

lemma stoppedSame_flags: "stoppedSame e e' \<Longrightarrow> flagsSame e e'"
  by (simp add: stoppedSame_def flagsSame_def)

text \<open>A step of the exporter alone, lifted to the system.\<close>

lemma local_system:
  assumes "exporter_exec c a (sys_ex s) = Some e" and "localAction a" and "\<not> isConsume a"
  shows "unfed_step c s (s\<lparr>sys_ex := e\<rparr>)"
  using assms unfolding unfed_step_def by (intro exI [of _ "Local a"]) simp

lemma configMoves_system:
  assumes "(configMove c)\<^sup>*\<^sup>* (ex_enc (sys_ex s)) t" and "ex_sending (sys_ex s) = []"
  shows "(unfed_step c)\<^sup>*\<^sup>* s (s\<lparr>sys_ex := (sys_ex s)\<lparr>ex_enc := t\<rparr>\<rparr>)"
  using assms(1)
proof (induction rule: rtranclp_induct)
  case base
  then show ?case by simp
next
  case (step t1 t2)
  let ?s1 = "s\<lparr>sys_ex := (sys_ex s)\<lparr>ex_enc := t1\<rparr>\<rparr>"
  from step(2) assms(2) have "exporter_exec c (XEncoder ConfigStep) (sys_ex ?s1) = Some ((sys_ex s)\<lparr>ex_enc := t2\<rparr>)"
    by (simp add: encoderMove_def configMove_def del: enc_exec.simps)
  from local_system [OF this] have "unfed_step c ?s1 (s\<lparr>sys_ex := (sys_ex s)\<lparr>ex_enc := t2\<rparr>\<rparr>)" by simp
  with step(3) show ?case by simp
qed

section \<open>The server answers\<close>

definition mismatchAnswer :: "ShardingConfig \<Rightarrow> exportResult" where
  "mismatchAnswer config =
     ExportOk \<lparr>RespResultCode = SHARD_CONFIG_MISTMATCH, RespShardingConfig = Some config\<rparr>"

definition requested :: "system \<Rightarrow> ShardingConfig option" where
  "requested s = en_configChangeRequest (es_enc (ex_enc (sys_ex s)))"

lemma mock_Export_mismatch:
  assumes "serverReady srv config" and "ReqShard request \<notin> set (ShardDefinitions config)"
  shows "mock_Export ctx False request srv = Inr (mismatchAnswer config, srv)"
  using assms by (simp add: serverReady_def mock_Export_def checkRequiredHeaders_def ms_GetConfig_def
      shardIsPartOfConfig_iff mismatchAnswer_def)

lemma stoppedSame_SetConfig [simp]: "stoppedSame e (SetConfig cfg e)"
  by (rule stoppedSame_heap) (simp_all add: SetConfig_def)

lemma encReady_same:
  assumes "encReady s" and "stoppedSame (es_enc s) (es_enc t)" and "es_workers t \<noteq> []"
  shows "encReady t"
  using assms by (simp add: encReady_def inUseRuns_def stoppedSame_def)

lemma mismatch_effect:
  assumes "clientStep (ExportReturns i (mismatchAnswer config)) e = Some e'"
  shows "ex_enc e' = (ex_enc e)\<lparr>es_enc := SetConfig (Some config) (es_enc (ex_enc e))\<rparr> \<and>
    ex_panics e' = ex_panics e \<and> control e' = control e \<and> ex_consumed e' = ex_consumed e \<and>
    (clientReady (ex_client e) \<longrightarrow> clientReady (ex_client e')) \<and>
    (SendReturned \<in> set (cu_workers (ex_client e')) \<longrightarrow> SendReturned \<in> set (cu_workers (ex_client e))) \<and>
    quiet e e'"
proof -
  from assms obtain cl evs where m: "client_move (ExportReturns i (mismatchAnswer config)) (ex_client e) = Some (cl, evs)"
    and e': "e' = fold handleClientEvent evs (e\<lparr>ex_client := cl\<rparr>)"
    by (auto simp: clientStep_def split: option.splits)
  from m show ?thesis
  proof (cases rule: client_move_cases)
    case (finish j result r)
    then have "evs = sendRequest (mismatchAnswer config) r" by simp
    then have e'': "e' = OnSendResponse (ReqRecord (exportRequest r)) (originalSpans r)
        \<lparr>RespResultCode = SHARD_CONFIG_MISTMATCH, RespShardingConfig = Some config\<rparr> (e\<lparr>ex_client := cl\<rparr>)"
      by (simp add: e' sendRequest_def mismatchAnswer_def)
    let ?e1 = "requestConfig (Some config) (e\<lparr>ex_client := cl\<rparr>)"
    have "quiet (e\<lparr>ex_client := cl\<rparr>) ?e1" by (simp add: quiet_same requestConfig_def)
    then have "quiet (e\<lparr>ex_client := cl\<rparr>) (resendSpans (originalSpans r) ?e1)"
      using quiet_resend by (rule quiet_trans)
    then have "quiet e e'" by (simp add: e'' OnSendResponse_def Let_def quiet_def)
    moreover have "ex_enc e' = (ex_enc e)\<lparr>es_enc := SetConfig (Some config) (es_enc (ex_enc e))\<rparr>"
      by (simp add: e'' OnSendResponse_def Let_def) (simp add: requestConfig_def)
    moreover have "ex_panics e' = ex_panics e \<and> ex_consumed e' = ex_consumed e"
      using OnSendResponse_keys by (simp add: e'')
    moreover have "control e' = control e" and cl: "ex_client e' = cl"
      by (simp_all add: e' handleClientEvents_client)
    moreover have "SendReturned \<in> set (cu_workers cl) \<longrightarrow> SendReturned \<in> set (cu_workers (ex_client e))"
      using set_update_subset_insert [of "cu_workers (ex_client e)" j SendIdle] by (auto simp: finish(4))
    moreover have "clientReady (ex_client e) \<longrightarrow> clientReady cl"
      using client_move_ready [OF m] by simp
    ultimately show ?thesis unfolding cl by blast
  qed simp_all
qed

lemma settleable_answer:
  assumes "settleable c name e" and "exporter_exec c a e = Some e'" and "ex_panics e' = ex_panics e"
    and "control e' = control e" and "encReady (ex_enc e')"
    and "clientReady (ex_client e) \<longrightarrow> clientReady (ex_client e')"
    and "SendReturned \<in> set (cu_workers (ex_client e')) \<longrightarrow> SendReturned \<in> set (cu_workers (ex_client e))"
  shows "settleable c name e'"
  using assms exporter_inv.step_inv [OF exporter_step.act [OF assms(2)], of name]
  by (auto simp: settleable_def dest: control_retry)

lemma call_returns:
  assumes "callOf i (ex_client e) = Some r"
  obtains e' where "clientStep (ExportReturns i result) e = Some e'"
  using assms by (auto simp: clientStep_def callOf_def split: if_splits clientWorker.splits)

lemma exportCall_unfed: "exportCall i unlucky lost s = Some t \<Longrightarrow> unfed_step c s t"
  unfolding unfed_step_def by (intro exI [of _ "ExportCall i unlucky lost"]) simp

text \<open>The server's answer to a record of a shard it has, and to one of another shard.\<close>

lemma server_stores:
  assumes h: "healthy c name config s" and r: "callOf i (ex_client (sys_ex s)) = Some r"
    and shard: "ReqShard (exportRequest r) \<in> set (ShardDefinitions config)"
  obtains s1 where "unfed_step c s s1" "healthy c name config s1" "quiet (sys_ex s) (sys_ex s1)"
    "ex_consumed (sys_ex s1) = ex_consumed (sys_ex s)" "clientWork (sys_ex s1) < clientWork (sys_ex s)"
    "requested s1 = requested s" "exLoad (sys_ex s1) < exLoad (sys_ex s)"
proof -
  from h have set: "settleable c name (sys_ex s)" and srv: "serverReady (sys_srv s) config"
    and cw: "es_config (ex_enc (sys_ex s)) = ConfigWaiting" "\<not> isStopping (es_enc (ex_enc (sys_ex s)))"
    by (auto simp: healthy_def)
  let ?srv = "(sys_srv s)\<lparr>gs_srv := (gs_srv (sys_srv s))
    \<lparr>ms_Sink := sink_onReceive (exportRequest r) (ms_Sink (gs_srv (sys_srv s)))\<rparr>\<rparr>"
  obtain response where resp: "RespResultCode response = SUCCESS"
    "mock_Export (Some (sentHeaders (sys_transport s) (ex_client (sys_ex s)))) False (exportRequest r) (sys_srv s) =
       Inr (ExportOk response, ?srv)"
    by (rule mock_Export_ready [OF srv shard])
  obtain e where e: "clientStep (ExportReturns i (ExportOk response)) (sys_ex s) = Some e" by (rule call_returns [OF r])
  define s1 where "s1 = \<lparr>sys_ex = e, sys_srv = ?srv,
    sys_stored = (if storesRecord (sys_srv s) ?srv then (r, replyCode (ExportOk response)) # sys_stored s
      else sys_stored s), sys_transport = sys_transport s\<rparr>"
  let ?a = "XClient (ExportReturns i (ExportOk response))"
  from e resp(1) have x: "exporter_exec c ?a (sys_ex s) = Some e" "carriesOn ?a" "sends ?a" by simp_all
  note fr = sends_frame [OF x(1,3,2)]
  have "exportCall i False None s = Some s1"
    by (simp add: exportCall_def r resp(2) networkReply_def e s1_def)
  then have "unfed_step c s s1" by (rule exportCall_unfed)
  moreover have "settleable c name e"
    by (rule settleable_answer [OF set x(1)]) (use fr set in \<open>simp_all add: settleable_def\<close>)
  then have "healthy c name config s1"
    by (intro healthyI [OF h]) (use fr srv cw in \<open>simp_all add: s1_def\<close>)
  moreover have "quiet (sys_ex s) e"
    by (rule quiet_exec [OF x(1,2)]) (use resp(1) cw in \<open>auto simp: replyCode_def\<close>)
  ultimately show thesis
    using fr clientWork_client [OF e] exLoad_client [OF e x(2)]
    by (intro that [of s1]) (simp_all add: s1_def requested_def)
qed

lemma server_rejects:
  assumes h: "healthy c name config s" and r: "callOf i (ex_client (sys_ex s)) = Some r"
    and shard: "ReqShard (exportRequest r) \<notin> set (ShardDefinitions config)"
  obtains s1 where "unfed_step c s s1" "healthy c name config s1" "quiet (sys_ex s) (sys_ex s1)"
    "ex_consumed (sys_ex s1) = ex_consumed (sys_ex s)" "clientWork (sys_ex s1) < clientWork (sys_ex s)"
    "requested s1 = Some config"
proof -
  from h have set: "settleable c name (sys_ex s)" and srv: "serverReady (sys_srv s) config"
    and cw: "es_config (ex_enc (sys_ex s)) = ConfigWaiting" "\<not> isStopping (es_enc (ex_enc (sys_ex s)))"
    and ready: "encReady (ex_enc (sys_ex s))"
    by (auto simp: healthy_def settleable_def)
  obtain e where e: "clientStep (ExportReturns i (mismatchAnswer config)) (sys_ex s) = Some e"
    by (rule call_returns [OF r])
  define s1 where "s1 = s\<lparr>sys_ex := e\<rparr>"
  note fr = mismatch_effect [OF e]
  have "exportCall i False None s = Some s1"
    by (simp add: exportCall_def r mock_Export_mismatch [OF srv shard] networkReply_def e s1_def)
  then have "unfed_step c s s1" by (rule exportCall_unfed)
  moreover note enc = conjunct1 [OF fr]
  have "encReady (ex_enc e)"
    by (rule encReady_same [OF ready]) (use ready in \<open>simp_all add: enc encReady_def\<close>)
  then have "settleable c name e"
    by (intro settleable_answer [OF set, of "XClient (ExportReturns i (mismatchAnswer config))"])
      (use e fr in simp_all)
  then have "healthy c name config s1"
    by (intro healthyI [OF h]) (use fr srv cw in \<open>simp_all add: s1_def stoppedSame_flags\<close>)
  ultimately show thesis
    using fr clientWork_client [OF e] by (intro that [of s1]) (simp_all add: s1_def requested_def SetConfig_def)
qed

section \<open>From any state to agreement\<close>

lemma local_moves:
  assumes h: "healthy c name config s" and a: "exporter_exec c a (sys_ex s) = Some e" "carriesOn a" "localAction a"
    and e: "e \<noteq> sys_ex s"
  shows "unfed_step c s (s\<lparr>sys_ex := e\<rparr>) \<and> healthy c name config (s\<lparr>sys_ex := e\<rparr>) \<and>
    quiet (sys_ex s) e \<and> ex_consumed e = ex_consumed (sys_ex s)"
proof -
  from h have s: "settleable c name (sys_ex s)" "\<not> isStopping (es_enc (ex_enc (sys_ex s)))"
    by (auto simp: healthy_def)
  from a e have w: "working c (sys_ex s) e" by (auto simp: working_def)
  note set = working_settleable [OF w s(1)]
  note enc = carriesOn_enc [OF a(1,2) s(1)]
  from set enc h have "healthy c name config (s\<lparr>sys_ex := e\<rparr>)"
    by (intro healthyI [OF h]) (auto simp: healthy_def intro: stoppedSame_flags)
  moreover have "quiet (sys_ex s) e"
    by (rule quiet_exec [OF a(1,2) _ s(2)]) (use a(3) in auto)
  ultimately show ?thesis using set local_system [OF a(1,3) carriesOn_not_consume [OF a(2)]] by simp
qed

definition reaches :: "codec \<Rightarrow> system \<Rightarrow> system \<Rightarrow> bool" where
  "reaches c s t \<longleftrightarrow> (unfed_step c)\<^sup>*\<^sup>* s t \<and> quiet (sys_ex s) (sys_ex t) \<and>
     ex_consumed (sys_ex t) = ex_consumed (sys_ex s)"

lemma reaches_refl [simp]: "reaches c s s"
  by (simp add: reaches_def)

lemma reaches_step:
  assumes "unfed_step c s s1" and "quiet (sys_ex s) (sys_ex s1)"
    and "ex_consumed (sys_ex s1) = ex_consumed (sys_ex s)" and "reaches c s1 t"
  shows "reaches c s t"
  using assms by (auto simp: reaches_def intro: quiet_trans converse_rtranclp_into_rtranclp)

lemma reaches_trans: "reaches c s t \<Longrightarrow> reaches c t u \<Longrightarrow> reaches c s u"
  by (auto simp: reaches_def intro: quiet_trans)

lemma returns_callOf:
  assumes "clientStep (ExportReturns i result) e = Some e'"
  obtains r where "callOf i (ex_client e) = Some r"
  using assms by (auto simp: clientStep_def callOf_def split: option.splits if_splits clientWorker.splits)

lemma sends_clientWork:
  assumes "exporter_exec c a e = Some e'" and "sends a" and "carriesOn a"
  shows "clientWork e' < clientWork e"
proof (cases a)
  case (XFinishSend i)
  with assms(1) clientWork_finishSend [of i e e'] show ?thesis by simp
next
  case (XClient m)
  with assms(3) have "\<forall>i. m \<noteq> QuitSending i" by auto
  with XClient assms(1) clientWork_client [of m e e'] show ?thesis by simp
qed (use assms(2) in simp_all)

text \<open>What has been handed over is answered, and answers for old shards repeat the configuration.\<close>

definition clientIdle :: "exporter \<Rightarrow> bool" where
  "clientIdle e \<longleftrightarrow> ex_sending e = [] \<and> client_pending (ex_client e) = []"

lemma client_advances:
  assumes h: "healthy c name config s" and req: "requested s = Some config"
    and busy: "\<not> clientIdle (sys_ex s)"
  shows "\<exists>t. reaches c s t \<and> (healthy c name config t \<and> requested t = Some config) \<and>
    clientWork (sys_ex t) < clientWork (sys_ex s)"
proof -
  from h have "clientReady (ex_client (sys_ex s))" "SendReturned \<notin> set (cu_workers (ex_client (sys_ex s)))"
    by (auto simp: healthy_def settleable_def)
  from client_progress [OF this, of c] busy obtain a e where
    a: "exporter_exec c a (sys_ex s) = Some e" "carriesOn a" "sends a" "exLoad e < exLoad (sys_ex s)"
    by (auto simp: clientIdle_def)
  note next_state = reaches_step [OF _ _ _ reaches_refl]
  show ?thesis
  proof (cases "localAction a")
    case True
    from a(4) have "e \<noteq> sys_ex s" by auto
    note l = local_moves [OF h a(1,2) True this]
    have "requested (s\<lparr>sys_ex := e\<rparr>) = Some config"
      using sends_frame [OF a(1,3,2)] req by (simp add: requested_def)
    with l sends_clientWork [OF a(1,3,2)] show ?thesis
      by (intro exI [of _ "s\<lparr>sys_ex := e\<rparr>"]) (auto intro: next_state)
  next
    case False
    with a(2,3) obtain i result where "a = XClient (ExportReturns i result)"
      by (cases a rule: localAction.cases) auto
    with a(1) obtain r where r: "callOf i (ex_client (sys_ex s)) = Some r" by (auto elim: returns_callOf)
    show ?thesis
    proof (cases "ReqShard (exportRequest r) \<in> set (ShardDefinitions config)")
      case True
      show ?thesis by (rule server_stores [OF h r True]) (use req in \<open>auto intro: next_state\<close>)
    next
      case False
      show ?thesis by (rule server_rejects [OF h r False]) (auto intro: next_state)
    qed
  qed
qed

interpretation drains: leads_to "reaches c" "\<lambda>s. healthy c name config s \<and> requested s = Some config"
  "\<lambda>s. clientIdle (sys_ex s)" "\<lambda>s. clientWork (sys_ex s)" for c name config
proof
  fix s assume "healthy c name config s \<and> requested s = Some config" "\<not> clientIdle (sys_ex s)"
  then show "\<exists>t. reaches c s t \<and> (healthy c name config t \<and> requested t = Some config) \<and>
      clientWork (sys_ex t) < clientWork (sys_ex s)" by (blast intro: client_advances)
qed (auto intro: reaches_trans)

lemma reconfigures:
  assumes h: "healthy c name config s" and req: "requested s = Some config"
    and idle: "ex_sending (sys_ex s) = []" "client_pending (ex_client (sys_ex s)) = []"
    and new: "newShardingInMemConfig config = Inr cfg"
  shows "\<exists>s'. reaches c s s' \<and> sysReady c name config s'"
proof -
  let ?e = "sys_ex s"
  from h req have enc: "es_config (ex_enc ?e) = ConfigWaiting" "\<not> en_configChangeStopped (es_enc (ex_enc ?e))"
    "en_configChangeRequest (es_enc (ex_enc ?e)) = Some config"
    "0 < BatchFlushInterval (en_options (es_enc (ex_enc ?e)))"
    by (auto simp: healthy_def requested_def)
  obtain t where t: "(configMove c)\<^sup>*\<^sup>* (ex_enc ?e) t" "es_config t = ConfigWaiting"
    "set (es_workers (ex_enc ?e)) \<subseteq> set (es_workers t)" "flagsSame (es_enc (ex_enc ?e)) (es_enc t)"
    "usesShards (shards cfg) (es_enc t)"
    by (rule enc_reconfigures [OF enc(1-3) new enc(4)])
  let ?s = "s\<lparr>sys_ex := ?e\<lparr>ex_enc := t\<rparr>\<rparr>"
  have run: "(unfed_step c)\<^sup>*\<^sup>* s ?s" by (rule configMoves_system [OF t(1) idle(1)])
  from h have set: "settleable c name ?e" by (simp add: healthy_def)
  have "exporter_inv c name (sys_ex ?s)"
    by (rule exporter_inv.run_inv [OF system_reach_exporter [OF unfed_run_system [OF run]]]) (use set in \<open>simp add: settleable_def\<close>)
  moreover have "encReady t"
    using set t(3-5) by (auto simp: settleable_def encReady_def flagsSame_def inUseRuns_def usesShards_def)
  ultimately have "settleable c name (sys_ex ?s)" using set by (simp add: settleable_def)
  moreover have "agrees config (sys_ex ?s)"
    using t(5) idle accepted_origin [OF new] by (auto simp: agrees_def usesShards_def)
  ultimately have "sysReady c name config ?s" using h t(4) by (simp add: sysReady_def healthy_def flagsSame_def)
  moreover have "reaches c s ?s" using run by (simp add: reaches_def quiet_same)
  ultimately show ?thesis by blast
qed

text \<open>After a rejection the system comes to agree, and from then on to its end.\<close>

definition finished :: "codec \<Rightarrow> string \<Rightarrow> system \<Rightarrow> bool" where
  "finished c name s \<longleftrightarrow> settleable c name (sys_ex s) \<and> (\<nexists>e'. working c (sys_ex s) e')"

lemma agreed_finishes:
  assumes "sysReady c name config s"
  shows "\<exists>t. reaches c s t \<and> finished c name t"
proof -
  from system_work.stuck.reaches_goal [OF assms] obtain t where t: "(sysWorking c)\<^sup>*\<^sup>* s t" "\<nexists>u. sysWorking c t u"
    by blast
  note run = sysWorking_run [OF t(1) assms]
  from assms have "settleable c name (sys_ex s)" by (simp add: sysReady_def)
  with run settleable_run [of c "sys_ex s" "sys_ex t" name] have "reaches c s t" by (simp add: reaches_def)
  moreover from run t(2) sysWorking_progress have "\<nexists>e'. working c (sys_ex t) e'" by blast
  with run have "finished c name t" by (simp add: finished_def sysReady_def)
  ultimately show ?thesis by blast
qed

lemma requested_finishes:
  assumes "healthy c name config s" and "requested s = Some config" and "newShardingInMemConfig config = Inr cfg"
  shows "\<exists>t. reaches c s t \<and> finished c name t"
proof -
  from drains.reaches_goal [of c name config s] assms(1,2) obtain s2 where s2: "reaches c s s2"
    "healthy c name config s2" "requested s2 = Some config" "ex_sending (sys_ex s2) = []"
    "client_pending (ex_client (sys_ex s2)) = []" by (auto simp: clientIdle_def)
  from reconfigures [OF s2(2-5) assms(3)] obtain s3 where s3: "reaches c s2 s3" "sysReady c name config s3"
    by blast
  from agreed_finishes [OF s3(2)] s2(1) s3(1) show ?thesis by (blast intro: reaches_trans)
qed

lemma healthy_advances:
  assumes h: "healthy c name config s" and valid: "newShardingInMemConfig config = Inr cfg"
    and unfinished: "\<not> finished c name s"
  shows "\<exists>t. reaches c s t \<and> (finished c name t \<or> healthy c name config t \<and> exLoad (sys_ex t) < exLoad (sys_ex s))"
proof -
  from h have set: "settleable c name (sys_ex s)" by (simp add: healthy_def)
  with unfinished obtain a e where a: "exporter_exec c a (sys_ex s) = Some e" "carriesOn a" "e \<noteq> sys_ex s"
    and w: "working c (sys_ex s) e" by (auto simp: finished_def working_def)
  note dec = working_decreases [OF w settleable_enc(2,4) [OF set]]
  note next_state = reaches_step [OF _ _ _ reaches_refl]
  show ?thesis
  proof (cases "localAction a")
    case True
    from local_moves [OF h a(1,2) True a(3)] dec show ?thesis
      by (intro exI [of _ "s\<lparr>sys_ex := e\<rparr>"]) (auto intro: next_state)
  next
    case False
    with a(2) obtain i result where "a = XClient (ExportReturns i result)"
      by (cases a rule: localAction.cases) auto
    with a(1) obtain r where r: "callOf i (ex_client (sys_ex s)) = Some r" by (auto elim: returns_callOf)
    show ?thesis
    proof (cases "ReqShard (exportRequest r) \<in> set (ShardDefinitions config)")
      case True
      show ?thesis by (rule server_stores [OF h r True]) (auto intro: next_state)
    next
      case False
      obtain s1 where s1: "unfed_step c s s1" "healthy c name config s1" "quiet (sys_ex s) (sys_ex s1)"
        "ex_consumed (sys_ex s1) = ex_consumed (sys_ex s)" "requested s1 = Some config"
        by (rule server_rejects [OF h r False])
      from requested_finishes [OF s1(2,5) valid] reaches_step [OF s1(1,3,4)] show ?thesis by blast
    qed
  qed
qed

interpretation recovers: leads_to "reaches c"
  "\<lambda>s. finished c name s \<or> healthy c name config s \<and> (\<exists>cfg. newShardingInMemConfig config = Inr cfg)"
  "finished c name" "\<lambda>s. if finished c name s then 0 else Suc (exLoad (sys_ex s))" for c name config
proof
  fix s assume "finished c name s \<or> healthy c name config s \<and> (\<exists>cfg. newShardingInMemConfig config = Inr cfg)"
    "\<not> finished c name s"
  with healthy_advances [of c name config s]
  show "\<exists>t. reaches c s t \<and>
      (finished c name t \<or> healthy c name config t \<and> (\<exists>cfg. newShardingInMemConfig config = Inr cfg)) \<and>
      (if finished c name t then 0 else Suc (exLoad (sys_ex t))) <
      (if finished c name s then 0 else Suc (exLoad (sys_ex s)))" by force
qed (auto intro: reaches_trans)

text \<open>What is known of a reachable healthy state, and where its spans are in the end.\<close>

lemma healthy_reached:
  assumes "CreateTraceExporter register cfg = Some e0" and "GetRecords (ms_Sink (gs_srv srv)) = []"
    and "(system_step c)\<^sup>*\<^sup>* \<lparr>sys_ex = e0, sys_srv = srv, sys_stored = [], sys_transport = tm\<rparr> s"
    and "ex_panics (sys_ex s) = []" and "ex_retry (sys_ex s) = RetryRunning"
    and "\<not> cu_done (ex_client (sys_ex s))"
    and "es_workers (ex_enc (sys_ex s)) \<noteq> []" and "\<not> en_workerHardStop (es_enc (ex_enc (sys_ex s)))"
    and "\<forall>a \<in> set (en_shardEncoders (es_enc (ex_enc (sys_ex s)))).
           \<not> se_stopped (en_heap (es_enc (ex_enc (sys_ex s))) ! a)"
    and "\<not> isStopping (es_enc (ex_enc (sys_ex s)))" and "es_config (ex_enc (sys_ex s)) = ConfigWaiting"
    and "\<not> en_configChangeStopped (es_enc (ex_enc (sys_ex s)))"
    and "0 < BatchFlushInterval (en_options (es_enc (ex_enc (sys_ex s))))"
    and "serverReady (sys_srv s) config"
  shows "healthy c (cfg_Name cfg) config s" and "system_inv c (cfg_Name cfg) s"
proof -
  let ?s0 = "\<lparr>sys_ex = e0, sys_srv = srv, sys_stored = [], sys_transport = tm\<rparr>"
  from assms(1,2) have start: "exporter_started (cfg_Name cfg) e0" "system_started (cfg_Name cfg) ?s0"
    by (auto simp: system_started_def exporter_started_def)
  show "system_inv c (cfg_Name cfg) s" by (rule system_inv.reachable_inv [OF start(2) assms(3)])
  have reach: "(exporter_step c)\<^sup>*\<^sup>* e0 (sys_ex s)" using system_reach_exporter [OF assms(3)] by simp
  from exporter_inv.reachable_inv [OF start(1) reach] connection_inv.reachable_inv [OF start(1) reach] assms(4-)
  show "healthy c (cfg_Name cfg) config s"
    by (auto simp: healthy_def settleable_def connectionOk_def encReady_def inUseRuns_def stoppedAt_def)
qed

lemma healthy_settles:
  assumes "healthy c name config s" and "system_inv c name s" and "newShardingInMemConfig config = Inr cfg"
  obtains s' ds where "(unfed_step c)\<^sup>*\<^sup>* s s'" "ex_consumed (sys_ex s') = ex_consumed (sys_ex s)"
    "ex_panics (sys_ex s') = []" "ex_dropped (sys_ex s') = ds @ ex_dropped (sys_ex s)"
    "\<forall>d \<in> set ds. fst d = FatalEncodingError \<or> fst d = RetryQueueFull"
    "spanKeys (ex_consumed (sys_ex s)) = storedSpans s' + spanKeys (concat (map snd (ds @ ex_dropped (sys_ex s)))) +
       spanKeys (ex_unanswered (sys_ex s)) + spanKeys (ex_abandoned (sys_ex s))"
proof -
  from recovers.reaches_goal [of c name s config] assms(1,3) obtain s' where s': "reaches c s s'" "finished c name s'"
    by blast
  from s'(1) have run: "(unfed_step c)\<^sup>*\<^sup>* s s'" "quiet (sys_ex s) (sys_ex s')"
    "ex_consumed (sys_ex s') = ex_consumed (sys_ex s)" by (auto simp: reaches_def)
  from s'(2) have stuck: "settleable c name (sys_ex s')" "\<nexists>e'. working c (sys_ex s') e'" by (auto simp: finished_def)
  from settled_when_stuck [OF stuck] run(3) have keys: "spanKeys (ex_consumed (sys_ex s)) = settledKeys (sys_ex s')" by simp
  from system_inv.run_inv [OF unfed_run_system [OF run(1)] assms(2)]
  have stored: "spanKeys (ex_delivered (sys_ex s')) = storedSpans s'" by (simp add: system_inv_def)
  from run(2) obtain ds where ds: "ex_dropped (sys_ex s') = ds @ ex_dropped (sys_ex s)"
    "\<forall>d \<in> set ds. fst d = FatalEncodingError \<or> fst d = RetryQueueFull"
    and same: "ex_unanswered (sys_ex s') = ex_unanswered (sys_ex s)"
      "ex_abandoned (sys_ex s') = ex_abandoned (sys_ex s)" by (auto simp: quiet_def)
  from keys stored ds(1) same have "spanKeys (ex_consumed (sys_ex s)) =
      storedSpans s' + spanKeys (concat (map snd (ds @ ex_dropped (sys_ex s)))) +
      spanKeys (ex_unanswered (sys_ex s)) + spanKeys (ex_abandoned (sys_ex s))"
    by (simp add: settledKeys_def)
  with run ds stuck(1) show thesis by (intro that [of s' ds]) (simp_all add: settleable_def)
qed

section \<open>Property\<close>

text \<open>
  C8: the system can recover from a change of the server's configuration by itself. Take a reachable
  state of the exporter and the server in which nothing has panicked, the retry loop runs, the client
  is not shut down, the encoder has workers with no signal to stop, none of the shard encoders in use
  is stopped, the encoder is not stopping, its configuration goroutine is waiting and not told to
  return, and the flush interval is positive; the shards in use may be any. Let the server be ready, with
  any configuration that the exporter accepts. Then exporter and server can reach, with no new batch, a
  state where every span ever consumed is in a request the server has stored and acknowledged, or
  was dropped or given up before, or could not be encoded or found the retry queue full. States after
  a rejected configuration or after \<open>Stop\<close> has begun are not covered: from the former nothing is
  sent any more, so that no answer can bring a new configuration.
\<close>

theorem system_converges:
  assumes "CreateTraceExporter register cfg = Some e0" and "GetRecords (ms_Sink (gs_srv srv)) = []"
    and "(system_step c)\<^sup>*\<^sup>* \<lparr>sys_ex = e0, sys_srv = srv, sys_stored = [], sys_transport = tm\<rparr> s"
    and "ex_panics (sys_ex s) = []" and "ex_retry (sys_ex s) = RetryRunning"
    and "\<not> cu_done (ex_client (sys_ex s))"
    and "es_workers (ex_enc (sys_ex s)) \<noteq> []" and "\<not> en_workerHardStop (es_enc (ex_enc (sys_ex s)))"
    and "\<forall>a \<in> set (en_shardEncoders (es_enc (ex_enc (sys_ex s)))).
           \<not> se_stopped (en_heap (es_enc (ex_enc (sys_ex s))) ! a)"
    and "\<not> isStopping (es_enc (ex_enc (sys_ex s)))" and "es_config (ex_enc (sys_ex s)) = ConfigWaiting"
    and "\<not> en_configChangeStopped (es_enc (ex_enc (sys_ex s)))"
    and "0 < BatchFlushInterval (en_options (es_enc (ex_enc (sys_ex s))))"
    and "serverReady (sys_srv s) config" and "newShardingInMemConfig config = Inr shardCfg"
  shows "\<exists>s' ds. (unfed_step c)\<^sup>*\<^sup>* s s' \<and> ex_consumed (sys_ex s') = ex_consumed (sys_ex s) \<and>
    ex_panics (sys_ex s') = [] \<and> ex_dropped (sys_ex s') = ds @ ex_dropped (sys_ex s) \<and>
    (\<forall>d \<in> set ds. fst d = FatalEncodingError \<or> fst d = RetryQueueFull) \<and>
    spanKeys (ex_consumed (sys_ex s)) =
      (\<Sum>h\<leftarrow>sys_stored s'. if snd h = Some SUCCESS then spanKeys (originalSpans (fst h)) else {#}) +
      spanKeys (concat (map snd (ds @ ex_dropped (sys_ex s)))) +
      spanKeys (ex_unanswered (sys_ex s)) + spanKeys (ex_abandoned (sys_ex s))"
proof -
  note healthy = healthy_reached [OF assms(1-14)]
  show ?thesis
    by (rule healthy_settles [OF healthy assms(15)]) (unfold storedSpans_def, blast)
qed

text \<open>The server changes to one shard for all keys while a record for one of four is on its way.\<close>

definition wholeConfig :: ShardingConfig where
  "wholeConfig = \<lparr>ShardDefinitions = [quarterShard ''shard#0'' 0 0xff]\<rparr>"

lemma wholeConfig_accepted:
  "newShardingInMemConfig wholeConfig = Inr \<lparr>shards = [toInMem (quarterShard ''shard#0'' 0 0xff)]\<rparr>"
  by (simp add: newShardingInMemConfig_def newShardingInMemConfig_with_def wholeConfig_def Let_def quarterShard_bounds)

definition changedSystem :: system where
  "changedSystem = \<lparr>sys_ex = sendingExporter,
     sys_srv = (sampleServer [])\<lparr>gs_srv := ms_SetConfig (Some wholeConfig) (gs_srv (sampleServer []))\<rparr>, sys_stored = [], sys_transport = sampleTransport\<rparr>"

lemma changedSystem_reach:
  "(system_step sampleCodec)\<^sup>*\<^sup>* \<lparr>sys_ex = sampleExporter, sys_srv = sampleServer [], sys_stored = [], sys_transport = sampleTransport\<rparr> changedSystem"
proof -
  have "system_step sampleCodec \<lparr>sys_ex = sendingExporter, sys_srv = sampleServer [], sys_stored = [], sys_transport = sampleTransport\<rparr> changedSystem"
    by (rule system_step.act [of _ "ServerSetConfig (Some wholeConfig)"]) (simp add: changedSystem_def)
  with sendingSystem_reach show ?thesis by (rule rtranclp.rtrancl_into_rtrancl)
qed

theorem system_converges_witness:
  "\<exists>s' ds. (unfed_step sampleCodec)\<^sup>*\<^sup>* changedSystem s' \<and>
     spanKeys [sampleSpan 3 0] = storedSpans s' + spanKeys (concat (map snd ds)) \<and>
     (\<forall>d \<in> set ds. fst d = FatalEncodingError \<or> fst d = RetryQueueFull) \<and>
     (\<forall>h \<in> set (ex_sending (sys_ex changedSystem)).
        origin (snd (snd (snd h))) \<notin> set (ShardDefinitions wholeConfig)) \<and>
     ex_sending (sys_ex changedSystem) \<noteq> []"
proof -
  have srv: "GetRecords (ms_Sink (gs_srv (sampleServer []))) = []" "serverReady (sys_srv changedSystem) wholeConfig"
    by (simp_all add: sampleServer_def ms_Listen_def ms_SetConfig_def newMockServer_def GetRecords_def
        serverReady_def changedSystem_def Let_def)
  have ex: "sys_ex changedSystem = sendingExporter" by (simp add: changedSystem_def)
  have empty: "ex_dropped sendingExporter = []" "ex_unanswered sendingExporter = []" "ex_abandoned sendingExporter = []"
    by (simp_all add: sendingExporter_def configuredExporter_def sampleExporter_def)
  have enc: "\<not> isStopping (es_enc (ex_enc sendingExporter))" "es_config (ex_enc sendingExporter) = ConfigWaiting"
    "\<not> en_configChangeStopped (es_enc (ex_enc sendingExporter))"
    "0 < BatchFlushInterval (en_options (es_enc (ex_enc sendingExporter)))"
    by (simp_all add: sendingExporter_def sampleSent_def sampleEncoded_def sampleSys4_def flusher_tick_def
        sampleEnc4_facts sample_flush emit_def isStopping_def setShardEncoder_def sampleEnc_request(6))
      (simp_all add: sampleEnc4_def sampleEnc_def sampleOptions_def)
  have foreign: "\<forall>h \<in> set (ex_sending sendingExporter). origin (snd (snd (snd h))) \<notin> set (ShardDefinitions wholeConfig)"
    "ex_sending sendingExporter \<noteq> []"
    by (simp_all add: sendingExporter_def wholeConfig_def inMem4_def testConfig4_def toInMem_def quarterShard_def)
  from system_converges [OF sampleExporter_new srv(1) changedSystem_reach _ _ _ _ _ _ _ _ _ _ srv(2) wholeConfig_accepted,
      unfolded ex, OF sampleExporter_facts(2) sendingExporter_live enc, unfolded empty sampleExporter_facts(1)]
  obtain s' ds where "(unfed_step sampleCodec)\<^sup>*\<^sup>* changedSystem s'"
    "\<forall>d \<in> set ds. fst d = FatalEncodingError \<or> fst d = RetryQueueFull"
    "spanKeys [sampleSpan 3 0] = storedSpans s' + spanKeys (concat (map snd (ds @ []))) + spanKeys [] + spanKeys []"
    unfolding storedSpans_def by blast
  with foreign show ?thesis unfolding ex by (intro exI [of _ s'] exI [of _ ds]) simp
qed

end
