(* ===== verification/Drops.thy ===== *)
theory Drops
  imports Exporter
begin

text \<open>
  What the exporter reports about the spans it gives up. The specification reads a run of the exporter
  from outside: the failures the encoder reports, the answers that calls of \<open>Export\<close> return, and the
  room in the retry queue say which spans are dropped in each step and why, with the reasons written as
  the text of the tag. The recordings of dropped spans are compared with it.
\<close>

section \<open>The drops of a run\<close>

text \<open>
  What is to happen to spans that failed: dropped for a reason, with the record they were sent in if there
  is one, or, without a reason, tried again.
\<close>

type_synonym fate = "Span list \<times> string option \<times> EncodedRecord option"

fun encoderFates :: "event \<Rightarrow> fate list" where
  "encoderFates (SpanProcessFail spans ErrEncodingFailed) = [(spans, Some ''FatalEncodingError'', None)]"
| "encoderFates (SpanProcessFail spans ErrEncoderStopped) = [(spans, None, None)]"
| "encoderFates _ = []"

fun answerFates :: "exportResult \<Rightarrow> requestToSend \<Rightarrow> fate list" where
  "answerFates (ExportOk response) r =
     (if RespResultCode response = FAILED_NOT_RETRYABLE
      then [(originalSpans r, Some ''ExportResponseNotRetryable'', Some (ReqRecord (exportRequest r)))]
      else if RespResultCode response = FAILED_RETRYABLE \<or> RespResultCode response = SHARD_CONFIG_MISTMATCH
      then [(originalSpans r, None, None)]
      else [])"
| "answerFates (ExportError details) r =
     (if retryRequested details = Inr True then [(originalSpans r, None, None)]
      else if retryRequested details = Inr False
      then [(originalSpans r, Some ''SendErrNotRetryable'', Some (ReqRecord (exportRequest r)))]
      else [])"

text \<open>Spans to be tried again go to the retry queue as long as it has room.\<close>

type_synonym drop = "string \<times> Span list \<times> EncodedRecord option"

fun dropsOf :: "nat \<Rightarrow> fate list \<Rightarrow> drop list" where
  "dropsOf room [] = []"
| "dropsOf room ((spans, Some reason, rec) # fs) = (reason, spans, rec) # dropsOf room fs"
| "dropsOf 0 ((spans, None, rec) # fs) = (''RetryQueueFull'', spans, None) # dropsOf 0 fs"
| "dropsOf (Suc room) ((spans, None, rec) # fs) = dropsOf room fs"

definition retryRoom :: "exporter \<Rightarrow> nat" where
  "retryRoom e = chan_cap (ex_spansToRetry e) - length (chan_items (ex_spansToRetry e))"

text \<open>The failures of one step: those among the new events of the encoder, or in the answer to a call.\<close>

fun stepFates :: "exporterAction \<Rightarrow> exporter \<Rightarrow> exporter \<Rightarrow> fate list" where
  "stepFates (XEncoder act) e e' =
     concat (map encoderFates (drop (length (es_events (ex_enc e))) (es_events (ex_enc e'))))"
| "stepFates (XClient (ExportReturns i result)) e e' =
     (case cu_workers (ex_client e) ! i of SendCalling r \<Rightarrow> answerFates result r | _ \<Rightarrow> [])"
| "stepFates _ e e' = []"

fun runDrops :: "codec \<Rightarrow> exporterAction list \<Rightarrow> exporter \<Rightarrow> drop list" where
  "runDrops c [] e = []"
| "runDrops c (a # as) e =
     (case exporter_exec c a e of
        None \<Rightarrow> []
      | Some e1 \<Rightarrow> dropsOf (retryRoom e) (stepFates a e e1) @ runDrops c as e1)"

text \<open>The recording of a drop, by an exporter of this name.\<close>

definition dropRecording :: "string \<Rightarrow> drop \<Rightarrow> recording" where
  "dropRecording name d =
     (case d of
        (reason, spans, rec) \<Rightarrow>
          \<lparr>recTags = [Upsert tagExporterName name, Upsert tagDropReason reason],
           recMeasurements = (statDroppedSpans, int (length spans)) #
             (case rec of None \<Rightarrow> [] | Some r \<Rightarrow> [(statDroppedBytes, int (length (RecData r)))])\<rparr>)"

definition recordsDrop :: "recording \<Rightarrow> bool" where
  "recordsDrop r \<longleftrightarrow> list_ex (\<lambda>m. fst m = statDroppedSpans \<or> fst m = statDroppedBytes) (recMeasurements r)"

section \<open>The effect of the handlers\<close>

definition dropReason :: "DataDropCode \<Rightarrow> string" where
  "dropReason code =
     (case code of
        RetryQueueFull \<Rightarrow> ''RetryQueueFull''
      | FatalEncodingError \<Rightarrow> ''FatalEncodingError''
      | ExportResponseNotRetryable \<Rightarrow> ''ExportResponseNotRetryable''
      | SendErrNotRetryable \<Rightarrow> ''SendErrNotRetryable'')"

definition dropHistory :: "exporter \<Rightarrow> (string \<times> Span list) list" where
  "dropHistory e = map (\<lambda>d. (dropReason (fst d), snd d)) (rev (ex_dropped e))"

text \<open>The drops \<open>ds\<close>, and no others, were recorded between the two states.\<close>

definition reported :: "string \<Rightarrow> exporter \<Rightarrow> exporter \<Rightarrow> drop list \<Rightarrow> bool" where
  "reported name e e' ds \<longleftrightarrow> exporterHooks e' = exporterHooks e \<and>
     filter recordsDrop (ex_stats e') = filter recordsDrop (ex_stats e) @ map (dropRecording name) ds \<and>
     dropHistory e' = dropHistory e @ map (\<lambda>(reason, spans, rec). (reason, spans)) ds"

text \<open>The failures \<open>fs\<close>, and no others, were handled between the two states.\<close>

definition resends :: "fate list \<Rightarrow> nat" where
  "resends fs = length (filter (\<lambda>f. fst (snd f) = None) fs)"

definition handled :: "string \<Rightarrow> exporter \<Rightarrow> exporter \<Rightarrow> fate list \<Rightarrow> bool" where
  "handled name e e' fs \<longleftrightarrow>
     (exporterHooks e = newTelemetryHooks name [] \<longrightarrow> reported name e e' (dropsOf (retryRoom e) fs)) \<and>
     exporterHooks e' = exporterHooks e \<and> retryRoom e' = retryRoom e - resends fs"

lemma dropsOf_append: "dropsOf n (fs @ gs) = dropsOf n fs @ dropsOf (n - resends fs) gs"
  by (induction n fs rule: dropsOf.induct) (simp_all add: resends_def)

lemma resends_append: "resends (fs @ gs) = resends fs + resends gs"
  by (simp add: resends_def)

lemma reported_trans: "reported name e e1 ds \<Longrightarrow> reported name e1 e2 ds' \<Longrightarrow> reported name e e2 (ds @ ds')"
  by (simp add: reported_def)

lemma handled_trans: "handled name e e1 fs \<Longrightarrow> handled name e1 e2 gs \<Longrightarrow> handled name e e2 (fs @ gs)"
  by (auto simp: handled_def dropsOf_append resends_append intro: reported_trans)

lemma reported_none:
  assumes "ex_enc e' = ex_enc e \<or> exporterHooks e' = exporterHooks e" and "ex_stats e' = ex_stats e"
    and "ex_dropped e' = ex_dropped e"
  shows "reported name e e' []"
  using assms by (auto simp: reported_def dropHistory_def exporterHooks_def)

lemma handled_none:
  assumes "exporterHooks e' = exporterHooks e" and "ex_stats e' = ex_stats e"
    and "ex_dropped e' = ex_dropped e" and "ex_spansToRetry e' = ex_spansToRetry e"
  shows "handled name e e' []"
  using assms reported_none [of e' e name] by (simp add: handled_def retryRoom_def resends_def)

lemma OnDropSpans_recording:
  "OnDropSpans (newTelemetryHooks name []) code (int (length spans)) rec =
     dropRecording name (dropReason code, spans, rec)"
  by (cases code; cases rec) (simp_all add: hook_defs dropRecording_def dropReason_def Let_def)

lemma dropRecording_drop [simp]: "recordsDrop (dropRecording name d)"
  by (simp add: recordsDrop_def dropRecording_def split: prod.split)

lemma handled_drop: "handled name e (dropSpans code spans rec e) [(spans, Some (dropReason code), rec)]"
proof -
  have "exporterHooks (dropSpans code spans rec e) = exporterHooks e"
    "retryRoom (dropSpans code spans rec e) = retryRoom e"
    by (simp_all add: dropSpans_def exporterHooks_def retryRoom_def)
  moreover have "reported name e (dropSpans code spans rec e) [(dropReason code, spans, rec)]"
    if "exporterHooks e = newTelemetryHooks name []"
    using that by (simp add: reported_def dropSpans_def dropHistory_def OnDropSpans_recording)
      (simp add: exporterHooks_def)
  ultimately show ?thesis by (simp add: handled_def resends_def)
qed

lemma handled_resend: "handled name e (resendSpans spans e) [(spans, None, None)]"
proof (cases rule: resendSpans_cases [of spans e])
  case (queued q)
  then have "retryRoom e = Suc (retryRoom (resendSpans spans e))"
    by (auto simp: retryRoom_def chan_send_def split: if_splits)
  moreover have "reported name e (resendSpans spans e) []"
    by (intro reported_none) (simp_all add: queued(2))
  ultimately show ?thesis by (simp add: handled_def resends_def exporterHooks_def)
next
  case full
  then have "retryRoom e = 0" by (auto simp: retryRoom_def chan_send_def split: if_splits)
  with handled_drop [of name e RetryQueueFull spans None] full(2) show ?thesis
    by (simp add: handled_def resends_def dropReason_def)
qed

lemma handled_event: "handled name e (handleEvent g ev e) (encoderFates ev)"
proof (cases ev)
  case (SpanProcessFail spans code)
  with handled_drop [of name e FatalEncodingError spans None] handled_resend [of name e spans] show ?thesis
    by (cases code) (simp_all add: onSpanProcessFail_def dropReason_def)
qed (auto simp: onRecordReady_def exporterHooks_def intro: handled_none)

lemma handled_events: "handled name e (fold (handleEvent g) evs e) (concat (map encoderFates evs))"
proof (induction evs arbitrary: e)
  case (Cons ev evs)
  show ?case
    using handled_trans [OF handled_event [of name e g ev] Cons.IH] by simp
qed (auto intro: handled_none)

lemma handled_requestConfig: "handled name e (requestConfig cfg e) []"
  by (rule handled_none) (simp_all add: requestConfig_def exporterHooks_def SetConfig_def)

lemma handled_hook:
  assumes "\<not> recordsDrop r"
  shows "handled name e (e\<lparr>ex_stats := ex_stats e @ [r]\<rparr>) []"
  using assms by (simp add: handled_def reported_def dropHistory_def exporterHooks_def retryRoom_def resends_def)

lemma handled_response:
  "handled name e (OnSendResponse (ReqRecord (exportRequest r)) (originalSpans r) resp e)
     (answerFates (ExportOk resp) r)"
proof -
  let ?rec = "ReqRecord (exportRequest r)" and ?spans = "originalSpans r"
  let ?e1 = "case RespResultCode resp of
      SUCCESS \<Rightarrow> e\<lparr>ex_delivered := ?spans @ ex_delivered e\<rparr>
    | FAILED_NOT_RETRYABLE \<Rightarrow> dropSpans ExportResponseNotRetryable ?spans (Some ?rec) e
    | FAILED_RETRYABLE \<Rightarrow> resendSpans ?spans e
    | SHARD_CONFIG_MISTMATCH \<Rightarrow> resendSpans ?spans (requestConfig (RespShardingConfig resp) e)
    | UnknownResultCode _ \<Rightarrow> e\<lparr>ex_unanswered := ?spans @ ex_unanswered e\<rparr>"
  have plain: "handled name e (e\<lparr>ex_delivered := d\<rparr>) []" "handled name e (e\<lparr>ex_unanswered := d\<rparr>) []" for d
    by (rule handled_none; simp add: exporterHooks_def)+
  have "handled name e ?e1 (answerFates (ExportOk resp) r)"
    using plain handled_resend [of name e ?spans]
      handled_drop [of name e ExportResponseNotRetryable ?spans "Some ?rec"]
      handled_trans [OF handled_requestConfig [of name e "RespShardingConfig resp"] handled_resend [of _ _ ?spans]]
    by (cases "RespResultCode resp") (simp_all add: dropReason_def)
  moreover have "\<not> recordsDrop (OnSendResponse_hook h ?rec resp)" for h
    by (simp add: recordsDrop_def OnSendResponse_hook_def)
  ultimately have "handled name e (?e1\<lparr>ex_stats := ex_stats ?e1 @ [OnSendResponse_hook (exporterHooks e) ?rec resp]\<rparr>)
      (answerFates (ExportOk resp) r @ [])"
    by (intro handled_trans [OF _ handled_hook])
  then show ?thesis by (simp add: OnSendResponse_def Let_def)
qed

lemma handled_answer: "handled name e (fold handleClientEvent (sendRequest result r) e) (answerFates result r)"
proof (cases result)
  case (ExportOk resp)
  then show ?thesis using handled_response [of name e r resp] by (simp add: sendRequest_def)
next
  case (ExportError details)
  have panic: "handled name e (e\<lparr>ex_panics := ps\<rparr>) []" for ps
    by (rule handled_none) (simp_all add: exporterHooks_def)
  show ?thesis
  proof (cases "retryRequested details")
    case (Inl p)
    with panic ExportError show ?thesis by (simp add: sendRequest_def)
  next
    case (Inr retry)
    with ExportError handled_resend [of name e "originalSpans r"]
      handled_drop [of name e SendErrNotRetryable "originalSpans r" "Some (ReqRecord (exportRequest r))"]
    show ?thesis by (cases retry) (simp_all add: sendRequest_def OnSendFail_def dropReason_def)
  qed
qed

section \<open>The effect of a step and of a run\<close>

lemma handled_reported:
  "handled name e1 e' fs \<Longrightarrow> reported name e e1 [] \<Longrightarrow> retryRoom e1 = retryRoom e \<Longrightarrow>
   exporterHooks e = newTelemetryHooks name [] \<Longrightarrow> reported name e e' (dropsOf (retryRoom e) fs)"
  using reported_trans [of name e e1 "[]" e'] by (auto simp: handled_def reported_def)

lemma reported_encoder:
  assumes "enc_exec c act (ex_enc e) = Some enc" and "es_events enc = es_events (ex_enc e) @ evs"
    and "exporterHooks e = newTelemetryHooks name []"
  shows "reported name e (fold (handleEvent g) evs (e\<lparr>ex_enc := enc\<rparr>))
    (dropsOf (retryRoom e) (concat (map encoderFates evs)))"
proof (rule handled_reported [OF handled_events])
  show "reported name e (e\<lparr>ex_enc := enc\<rparr>) []"
    by (rule reported_none) (simp_all add: exporterHooks_def enc_exec_hooks [OF assms(1)])
qed (simp_all add: retryRoom_def assms(3))

lemma reported_client:
  assumes "client_move m (ex_client e) = Some (cl, evs)" and "exporterHooks e = newTelemetryHooks name []"
  shows "reported name e (fold handleClientEvent evs (e\<lparr>ex_client := cl\<rparr>))
    (dropsOf (retryRoom e) (stepFates (XClient m) e e'))"
  using assms(1)
proof (cases rule: client_move_cases)
  case (finish i result r)
  have "reported name e (e\<lparr>ex_client := cl\<rparr>) []" by (rule reported_none) simp_all
  from handled_reported [OF handled_answer this _ assms(2)] show ?thesis
    by (simp add: finish(1,3,5) retryRoom_def)
qed (auto intro!: reported_none)

lemma reported_exec:
  assumes "exporter_exec c a e = Some e'" and "exporterHooks e = newTelemetryHooks name []"
  shows "reported name e e' (dropsOf (retryRoom e) (stepFates a e e'))"
  using assms(1)
proof (cases rule: exporter_exec_cases)
  case (encoder act enc evs)
  from reported_encoder [OF encoder(2,4) assms(2), of "actor act"] show ?thesis
    by (simp add: encoder(1,3,4) handleEvents_frame)
next
  case (client m cl evs)
  from reported_client [OF client(2) assms(2)] show ?thesis by (simp only: client(1,3))
next
  case (consumed td enc spans)
  from enc_exec_hooks [OF consumed(2)] show ?thesis
    by (simp add: consumed(1,3)) (rule reported_none; simp add: exporterHooks_def)
next
  case (retried spans q enc)
  from enc_exec_hooks [OF retried(3)] show ?thesis
    by (simp add: retried(1,4)) (rule reported_none; simp add: exporterHooks_def)
next
  case (stopping enc)
  from enc_exec_hooks [OF stopping(2)] show ?thesis
    by (simp add: stopping(1,3)) (rule reported_none; simp add: exporterHooks_def)
next
  case (shutdown cl evs)
  from shutdown(2) have "evs = [] \<or> (\<exists>p. evs = [ClientCrashed p])"
    by (auto simp: client_Shutdown_def split: sum.splits)
  then show ?thesis by (auto simp: shutdown(1,3) intro!: reported_none)
qed (auto simp: requestConfig_def SetConfig_def exporterHooks_def simp del: enc_exec.simps intro!: reported_none)

lemma reported_run:
  assumes "exporter_run c as e = Some e'" and "exporterHooks e = newTelemetryHooks name []"
  shows "reported name e e' (runDrops c as e)"
  using assms
proof (induction "as" arbitrary: e)
  case (Cons a "as")
  then obtain e1 where e1: "exporter_exec c a e = Some e1" "exporter_run c as e1 = Some e'"
    by (auto split: option.splits)
  from reported_exec [OF e1(1) Cons.prems(2)] have step: "reported name e e1 (dropsOf (retryRoom e) (stepFates a e e1))" .
  with Cons.prems(2) have "exporterHooks e1 = newTelemetryHooks name []" by (simp add: reported_def)
  from reported_trans [OF step Cons.IH [OF e1(2) this]] show ?case by (simp add: e1(1))
qed (auto intro: reported_none)

lemma CreateTraceExporter_hooks:
  assumes "CreateTraceExporter register cfg = Some e"
  shows "exporterHooks e = newTelemetryHooks (cfg_Name cfg) []" "ex_stats e = []" "ex_dropped e = []"
proof -
  show "exporterHooks e = newTelemetryHooks (cfg_Name cfg) []"
    using exporter_inv_init [OF assms] by (simp add: exporter_inv_def)
  show "ex_stats e = []" "ex_dropped e = []"
    using assms by (auto simp: CreateTraceExporter_def NewExporter_def Let_def split: option.splits)
qed

section \<open>Properties\<close>

text \<open>
  C5: every dropped span is counted, once and under its reason. Over any run of a new exporter, the
  recordings of dropped spans and bytes are, in order, exactly one for each batch the run says is dropped:
  spans that could not be encoded, under \<open>FatalEncodingError\<close>; spans of a request that the server
  refused for good, under \<open>ExportResponseNotRetryable\<close>, or whose call failed for good, under
  \<open>SendErrNotRetryable\<close>, with the size of the record; and spans to be tried again that found no
  room in the retry queue, under \<open>RetryQueueFull\<close>. Each carries the name of the exporter, the reason
  as text and the number of the spans; and the history of dropped spans that the other properties use
  is the same list.
\<close>

theorem exporter_drops_counted:
  assumes "CreateTraceExporter register cfg = Some e0" and "exporter_run c as e0 = Some e"
  shows "filter recordsDrop (ex_stats e) = map (dropRecording (cfg_Name cfg)) (runDrops c as e0) \<and>
    map (\<lambda>d. (dropReason (fst d), snd d)) (rev (ex_dropped e)) =
      map (\<lambda>(reason, spans, rec). (reason, spans)) (runDrops c as e0)"
  using reported_run [OF assms(2)] CreateTraceExporter_hooks [OF assms(1)]
  by (simp add: reported_def dropHistory_def)

text \<open>The run in which the server refuses the record of one span for good.\<close>

lemma rejected_run:
  obtains as where "exporter_run sampleCodec as sampleExporter = Some rejectedExporter"
proof -
  note runs = configuredExporter_run sendingExporter_run calledExporter_run rejectedExporter_run
  show thesis
    by (rule that [OF exporter_run_append [OF exporter_run_append [OF exporter_run_append [OF runs(1,2)] runs(3)] runs(4)]])
qed

theorem exporter_drops_counted_witness:
  "\<exists>as rec. exporter_run sampleCodec as sampleExporter = Some rejectedExporter \<and>
     runDrops sampleCodec as sampleExporter = [(''ExportResponseNotRetryable'', [sampleSpan 3 0], rec)] \<and>
     filter recordsDrop (ex_stats rejectedExporter) =
       [dropRecording ''omnishard'' (''ExportResponseNotRetryable'', [sampleSpan 3 0], rec)]"
proof -
  obtain as where run: "exporter_run sampleCodec as sampleExporter = Some rejectedExporter" by (rule rejected_run)
  have name: "cfg_Name sampleConfig = ''omnishard''" by (simp add: sampleConfig_def)
  note counted = exporter_drops_counted [OF sampleExporter_new run, unfolded name]
  then obtain d where d: "runDrops sampleCodec as sampleExporter = [d]"
    "(case d of (reason, spans, rec) \<Rightarrow> (reason, spans)) = (''ExportResponseNotRetryable'', [sampleSpan 3 0])"
    by (auto simp: sampleExporter_facts dropReason_def)
  with counted run show ?thesis
    by (intro exI [of _ "as"] exI [of _ "snd (snd d)"]) (auto split: prod.splits)
qed

end
