(* ===== verification/Ledger.thy ===== *)
theory Ledger
  imports Delivery
begin

text \<open>
  What the exporter promises for the spans it is handed, without its goroutines, queues and
  retries: a ledger of spans. A span is entered as open when it is accepted and closed once, with
  the outcome it had; \<open>ledgerOf\<close> reads the ledger off the exporter, and every step of the
  exporter is a sequence of steps of the ledger.
\<close>

section \<open>The specification\<close>

datatype outcome = Delivered | Dropped DataDropCode | Unanswered | Abandoned

datatype ledger = Ledger (led_open: "Span multiset") (led_closed: "(outcome \<times> Span) multiset")

definition emptyLedger :: ledger where
  "emptyLedger = Ledger {#} {#}"

inductive ledger_step :: "ledger \<Rightarrow> ledger \<Rightarrow> bool" where
  accept: "ledger_step (Ledger opn cl) (Ledger (add_mset k opn) cl)"
| close: "k \<in># opn \<Longrightarrow> ledger_step (Ledger opn cl) (Ledger (opn - {#k#}) (add_mset (oc, k) cl))"

text \<open>
  Ledgers are ordered by what they have on record: the outcomes, and all spans ever entered. What the ledger
  promises is that it only grows: an outcome is final, and closing a span keeps it in the books.
\<close>

fun ledgerKeys :: "ledger \<Rightarrow> Span multiset" where
  "ledgerKeys (Ledger opn cl) = opn + image_mset snd cl"

instantiation ledger :: order
begin

definition less_eq_ledger :: "ledger \<Rightarrow> ledger \<Rightarrow> bool" where
  "less_eq_ledger l l' \<longleftrightarrow> led_closed l \<subseteq># led_closed l' \<and> ledgerKeys l \<subseteq># ledgerKeys l'"

definition less_ledger :: "ledger \<Rightarrow> ledger \<Rightarrow> bool" where
  "less_ledger l l' \<longleftrightarrow> l \<le> l' \<and> \<not> l' \<le> (l :: ledger)"

instance
proof
  fix k l m :: ledger
  show "k < l \<longleftrightarrow> k \<le> l \<and> \<not> l \<le> k" by (simp only: less_ledger_def)
  show "k \<le> k" by (simp add: less_eq_ledger_def)
  show "k \<le> m" if "k \<le> l" "l \<le> m"
    using that by (meson less_eq_ledger_def subset_mset.order_trans)
  show "k = l" if "k \<le> l" "l \<le> k"
  proof -
    from that have "led_closed k = led_closed l" "ledgerKeys k = ledgerKeys l"
      by (simp_all add: less_eq_ledger_def subset_mset.order_antisym)
    then show ?thesis by (cases k; cases l) simp
  qed
qed

end

lemma ledger_step_grows: "ledger_step l l' \<Longrightarrow> l \<le> l'"
  by (cases rule: ledger_step.cases) (auto simp: less_eq_ledger_def multi_subset_induct)

lemma ledger_final: "ledger_step\<^sup>*\<^sup>* l l' \<Longrightarrow> l \<le> l'"
  by (induction rule: rtranclp_induct) (auto dest: ledger_step_grows)

lemma ledger_accepts: "ledger_step\<^sup>*\<^sup>* (Ledger opn cl) (Ledger (opn + K) cl)"
proof (induction K)
  case (add k K)
  from accept [of "opn + K" cl k] have "ledger_step (Ledger (opn + K) cl) (Ledger (opn + add_mset k K) cl)" by simp
  with add show ?case by simp
qed simp

lemma ledger_closes: "ledger_step\<^sup>*\<^sup>* (Ledger (opn + image_mset snd Cl) cl) (Ledger opn (cl + Cl))"
proof (induction Cl arbitrary: cl)
  case (add p Cl)
  obtain oc k where p: "p = (oc, k)" by (cases p)
  from close [of k "opn + image_mset snd (add_mset p Cl)" cl oc]
  have "ledger_step (Ledger (opn + image_mset snd (add_mset p Cl)) cl) (Ledger (opn + image_mset snd Cl) (add_mset p cl))"
    by (simp add: p)
  with add.IH [of "add_mset p cl"] show ?case by simp
qed simp

lemma ledger_moves:
  assumes "A \<subseteq># A'" and "Cl \<subseteq># Cl'" and "Op' + image_mset snd Cl' + A = Op + image_mset snd Cl + A'"
  shows "ledger_step\<^sup>*\<^sup>* (Ledger Op Cl) (Ledger Op' Cl')"
proof -
  from assms(1,2) obtain B D where BD: "A' = A + B" "Cl' = Cl + D" by (auto simp: mset_subset_eq_exists_conv)
  with assms(3) have "Op + B = Op' + image_mset snd D" by (simp add: ac_simps)
  then show ?thesis using ledger_accepts [of Op Cl B] ledger_closes [of Op' D Cl] BD(2) by simp
qed

section \<open>The exporter's ledger\<close>

definition settledAs :: "outcome \<Rightarrow> Span list \<Rightarrow> (outcome \<times> Span) multiset" where
  "settledAs oc spans = image_mset (Pair oc) (spanKeys spans)"

definition closedOf :: "exporter \<Rightarrow> (outcome \<times> Span) multiset" where
  "closedOf e = settledAs Delivered (ex_delivered e) +
     (\<Sum>d\<leftarrow>ex_dropped e. settledAs (Dropped (fst d)) (snd d)) +
     settledAs Unanswered (ex_unanswered e) + settledAs Abandoned (ex_abandoned e)"

definition ledgerOf :: "exporter \<Rightarrow> ledger" where
  "ledgerOf e = Ledger (openKeys e) (closedOf e)"

lemma settledAs_simps [simp]:
  "settledAs oc [] = {#}" "settledAs oc (xs @ ys) = settledAs oc xs + settledAs oc ys"
  "image_mset snd (settledAs oc spans) = spanKeys spans"
  by (simp_all add: settledAs_def image_mset.compositionality comp_def)

lemma closedOf_keys: "image_mset snd (closedOf e) = settledKeys e"
proof -
  have "image_mset snd (\<Sum>d\<leftarrow>ds. settledAs (Dropped (fst d)) (snd d)) = spanKeys (concat (map snd ds))"
    for ds :: "(DataDropCode \<times> Span list) list"
    by (induction ds) simp_all
  then show ?thesis by (simp add: closedOf_def settledKeys_def ac_simps)
qed

section \<open>An outcome is final\<close>

definition grows :: "exporter \<Rightarrow> exporter \<Rightarrow> bool" where
  "grows e e' \<longleftrightarrow> closedOf e \<subseteq># closedOf e' \<and> spanKeys (ex_consumed e) \<subseteq># spanKeys (ex_consumed e')"

lemma grows_refl [simp]: "grows e e"
  by (simp add: grows_def)

lemma grows_trans: "grows e e1 \<Longrightarrow> grows e1 e2 \<Longrightarrow> grows e e2"
  by (auto simp: grows_def intro: subset_mset.order_trans)

lemma grows_same:
  "ex_delivered e' = ex_delivered e \<Longrightarrow> ex_dropped e' = ex_dropped e \<Longrightarrow>
     ex_unanswered e' = ex_unanswered e \<Longrightarrow> ex_abandoned e' = ex_abandoned e \<Longrightarrow>
     ex_consumed e' = ex_consumed e \<Longrightarrow> grows e e'"
  by (simp add: grows_def closedOf_def)

lemma grows_drop: "grows e (dropSpans code spans rec e)"
  by (simp add: grows_def closedOf_def dropSpans_def)

lemma grows_resend: "grows e (resendSpans spans e)"
  by (cases rule: resendSpans_cases [of spans e]) (auto simp: grows_drop intro: grows_same)

lemma grows_event: "grows e (handleEvent g ev e)"
proof (cases ev)
  case (SpanProcessFail spans code)
  then show ?thesis by (cases code) (simp_all add: onSpanProcessFail_def grows_drop grows_resend)
qed (auto simp: onRecordReady_def intro: grows_same)

lemma grows_events: "grows e (fold (handleEvent g) evs e)"
  by (induction evs arbitrary: e) (auto intro: grows_trans grows_event)

lemma grows_request: "grows e (requestConfig cfg e)"
  by (simp add: grows_same requestConfig_def)

lemma grows_response: "grows e (OnSendResponse rec spans resp e)"
proof -
  have "grows e (e\<lparr>ex_delivered := spans @ ex_delivered e\<rparr>)" "grows e (e\<lparr>ex_unanswered := spans @ ex_unanswered e\<rparr>)"
    by (simp_all add: grows_def closedOf_def)
  moreover have "grows e (resendSpans spans (requestConfig cfg e))" for cfg
    by (rule grows_trans [OF grows_request grows_resend])
  moreover have "grows e x \<Longrightarrow> grows e (x\<lparr>ex_stats := st\<rparr>)" for x st
    by (rule grows_trans [OF _ grows_same]) simp_all
  ultimately show ?thesis
    by (cases "RespResultCode resp")
      (simp_all add: OnSendResponse_def Let_def grows_drop grows_resend)
qed

lemma grows_clientEvent: "grows e (handleClientEvent ev e)"
proof (cases ev)
  case (SendFail rec spans code)
  then show ?thesis by (cases code) (simp_all add: OnSendFail_def grows_drop grows_resend)
qed (auto simp: grows_response intro: grows_same)

lemma grows_clientEvents: "grows e (fold handleClientEvent evs e)"
  by (induction evs arbitrary: e) (auto intro: grows_trans grows_clientEvent)

lemma grows_client: "grows e (fold handleClientEvent evs (e\<lparr>ex_client := cl\<rparr>))"
  by (rule grows_trans [OF grows_same grows_clientEvents]) simp_all

lemma grows_exec:
  assumes "exporter_exec c a e = Some e'"
  shows "grows e e'"
  using assms
proof (cases rule: exporter_exec_cases)
  case (encoder act enc evs)
  have "grows e (e\<lparr>ex_enc := enc\<rparr>)" by (rule grows_same) simp_all
  then show ?thesis unfolding encoder(3) by (rule grows_trans [OF _ grows_events])
next
  case (client m cl evs)
  then show ?thesis by (simp add: grows_client)
next
  case (shutdown cl evs)
  then show ?thesis by (simp add: grows_client)
qed (simp_all add: grows_def closedOf_def requestConfig_def)

section \<open>Property\<close>

lemma ledger_simulation:
  assumes "exporter_inv c name e" and "exporter_step c e e'" and "ex_panics e' = []"
  shows "ledger_step\<^sup>*\<^sup>* (ledgerOf e) (ledgerOf e') \<and> ex_panics e = []"
proof -
  from assms(2) obtain a where a: "exporter_exec c a e = Some e'" by (auto elim: exporter_stepE)
  from assms(1) have "inv_shape c (ex_enc e)" "beforeConnect e" by (auto simp: exporter_inv_def enc_inv_def)
  from goodMove_exec [OF a this] assms(3) have "ex_panics e = []"
    and k: "sysKeys (ex_enc e') + outsideKeys e' + spanKeys (ex_consumed e) =
      sysKeys (ex_enc e) + outsideKeys e + spanKeys (ex_consumed e')" by (simp_all add: goodMove_def)
  moreover from grows_exec [OF a] k have "ledger_step\<^sup>*\<^sup>* (ledgerOf e) (ledgerOf e')"
    unfolding ledgerOf_def grows_def
    by (intro ledger_moves [of "spanKeys (ex_consumed e)" "spanKeys (ex_consumed e')"])
      (simp_all add: closedOf_keys openKeys_def outsideKeys_def ac_simps)
  ultimately show ?thesis by simp
qed

lemma ledger_init: "CreateTraceExporter register cfg = Some e0 \<Longrightarrow> ledgerOf e0 = emptyLedger"
proof -
  assume new: "CreateTraceExporter register cfg = Some e0"
  from exporter_inv_init [OF new] new have "spanKeys (ex_consumed e0) = sysKeys (ex_enc e0) + outsideKeys e0"
    "ex_consumed e0 = []"
    by (auto simp: exporter_inv_def accounted_for_def CreateTraceExporter_def NewExporter_def Let_def split: option.splits if_splits)
  then have "openKeys e0 = {#}" "settledKeys e0 = {#}" by (simp_all add: openKeys_def outsideKeys_def)
  then show ?thesis using closedOf_keys [of e0] by (simp add: ledgerOf_def emptyLedger_def)
qed

text \<open>
  C3: the exporter implements the ledger. A new exporter's ledger is empty, and whatever step a
  reachable exporter takes, of its callers, its goroutines, the server or the shutdown, its
  ledger accepts spans and closes open ones, unless the step panics. The ledger enters the spans
  consumed and no others, and an outcome, once there, stays.
\<close>

theorem exporter_implements_ledger:
  assumes "CreateTraceExporter register cfg = Some e0" and "(exporter_step c)\<^sup>*\<^sup>* e0 e"
    and "exporter_step c e e'" and "ex_panics e' = []"
  shows "ledgerOf e0 = emptyLedger \<and> ledger_step\<^sup>*\<^sup>* (ledgerOf e) (ledgerOf e') \<and>
    led_closed (ledgerOf e) \<subseteq># led_closed (ledgerOf e') \<and>
    led_open (ledgerOf e') + image_mset snd (led_closed (ledgerOf e')) = spanKeys (ex_consumed e')"
proof -
  from assms(1) have start: "exporter_started (cfg_Name cfg) e0" by (auto simp: exporter_started_def)
  note sim = ledger_simulation [OF exporter_inv.reachable_inv [OF start assms(2)] assms(3,4)]
  from exporter_inv.reachable_inv [OF start rtranclp.rtrancl_into_rtrancl [OF assms(2,3)]] assms(4)
  have "openKeys e' + settledKeys e' = spanKeys (ex_consumed e')"
    by (simp add: exporter_inv_def accounted_for_def openKeys_def outsideKeys_def)
  with sim ledger_final [of "ledgerOf e" "ledgerOf e'"] show ?thesis
    using ledger_init [OF assms(1)] by (simp add: less_eq_ledger_def ledgerOf_def closedOf_keys)
qed

theorem exporter_implements_ledger_witness:
  "ledger_step\<^sup>*\<^sup>* (ledgerOf calledExporter) (ledgerOf rejectedExporter) \<and>
   led_closed (ledgerOf rejectedExporter) = settledAs (Dropped ExportResponseNotRetryable) [sampleSpan 3 0] \<and>
   ex_dropped calledExporter = []"
proof -
  have s: "exporter_step sampleCodec calledExporter rejectedExporter"
    using rejectedExporter_run
    by (intro exporter_step.act [of _ "XClient (ExportReturns 0 (ExportOk rejection))"])
      (simp split: option.splits)
  have "ex_dropped calledExporter = []"
    by (simp add: calledExporter_def sendingExporter_def configuredExporter_def sampleExporter_def)
  moreover have "led_closed (ledgerOf rejectedExporter) = settledAs (Dropped ExportResponseNotRetryable) [sampleSpan 3 0]"
    by (simp add: ledgerOf_def closedOf_def sampleExporter_facts)
  ultimately show ?thesis
    using exporter_implements_ledger [OF sampleExporter_new sample_reachCalled s sampleExporter_facts(5)] by simp
qed

end
