(* ===== verification/Shutdown.thy ===== *)
theory Shutdown
  imports Delivery
begin

text \<open>
  \<open>Shutdown\<close> of the exporter returns: from every state in which it has begun, the goroutines can
  bring it to its end. Records may be waiting to be sent: the client goes on sending until the
  encoder has stopped. Before a configuration has been received there are none.
\<close>

section \<open>The work left for Stop\<close>

fun stopWork :: "nat \<Rightarrow> stopper \<Rightarrow> nat" where
  "stopWork n NotStopping = 0"
| "stopWork n Draining = 2 * n + 4"
| "stopWork n (FlushingShards as) = n + 3 + length as"
| "stopWork n (StoppingShards as) = 2 + length as"
| "stopWork n ClosingHardStop = 1"
| "stopWork n StopReturned = 0"

text \<open>The signal for the workers is closed by the last step of \<open>Stop\<close> only.\<close>

definition hardStopLast :: "enc_sys \<Rightarrow> bool" where
  "hardStopLast s \<longleftrightarrow> (en_workerHardStop (es_enc s) \<longrightarrow> es_stop s = StopReturned)"

lemma hardStopLast_exec:
  assumes "enc_exec c act s = Some t" and inv: "hardStopLast s"
  shows "hardStopLast t"
  using assms(1)
proof (cases rule: enc_exec_cases)
  case (send i e evs)
  with inv enqueueSpans_frame [OF send(3), of c] show ?thesis by (simp add: hardStopLast_def)
next
  case (work i e w evs)
  with inv worker_step_frame [OF work(3)] show ?thesis by (simp add: hardStopLast_def)
next
  case (config e g fs ws evs)
  with inv config_step_frame [OF config(2)] show ?thesis by (simp add: hardStopLast_def)
next
  case (stop_flush a e st evs)
  then have "es_stop s \<noteq> StopReturned" by auto
  with stop_flush inv stop_flush_frame [OF stop_flush(2)] show ?thesis by (simp add: hardStopLast_def)
next
  case (stop e st evs)
  with inv show ?thesis
    by (cases "(es_enc s, es_stop s)" rule: stop_step.cases)
      (auto simp: hardStopLast_def beginStop_def stopConfigChanges_def closeHardStop_def split: sum.splits if_splits)
qed (use inv in \<open>simp_all add: hardStopLast_def\<close>)

interpretation hardStop_inv: transition_invariant enc_started "enc_step c" hardStopLast for c
proof
  fix s assume "enc_started s"
  then show "hardStopLast s"
    by (auto simp: enc_started_def hardStopLast_def enc_sys_init_def newEncoder_def Let_def split: if_splits)
next
  fix s t assume "enc_step c s t" "hardStopLast s"
  then show "hardStopLast t" by (auto elim!: enc_stepE intro: hardStopLast_exec)
qed

lemma stop_progress:
  assumes "es_stop s \<noteq> NotStopping" and "es_stop s \<noteq> StopReturned" and "hardStopLast s"
  obtains act t evs where "act = StopStep \<or> (\<exists>a. act = StopFlush a)" "enc_exec c act s = Some t"
    "es_events t = es_events s @ evs" "\<forall>p. Crashed p \<notin> set evs"
    "stopWork (length (en_shardEncoders (es_enc t))) (es_stop t) <
       stopWork (length (en_shardEncoders (es_enc s))) (es_stop s)"
    "es_stop t \<noteq> NotStopping"
proof -
  note result = that
  have stop: thesis if "stop_step (es_enc s) (es_stop s) = Some (e, st, evs)" "\<forall>p. Crashed p \<notin> set evs"
    "stopWork (length (en_shardEncoders (es_enc s))) st < stopWork (length (en_shardEncoders (es_enc s))) (es_stop s)"
    "st \<noteq> NotStopping" for e st evs
    using that stop_step_frame [OF that(1)]
    by (intro result [of StopStep "emit evs (s\<lparr>es_enc := e, es_stop := st\<rparr>)" evs]) simp_all
  show thesis
  proof (cases "es_stop s")
    case Draining
    then show thesis by (auto intro!: stop [of "es_enc s" "FlushingShards (en_shardEncoders (es_enc s))" "[]"])
  next
    case (FlushingShards "as")
    show thesis
    proof (cases "as")
      case Nil
      with FlushingShards show thesis
        by (auto intro!: stop [of "es_enc s" "StoppingShards (en_shardEncoders (es_enc s))" "[]"])
    next
      case (Cons a rest)
      obtain se evs where f: "Flush c (en_heap (es_enc s) ! a) = (se, evs)" by fastforce
      with FlushingShards Cons Flush_no_crash [OF f] show thesis
        by (intro result [of "StopFlush a" _ evs]) auto
    qed
  next
    case (StoppingShards "as")
    then show thesis by (cases "as") (auto intro: stop)
  next
    case ClosingHardStop
    with assms(3) have "\<not> en_workerHardStop (es_enc s)" by (auto simp: hardStopLast_def)
    with ClosingHardStop show thesis
      by (intro stop [of "(es_enc s)\<lparr>en_workerHardStop := True\<rparr>" StopReturned "[]"])
        (simp_all add: closeHardStop_def close_signal_def)
  qed (use assms in simp_all)
qed

section \<open>Records waiting to be sent\<close>

definition clientOpen :: "exporter \<Rightarrow> bool" where
  "clientOpen e \<longleftrightarrow> clientReady (ex_client e) \<and> SendReturned \<notin> set (cu_workers (ex_client e)) \<and>
     \<not> cu_done (ex_client e) \<and> ex_panics e = []"

text \<open>What the client holds and is handed can go out, and the encoder does not change by it.\<close>

definition keepsEncoder :: "codec \<Rightarrow> exporter \<Rightarrow> exporter \<Rightarrow> bool" where
  "keepsEncoder c e e' \<longleftrightarrow> (exporter_step c)\<^sup>*\<^sup>* e e' \<and> ex_enc e' = ex_enc e \<and> ex_consumed e' = ex_consumed e"

interpretation sends_drain: leads_to "keepsEncoder c" clientOpen "\<lambda>e. ex_sending e = []" exLoad for c
proof
  fix e assume e: "clientOpen e" "ex_sending e \<noteq> []"
  then have "clientReady (ex_client e)" "SendReturned \<notin> set (cu_workers (ex_client e))"
    by (auto simp: clientOpen_def)
  from client_progress [OF this, of c] e(2) obtain a e1 where a: "exporter_exec c a e = Some e1"
    "carriesOn a" "sends a" "exLoad e1 < exLoad e" by blast
  note fr = sends_frame [OF a(1,3,2)]
  from fr e(1) have "clientOpen e1" by (auto simp: clientOpen_def)
  moreover from fr exporter_step.act [OF a(1)] have "keepsEncoder c e e1" by (auto simp: keepsEncoder_def)
  ultimately show "\<exists>t. keepsEncoder c e t \<and> clientOpen t \<and> exLoad t < exLoad e" using a(4) by blast
qed (auto simp: keepsEncoder_def)

section \<open>Before a configuration is received\<close>

text \<open>
  An exporter whose retry loop has not started has had no sharding configuration: its encoder has
  no shard encoder, no flushing goroutine and no worker, and nothing has been handed to the client.
\<close>

definition neverConfigured :: "enc_sys \<Rightarrow> bool" where
  "neverConfigured s \<longleftrightarrow> en_configChangeRequest (es_enc s) = None \<and>
     es_config s \<in> {ConfigWaiting, ConfigExited} \<and> en_shardEncoders (es_enc s) = [] \<and>
     es_flushers s = [] \<and> es_workers s = [] \<and>
     (\<forall>a as. es_stop s \<noteq> FlushingShards (a # as) \<and> es_stop s \<noteq> StoppingShards (a # as))"

definition noRecords :: "event list \<Rightarrow> bool" where
  "noRecords evs \<longleftrightarrow> (\<forall>rec spans shard. RecordReady rec spans shard \<notin> set evs)"

lemma neverConfigured_stop:
  assumes "stop_step (es_enc s) (es_stop s) = Some (e, st, evs)" and inv: "neverConfigured s"
  shows "neverConfigured (s\<lparr>es_enc := e, es_stop := st\<rparr>) \<and> noRecords evs"
  using assms
  by (cases "(es_enc s, es_stop s)" rule: stop_step.cases)
    (auto simp: neverConfigured_def noRecords_def beginStop_def stopConfigChanges_def closeHardStop_def
      split: sum.splits if_splits)

lemma neverConfigured_emit [simp]: "neverConfigured (emit evs s) = neverConfigured s"
  by (simp add: neverConfigured_def)

lemma neverConfigured_exec:
  assumes "enc_exec c act s = Some t" and inv: "neverConfigured s" and "\<forall>cfg. act \<noteq> CallSetConfig cfg"
    and "es_events t = es_events s @ evs"
  shows "neverConfigured t \<and> noRecords evs"
  using assms(1)
proof (cases rule: enc_exec_cases)
  case (send i e evs')
  from send(3) have "en_configChangeRequest e = en_configChangeRequest (es_enc s)"
    "en_shardEncoders e = en_shardEncoders (es_enc s)" "noRecords evs'"
    by (auto simp: enqueueSpans_def noRecords_def split: option.splits)
  with send inv assms(4) show ?thesis by (simp add: neverConfigured_def)
next
  case (config e g fs ws evs')
  from config(2) inv have "e = es_enc s \<and> g = ConfigExited \<and> fs = 0 \<and> ws = 0 \<and> evs' = []"
    by (cases rule: config_step_cases) (auto simp: neverConfigured_def)
  with config inv assms(4) show ?thesis by (simp add: neverConfigured_def noRecords_def)
next
  case (stop_flush a e st evs')
  then obtain as where "es_stop s = FlushingShards as" "a \<in> set as"
    by (cases "es_stop s") (auto split: if_splits)
  with inv show ?thesis by (cases "as") (auto simp: neverConfigured_def)
next
  case (stop e st evs')
  from neverConfigured_stop [OF stop(2) inv] stop assms(4) show ?thesis by simp
qed (use assms in \<open>simp_all add: neverConfigured_def wgAdd_def noRecords_def\<close>)

lemma noRecords_sending:
  "noRecords evs \<Longrightarrow> ex_sending (fold (handleEvent g) evs e) = ex_sending e"
proof (induction evs arbitrary: e)
  case (Cons ev evs)
  then have "ex_sending (handleEvent g ev e) = ex_sending e" "noRecords evs"
    by (cases ev; simp add: noRecords_def; blast)+
  with Cons.IH show ?case by simp
qed simp

definition unconnected :: "exporter \<Rightarrow> bool" where
  "unconnected e \<longleftrightarrow> neverConfigured (ex_enc e) \<and> ex_sending e = [] \<and> client_pending (ex_client e) = []"

text \<open>The client is shut down only once \<open>Stop\<close> has returned.\<close>

definition shutdownOk :: "exporter \<Rightarrow> bool" where
  "shutdownOk e \<longleftrightarrow> (ex_retry e = RetryNotStarted \<longrightarrow> unconnected e) \<and>
     (cu_done (ex_client e) \<longrightarrow> es_stop (ex_enc e) = StopReturned)"

lemma stopReturned_exec:
  "enc_exec c act s = Some t \<Longrightarrow> es_stop s = StopReturned \<Longrightarrow> es_stop t = StopReturned"
  by (erule enc_exec_cases) simp_all

lemma stopReturned_clientEvents:
  "es_stop (ex_enc (fold handleClientEvent evs e)) = es_stop (ex_enc e)"
proof (induction evs arbitrary: e)
  case (Cons ev evs)
  have "es_stop (ex_enc (handleClientEvent ev e)) = es_stop (ex_enc e)"
  proof (cases ev)
    case (SendResponse rec spans resp)
    then show ?thesis
      by (cases "RespResultCode resp") (simp_all add: OnSendResponse_def Let_def requestConfig_def)
  qed (simp_all add: OnSendFail_enc)
  with Cons.IH show ?case by simp
qed simp

lemma client_move_nothing:
  assumes "client_move m cl = Some (cl', evs)" and "client_pending cl = []"
  shows "client_pending cl' = [] \<and> evs = []"
  using client_unary.move_answers [OF assms(1)] assms(2) by auto

lemma client_Connect_done: "client_Connect dial options cl = (cl', ok) \<Longrightarrow> cu_done cl' = cu_done cl"
  by (auto simp: client_Connect_def Let_def split: if_splits)

lemma shutdownOk_exec:
  assumes "exporter_exec c a e = Some e'" and ok: "shutdownOk e" and before: "beforeConnect e"
  shows "shutdownOk e'"
  using assms(1)
proof (cases rule: exporter_exec_cases)
  case (consumed td enc spans)
  from enc_exec_events [OF consumed(2)] obtain evs where "es_events enc = es_events (ex_enc e) @ evs" by blast
  with consumed ok neverConfigured_exec [OF consumed(2), of evs] stopReturned_exec [OF consumed(2)]
  show ?thesis by (auto simp: shutdownOk_def unconnected_def simp del: enc_exec.simps)
next
  case (encoder act enc evs)
  then have "\<forall>cfg. act \<noteq> CallSetConfig cfg" by auto
  with encoder ok neverConfigured_exec [OF encoder(2) _ _ encoder(4)] stopReturned_exec [OF encoder(2)]
    control_events [of "actor act" evs "e\<lparr>ex_enc := enc\<rparr>"]
    noRecords_sending [of evs "actor act" "e\<lparr>ex_enc := enc\<rparr>"]
  show ?thesis by (simp add: shutdownOk_def unconnected_def handleEvents_frame control_def del: enc_exec.simps)
next
  case (sent i g rec spans shard cl)
  with ok client_Send_ready [OF sent(4)] show ?thesis by (auto simp: shutdownOk_def unconnected_def)
next
  case (client m cl evs)
  have "ex_retry e' = ex_retry e" "es_stop (ex_enc e') = es_stop (ex_enc e)" "ex_client e' = cl"
    using control_clientEvents [of evs "e\<lparr>ex_client := cl\<rparr>"]
    by (simp_all add: client(3) control_def stopReturned_clientEvents handleClientEvents_client)
  moreover have "unconnected e \<Longrightarrow> unconnected e'"
    using client_move_nothing [OF client(2)] by (simp add: unconnected_def client(3))
  ultimately show ?thesis using ok client_move_ready [OF client(2)] by (simp add: shutdownOk_def)
next
  case (retried spans q enc)
  from enc_exec_events [OF retried(3)] obtain evs where "es_events enc = es_events (ex_enc e) @ evs" by blast
  with retried ok neverConfigured_exec [OF retried(3), of evs] stopReturned_exec [OF retried(3)]
  show ?thesis by (auto simp: shutdownOk_def unconnected_def simp del: enc_exec.simps)
next
  case (connected ok' cl b)
  with before have "client_pending (ex_client e) = []" by (simp add: beforeConnect_def)
  from client_Connect_keys [OF connected(3) this] connected ok client_Connect_done [OF connected(3)]
  show ?thesis by (auto simp: shutdownOk_def unconnected_def)
next
  case (stopping enc)
  from enc_exec_events [OF stopping(2)] obtain evs where "es_events enc = es_events (ex_enc e) @ evs" by blast
  with stopping ok neverConfigured_exec [OF stopping(2), of evs] stopReturned_exec [OF stopping(2)]
  show ?thesis by (auto simp: shutdownOk_def unconnected_def simp del: enc_exec.simps)
next
  case (shutdown cl evs)
  with assms(1) have "shutdownEnd e = Some e'" by simp
  then have "e' = e\<lparr>ex_client := (ex_client e)\<lparr>cu_done := True\<rparr>\<rparr>" "es_stop (ex_enc e) = StopReturned"
    by (rule shutdownEnd_cases; simp add: client_Shutdown_def close_signal_def)+
  with ok show ?thesis
    by (simp add: shutdownOk_def unconnected_def client_pending_def queuedRequests_def callingRequests_def)
qed (use ok in \<open>auto simp: shutdownOk_def unconnected_def requestConfig_def\<close>)

section \<open>Shutdown returns\<close>

definition stopLoad :: "exporter \<Rightarrow> nat" where
  "stopLoad e = stopWork (length (en_shardEncoders (es_enc (ex_enc e)))) (es_stop (ex_enc e))"

text \<open>Nothing has panicked, the client is not shut down, and what there is to send can go out.\<close>

definition stoppingOpen :: "exporter \<Rightarrow> bool" where
  "stoppingOpen e \<longleftrightarrow> (clientOpen e \<or> unconnected e) \<and> ex_panics e = [] \<and> \<not> cu_done (ex_client e) \<and>
     es_stop (ex_enc e) \<noteq> NotStopping \<and> hardStopLast (ex_enc e)"

lemma stop_moves:
  assumes "stoppingOpen e" and "ex_sending e = []" and "es_stop (ex_enc e) \<noteq> StopReturned"
  shows "\<exists>e'. exporter_step c e e' \<and> ex_consumed e' = ex_consumed e \<and> stoppingOpen e' \<and> stopLoad e' < stopLoad e"
proof -
  from assms(1) have s: "clientOpen e \<or> unconnected e" "ex_panics e = []" "\<not> cu_done (ex_client e)"
    "es_stop (ex_enc e) \<noteq> NotStopping" "hardStopLast (ex_enc e)" by (auto simp: stoppingOpen_def)
  obtain act t evs where t: "act = StopStep \<or> (\<exists>a. act = StopFlush a)" "enc_exec c act (ex_enc e) = Some t"
    "es_events t = es_events (ex_enc e) @ evs" "\<forall>p. Crashed p \<notin> set evs"
    "stopWork (length (en_shardEncoders (es_enc t))) (es_stop t) <
       stopWork (length (en_shardEncoders (es_enc (ex_enc e)))) (es_stop (ex_enc e))"
    "es_stop t \<noteq> NotStopping"
    by (rule stop_progress [OF s(4) assms(3) s(5), of c])
  define e' where "e' = fold (handleEvent (actor act)) evs (e\<lparr>ex_enc := t\<rparr>)"
  have "internalAction act (es_stop (ex_enc e))" using t(1) s(4) by auto
  with t(2,3) assms(2) have "encoderMove c act e = Some e'"
    by (simp add: encoderMove_def e'_def del: enc_exec.simps)
  then have "exporter_step c e e'" by (intro exporter_step.act [of c "XEncoder act"]) simp
  moreover note fr = handleEvents_frame [of "actor act" evs "e\<lparr>ex_enc := t\<rparr>", folded e'_def]
  have ok: "ex_panics e' = []" "hardStopLast t"
    using s(2) handleEvents_no_crash [OF t(4)] hardStopLast_exec [OF t(2) s(5)] by (simp_all add: e'_def)
  have "unconnected e'" if "unconnected e"
    using that neverConfigured_exec [OF t(2) _ _ t(3)] noRecords_sending [of evs "actor act" "e\<lparr>ex_enc := t\<rparr>"] t(1) fr
    by (auto simp: unconnected_def simp flip: e'_def)
  then have "stoppingOpen e'" using s ok fr t(6) by (auto simp: stoppingOpen_def clientOpen_def)
  ultimately show ?thesis using t(5) fr by (auto simp: stopLoad_def)
qed

interpretation stop_returns: leads_to "\<lambda>e e'. (exporter_step c)\<^sup>*\<^sup>* e e' \<and> ex_consumed e' = ex_consumed e"
  stoppingOpen "\<lambda>e. es_stop (ex_enc e) = StopReturned" stopLoad for c
proof
  fix e assume e: "stoppingOpen e" "es_stop (ex_enc e) \<noteq> StopReturned"
  obtain e1 where e1: "(exporter_step c)\<^sup>*\<^sup>* e e1" "ex_sending e1 = []" "ex_enc e1 = ex_enc e"
    "ex_consumed e1 = ex_consumed e" "stoppingOpen e1"
  proof (cases "clientOpen e")
    case True
    from sends_drain.reaches_goal [OF this, of c] obtain e1 where "(exporter_step c)\<^sup>*\<^sup>* e e1"
      "ex_sending e1 = []" "ex_enc e1 = ex_enc e" "ex_consumed e1 = ex_consumed e" "clientOpen e1"
      by (auto simp: keepsEncoder_def)
    with e(1) show thesis by (intro that [of e1]) (auto simp: stoppingOpen_def clientOpen_def)
  next
    case False
    with e(1) show thesis by (intro that [of e]) (auto simp: stoppingOpen_def unconnected_def)
  qed
  from stop_moves [OF e1(5,2), of c] e(2) e1(3) obtain e2 where "exporter_step c e1 e2"
    "ex_consumed e2 = ex_consumed e1" "stoppingOpen e2" "stopLoad e2 < stopLoad e1" by auto
  with e1 show "\<exists>t. ((exporter_step c)\<^sup>*\<^sup>* e t \<and> ex_consumed t = ex_consumed e) \<and> stoppingOpen t \<and>
      stopLoad t < stopLoad e"
    by (intro exI [of _ e2]) (simp add: stopLoad_def)
qed auto

lemma enc_run_exporter:
  assumes "CreateTraceExporter register cfg = Some e0" and "(exporter_step c)\<^sup>*\<^sup>* e0 e"
  shows "(enc_step c)\<^sup>*\<^sup>* (ex_enc e0) (ex_enc e)"
  using assms(2)
proof (induction rule: rtranclp_induct)
  case (step e1 e2)
  from assms(1) have "exporter_started (cfg_Name cfg) e0" by (auto simp: exporter_started_def)
  from exporter_inv.reachable_inv [OF this step(1)] have ok: "inv_shape c (ex_enc e1)" "beforeConnect e1"
    by (auto simp: exporter_inv_def enc_inv_def)
  from step(2) obtain a where "exporter_exec c a e1 = Some e2" by (auto elim: exporter_stepE)
  from goodMove_exec [OF this ok] step(3) show ?case by (auto simp: goodMove_def)
qed simp

lemma hardStop_exporter:
  assumes "CreateTraceExporter register cfg = Some e0" and "(exporter_step c)\<^sup>*\<^sup>* e0 e"
  shows "hardStopLast (ex_enc e)"
proof -
  obtain cfg2 where "CreateTraceExporter register cfg = NewExporter register cfg2 NewClientUnary"
    by (rule CreateTraceExporter_config)
  with assms(1) obtain enc where "newEncoder register (encoderOptions cfg2) = Some enc"
    "ex_enc e0 = enc_sys_init enc"
    by (auto simp: NewExporter_def split: option.splits)
  then have "enc_started (ex_enc e0)" unfolding enc_started_def by blast
  from hardStop_inv.reachable_inv [OF this enc_run_exporter [OF assms]] show ?thesis .
qed

lemma shutdownOk_init:
  assumes "CreateTraceExporter register cfg = Some e"
  shows "shutdownOk e"
proof -
  obtain cfg2 where "CreateTraceExporter register cfg = NewExporter register cfg2 NewClientUnary"
    by (rule CreateTraceExporter_config)
  with assms obtain enc where "newEncoder register (encoderOptions cfg2) = Some enc"
    "ex_enc e = enc_sys_init enc" "ex_client e = NewClientUnary" "ex_sending e = []"
    by (auto simp: NewExporter_def split: option.splits)
  then show ?thesis
    by (auto simp: shutdownOk_def unconnected_def neverConfigured_def enc_sys_init_def newEncoder_def Let_def
        NewClientUnary_def client_pending_def queuedRequests_def callingRequests_def split: if_splits)
qed

interpretation shutdown_inv:
  transition_invariant "exporter_started name" "exporter_step c" "\<lambda>e. shutdownOk e \<and> exporter_inv c name e"
  for name c
proof
  fix e assume "exporter_started name e"
  then show "shutdownOk e \<and> exporter_inv c name e"
    by (auto simp: exporter_started_def shutdownOk_init exporter_inv_init)
next
  fix e e' assume s: "exporter_step c e e'" and inv: "shutdownOk e \<and> exporter_inv c name e"
  from s obtain a where "exporter_exec c a e = Some e'" by (auto elim: exporter_stepE)
  from shutdownOk_exec [OF this] inv exporter_inv.step_inv [OF s]
  show "shutdownOk e' \<and> exporter_inv c name e'" by (simp add: exporter_inv_def)
qed

section \<open>Property\<close>

text \<open>
  C26: \<open>Shutdown\<close> can always return. From every reachable state in which \<open>Stop\<close> of the encoder has
  begun and nothing has panicked, whether the exporter ever got a connection or a configuration or
  not and whatever else is under way, the goroutines can reach the end of \<open>Shutdown\<close>: \<open>Stop\<close> has
  returned, the workers are told to return, the client is shut down, and nothing has panicked.
\<close>

theorem exporter_shutdown_returns:
  assumes "CreateTraceExporter register cfg = Some e0" and "(exporter_step c)\<^sup>*\<^sup>* e0 e"
    and "ex_panics e = []" and "es_stop (ex_enc e) \<noteq> NotStopping"
  shows "\<exists>e'. (exporter_step c)\<^sup>*\<^sup>* e e' \<and> es_stop (ex_enc e') = StopReturned \<and> cu_done (ex_client e') \<and>
    ex_panics e' = [] \<and> ex_consumed e' = ex_consumed e"
proof (cases "cu_done (ex_client e)")
  case False
  from assms(1) have start: "exporter_started (cfg_Name cfg) e0" by (auto simp: exporter_started_def)
  from connection_inv.reachable_inv [OF start assms(2)] shutdown_inv.reachable_inv [OF start assms(2)] assms(3) False
  have "clientOpen e \<or> unconnected e"
    by (auto simp: connectionOk_def clientOpen_def shutdownOk_def)
  with hardStop_exporter [OF assms(1,2)] assms(3,4) False have "stoppingOpen e" by (simp add: stoppingOpen_def)
  from stop_returns.reaches_goal [OF this, of c] obtain e1 where e1: "(exporter_step c)\<^sup>*\<^sup>* e e1"
    "es_stop (ex_enc e1) = StopReturned" "ex_consumed e1 = ex_consumed e" "ex_panics e1 = []"
    "\<not> cu_done (ex_client e1)" by (auto simp: stoppingOpen_def)
  let ?e2 = "e1\<lparr>ex_client := (ex_client e1)\<lparr>cu_done := True\<rparr>\<rparr>"
  from e1(2,5) have "exporter_step c e1 ?e2"
    by (intro exporter_step.act [of c XShutdownEnd])
      (simp add: shutdownEnd_def client_Shutdown_def close_signal_def)
  with e1 show ?thesis by (intro exI [of _ ?e2]) (auto intro: rtranclp.rtrancl_into_rtrancl)
next
  case True
  from assms(1) have "exporter_started (cfg_Name cfg) e0" by (auto simp: exporter_started_def)
  from shutdown_inv.reachable_inv [OF this assms(2)] True assms(3) show ?thesis
    by (intro exI [of _ e]) (simp add: shutdownOk_def)
qed

text \<open>The exporter that has a record to send is told to shut down.\<close>

definition stoppingExporter :: exporter where
  "stoppingExporter = sendingExporter\<lparr>ex_done := True,
     ex_enc := (ex_enc sendingExporter)\<lparr>es_enc := beginStop (es_enc (ex_enc sendingExporter)), es_stop := Draining\<rparr>\<rparr>"

lemma stoppingExporter_step: "exporter_step sampleCodec sendingExporter stoppingExporter"
proof (rule exporter_step.act [of _ XShutdownBegin])
  have "es_stop (ex_enc sendingExporter) = NotStopping" "ex_done sendingExporter = False"
    by (simp_all add: sendingExporter_def configuredExporter_def sampleExporter_def sampleSent_def sampleEncoded_def
        sampleSys4_def emit_def sample_flush sampleEnc4_facts flusher_tick_def sampleEnc_request(6))
  then show "exporter_exec sampleCodec XShutdownBegin sendingExporter = Some stoppingExporter"
    by (simp add: stoppingExporter_def shutdownBegin_def close_signal_def emit_def)
qed

text \<open>So is one that has just been made, before it is started.\<close>

definition idleStopping :: exporter where
  "idleStopping = sampleExporter\<lparr>ex_done := True,
     ex_enc := (ex_enc sampleExporter)\<lparr>es_enc := beginStop (es_enc (ex_enc sampleExporter)), es_stop := Draining\<rparr>\<rparr>"

lemma idleStopping_step: "exporter_step sampleCodec sampleExporter idleStopping"
  by (rule exporter_step.act [of _ XShutdownBegin])
    (simp add: idleStopping_def shutdownBegin_def close_signal_def emit_def sampleExporter_def enc_sys_init_def)

theorem exporter_shutdown_returns_witness:
  "(\<exists>e'. (exporter_step sampleCodec)\<^sup>*\<^sup>* stoppingExporter e' \<and> es_stop (ex_enc e') = StopReturned \<and>
      cu_done (ex_client e') \<and> ex_sending stoppingExporter \<noteq> []) \<and>
   (\<exists>e'. (exporter_step sampleCodec)\<^sup>*\<^sup>* idleStopping e' \<and> es_stop (ex_enc e') = StopReturned \<and>
      cu_done (ex_client e') \<and> ex_retry idleStopping = RetryNotStarted)"
proof -
  have "ex_sending stoppingExporter \<noteq> []" "ex_panics stoppingExporter = []"
    "es_stop (ex_enc stoppingExporter) \<noteq> NotStopping"
    using sendingExporter_live sampleExporter_facts(2)
    by (simp_all add: stoppingExporter_def) (simp add: sendingExporter_def)
  moreover have "ex_panics idleStopping = []" "es_stop (ex_enc idleStopping) \<noteq> NotStopping"
    "ex_retry idleStopping = RetryNotStarted"
    by (simp_all add: idleStopping_def sampleExporter_def)
  ultimately show ?thesis
    using exporter_shutdown_returns [OF sampleExporter_new
        rtranclp.rtrancl_into_rtrancl [OF sample_reachSendingX stoppingExporter_step]]
      exporter_shutdown_returns [OF sampleExporter_new r_into_rtranclp [of "exporter_step sampleCodec", OF idleStopping_step]]
    by auto
qed

end
