(* ===== verification/OCTrace.thy ===== *)
theory OCTrace
  imports Prelude
begin

text \<open>
  The OpenCensus trace receiver (\<open>receiver/opencensusreceiver/octrace\<close>): the options, the unary and
  the streaming export, what is handed to the next consumer, and the limit on concurrent streams.

  Nodes, resources and spans are protocol messages the receiver only passes on, so they are type
  variables; a nil pointer is \<open>None\<close>. The next consumer is a function of a state of its own, which
  it may change; its error, if any, is a value. A stream is the list of the messages
  that arrive and the error that ends it. The receiver's own tracing span is left out.
\<close>

section \<open>Messages\<close>

record ('n, 'r, 's) ExportTraceServiceRequest =
  Node :: "'n option"
  Resource :: "'r option"
  Spans :: "'s list"

record ('n, 'r, 's) TraceData =
  td_Node :: "'n option"
  td_Resource :: "'r option"
  td_Spans :: "'s list"
  td_SourceFormat :: string

datatype 'io recvError = EOF | RecvFailed 'io

datatype ('e, 'io) traceError =
    NodeMustBeSpecified
  | Unimplemented
  | ProtocolViolation
  | ResourceExhausted int
  | ConsumerFailed 'e
  | StreamFailed "'io recvError"

section \<open>The receiver\<close>

definition receiverUnaryTagValue :: string where
  "receiverUnaryTagValue = ''oc_trace_unary''"

definition receiverBiDirectionalTagValue :: string where
  "receiverBiDirectionalTagValue = ''oc_trace''"

type_synonym ('n, 'r, 's, 'w, 'e) traceConsumer = "('n, 'r, 's) TraceData \<Rightarrow> 'w \<Rightarrow> 'e option \<times> 'w"

record ('n, 'r, 's, 'w, 'e) Receiver =
  backPressureOn :: bool
  maxServerStreams :: int
  nextConsumer :: "('n, 'r, 's, 'w, 'e) traceConsumer"
  serverStreamsCount :: int

text \<open>A measurement of the receiver: its tag, and the spans received and dropped.\<close>

type_synonym traceMetric = "string \<times> nat \<times> nat"

definition WithBackPressure :: "('n, 'r, 's, 'w, 'e) Receiver \<Rightarrow> ('n, 'r, 's, 'w, 'e) Receiver" where
  "WithBackPressure r = r\<lparr>backPressureOn := True\<rparr>"

definition WithMaxServerStream :: "int \<Rightarrow> ('n, 'r, 's, 'w, 'e) Receiver \<Rightarrow> ('n, 'r, 's, 'w, 'e) Receiver" where
  "WithMaxServerStream n r = r\<lparr>maxServerStreams := n\<rparr>"

datatype newError = NeedsNonNilConsumer

definition New ::
  "('n, 'r, 's, 'w, 'e) traceConsumer option \<Rightarrow>
     (('n, 'r, 's, 'w, 'e) Receiver \<Rightarrow> ('n, 'r, 's, 'w, 'e) Receiver) list \<Rightarrow>
     newError + ('n, 'r, 's, 'w, 'e) Receiver" where
  "New next opts =
     (case next of
        None \<Rightarrow> Inl NeedsNonNilConsumer
      | Some consumer \<Rightarrow>
          Inr (fold (\<lambda>opt r. opt r) opts
                \<lparr>backPressureOn = False, maxServerStreams = 0, nextConsumer = consumer,
                 serverStreamsCount = 0\<rparr>))"

section \<open>Handing over\<close>

definition sendToNextConsumer ::
  "('n, 'r, 's, 'w, 'e) Receiver \<Rightarrow> string \<Rightarrow> ('n, 'r, 's) TraceData option \<Rightarrow> 'w \<times> traceMetric list \<Rightarrow>
     'e option \<times> 'w \<times> traceMetric list" where
  "sendToNextConsumer ocr tag tracedata st =
     (case (tracedata, st) of
        (None, _) \<Rightarrow> (None, st)
      | (Some td, (w, log)) \<Rightarrow>
          if length (td_Spans td) = 0 then (None, w, log @ [(tag, 0, 0)])
          else (case nextConsumer ocr td w of
                  (Some err, w1) \<Rightarrow> (Some err, w1, log @ [(tag, 0, length (td_Spans td))])
                | (None, w1) \<Rightarrow> (None, w1, log @ [(tag, length (td_Spans td), 0)])))"

definition processReceivedMsg ::
  "('n, 'r, 's, 'w, 'e) Receiver \<Rightarrow> string \<Rightarrow> 'n option \<Rightarrow> 'r option \<Rightarrow>
     ('n, 'r, 's) ExportTraceServiceRequest \<Rightarrow> 'w \<times> traceMetric list \<Rightarrow>
     'n option \<times> 'r option \<times> 'e option \<times> 'w \<times> traceMetric list" where
  "processReceivedMsg ocr tag lastNonNilNode resource recv st =
     (let node = (if Node recv \<noteq> None then Node recv else lastNonNilNode);
          res = (if Resource recv \<noteq> None then Resource recv else resource);
          td = \<lparr>td_Node = node, td_Resource = res, td_Spans = Spans recv, td_SourceFormat = ''oc_trace''\<rparr>
      in (node, res, sendToNextConsumer ocr tag (Some td) st))"

text \<open>\<open>Config\<close> refuses whatever stream it is called with.\<close>

definition oct_Config :: "'cs \<Rightarrow> ('e, 'io) traceError" where
  "oct_Config tcs = Unimplemented"

text \<open>\<open>ExportOne\<close>: the answer is an empty response or an error.\<close>

definition ExportOne ::
  "('n, 'r, 's, 'w, 'e) Receiver \<Rightarrow> ('n, 'r, 's) ExportTraceServiceRequest \<Rightarrow> 'w \<times> traceMetric list \<Rightarrow>
     ('e, 'io) traceError option \<times> 'w \<times> traceMetric list" where
  "ExportOne ocr req st =
     (if Node req = None then (Some NodeMustBeSpecified, st)
      else (case processReceivedMsg ocr receiverUnaryTagValue None None req st of
              (_, _, err, st1) \<Rightarrow>
                (if \<not> backPressureOn ocr then None else map_option ConsumerFailed err, st1)))"

section \<open>Streams\<close>

text \<open>
  The loop of \<open>Export\<close>, from a message that has been received; the messages still to come
  and the error after them are the last arguments.
\<close>

fun exportLoop ::
  "('n, 'r, 's, 'w, 'e) Receiver \<Rightarrow> 'n option \<Rightarrow> 'r option \<Rightarrow> ('n, 'r, 's) ExportTraceServiceRequest \<Rightarrow>
     ('n, 'r, 's) ExportTraceServiceRequest list \<Rightarrow> 'io recvError \<Rightarrow> 'w \<times> traceMetric list \<Rightarrow>
     ('e, 'io) traceError option \<times> 'w \<times> traceMetric list" where
  "exportLoop ocr node res recv rest ending st =
     (case processReceivedMsg ocr receiverBiDirectionalTagValue node res recv st of
        (node1, res1, Some err, st1) \<Rightarrow>
          (if backPressureOn ocr then Some (ConsumerFailed err) else None, st1)
      | (node1, res1, None, st1) \<Rightarrow>
          (case rest of
             [] \<Rightarrow> (case ending of EOF \<Rightarrow> None | RecvFailed io \<Rightarrow> Some (StreamFailed (RecvFailed io)), st1)
           | m # ms \<Rightarrow> exportLoop ocr node1 res1 m ms ending st1))"

declare exportLoop.simps [simp del]

definition exportStream ::
  "('n, 'r, 's, 'w, 'e) Receiver \<Rightarrow> ('n, 'r, 's) ExportTraceServiceRequest list \<Rightarrow> 'io recvError \<Rightarrow>
     'w \<times> traceMetric list \<Rightarrow> ('e, 'io) traceError option \<times> 'w \<times> traceMetric list" where
  "exportStream ocr msgs ending st =
     (case msgs of
        [] \<Rightarrow> (Some (StreamFailed ending), st)
      | recv # rest \<Rightarrow>
          if Node recv = None then (Some ProtocolViolation, st)
          else exportLoop ocr None None recv rest ending st)"

text \<open>The count of streams: taken on entry, compared, and given back on every way out.\<close>

definition enterStream :: "('n, 'r, 's, 'w, 'e) Receiver \<Rightarrow> int \<times> ('n, 'r, 's, 'w, 'e) Receiver" where
  "enterStream ocr =
     (let n = serverStreamsCount ocr + 1 in (n, ocr\<lparr>serverStreamsCount := n\<rparr>))"

definition leaveStream :: "('n, 'r, 's, 'w, 'e) Receiver \<Rightarrow> ('n, 'r, 's, 'w, 'e) Receiver" where
  "leaveStream ocr = ocr\<lparr>serverStreamsCount := serverStreamsCount ocr - 1\<rparr>"

definition Export ::
  "('n, 'r, 's, 'w, 'e) Receiver \<Rightarrow> ('n, 'r, 's) ExportTraceServiceRequest list \<Rightarrow> 'io recvError \<Rightarrow>
     'w \<times> traceMetric list \<Rightarrow>
     ('n, 'r, 's, 'w, 'e) Receiver \<times> ('e, 'io) traceError option \<times> 'w \<times> traceMetric list" where
  "Export ocr msgs ending st =
     (if maxServerStreams ocr > 0
      then (case enterStream ocr of
              (n, ocr1) \<Rightarrow>
                if n > maxServerStreams ocr1
                then (leaveStream ocr1, Some (ResourceExhausted (maxServerStreams ocr1)), st)
                else (leaveStream ocr1, exportStream ocr1 msgs ending st))
      else (ocr, exportStream ocr msgs ending st))"

section \<open>Concurrent streams\<close>

text \<open>
  Each call of \<open>Export\<close> is a goroutine: it has taken its count, serves its stream, or is
  on its way out after being refused. The three atomic steps of the count interleave freely.
\<close>

datatype streamCall = Counted int | Serving | Refusing

record streams =
  st_count :: int
  st_calls :: "streamCall list"

datatype streamAction = EnterCall | DecideCall nat | LeaveCall nat

fun stream_exec :: "int \<Rightarrow> streamAction \<Rightarrow> streams \<Rightarrow> streams option" where
  "stream_exec limit EnterCall s =
     Some \<lparr>st_count = st_count s + 1, st_calls = st_calls s @ [Counted (st_count s + 1)]\<rparr>"
| "stream_exec limit (DecideCall i) s =
     (if i < length (st_calls s)
      then (case st_calls s ! i of
              Counted n \<Rightarrow>
                Some (s\<lparr>st_calls := (st_calls s)[i := if n > limit then Refusing else Serving]\<rparr>)
            | _ \<Rightarrow> None)
      else None)"
| "stream_exec limit (LeaveCall i) s =
     (if i < length (st_calls s) \<and> (st_calls s ! i = Serving \<or> st_calls s ! i = Refusing)
      then Some \<lparr>st_count = st_count s - 1, st_calls = take i (st_calls s) @ drop (Suc i) (st_calls s)\<rparr>
      else None)"

inductive stream_step :: "int \<Rightarrow> streams \<Rightarrow> streams \<Rightarrow> bool" for limit where
  act: "stream_exec limit a s = Some t \<Longrightarrow> stream_step limit s t"

inductive_cases stream_stepE: "stream_step limit s t"

fun stream_run :: "int \<Rightarrow> streamAction list \<Rightarrow> streams \<Rightarrow> streams option" where
  "stream_run limit [] s = Some s"
| "stream_run limit (a # as) s =
     (case stream_exec limit a s of None \<Rightarrow> None | Some t \<Rightarrow> stream_run limit as t)"

lemma stream_run_reachable: "stream_run limit as s = Some t \<Longrightarrow> (stream_step limit)\<^sup>*\<^sup>* s t"
proof (induction "as" arbitrary: s)
  case (Cons a "as")
  then obtain u where "stream_exec limit a s = Some u" "stream_run limit as u = Some t"
    by (auto split: option.splits)
  with Cons.IH show ?case by (meson stream_step.act converse_rtranclp_into_rtranclp)
qed simp

text \<open>A call that serves, or that will when it decides.\<close>

fun admitted :: "int \<Rightarrow> streamCall \<Rightarrow> bool" where
  "admitted limit (Counted n) \<longleftrightarrow> n \<le> limit"
| "admitted limit Serving \<longleftrightarrow> True"
| "admitted limit Refusing \<longleftrightarrow> False"

definition admittedCalls :: "int \<Rightarrow> streams \<Rightarrow> int" where
  "admittedCalls limit s = int (length (filter (admitted limit) (st_calls s)))"

definition streams_inv :: "int \<Rightarrow> streams \<Rightarrow> bool" where
  "streams_inv limit s \<longleftrightarrow> st_count s = int (length (st_calls s)) \<and> admittedCalls limit s \<le> limit"

lemma filter_update_same:
  "i < length xs \<Longrightarrow> P (xs ! i) = P y \<Longrightarrow> length (filter P (xs[i := y])) = length (filter P xs)"
  by (induction xs arbitrary: i) (auto split: nat.splits)

lemma filter_remove_le: "length (filter P (take i xs @ drop (Suc i) xs)) \<le> length (filter P xs)"
  by (induction xs arbitrary: i) (auto simp: take_Cons drop_Cons split: nat.splits)

lemma streams_inv_exec:
  assumes "stream_exec limit a s = Some t" and "streams_inv limit s"
  shows "streams_inv limit t"
proof (cases a)
  case EnterCall
  from assms(2) length_filter_le [of "admitted limit" "st_calls s"]
  have "admittedCalls limit s + 1 \<le> limit" if "st_count s + 1 \<le> limit"
    using that by (simp only: streams_inv_def admittedCalls_def)
  with EnterCall assms show ?thesis by (auto simp: streams_inv_def admittedCalls_def)
next
  case (DecideCall i)
  with assms(1) obtain n where i: "i < length (st_calls s)" "st_calls s ! i = Counted n"
    and t: "t = s\<lparr>st_calls := (st_calls s)[i := if n > limit then Refusing else Serving]\<rparr>"
    by (auto split: if_splits streamCall.splits)
  have "length (filter (admitted limit) (st_calls t)) = length (filter (admitted limit) (st_calls s))"
    using filter_update_same [OF i(1), of "admitted limit" "if n > limit then Refusing else Serving"]
    by (auto simp: t i(2))
  with assms(2) show ?thesis by (simp add: streams_inv_def admittedCalls_def t)
next
  case (LeaveCall i)
  with assms(1) have i: "i < length (st_calls s)"
    and t: "t = \<lparr>st_count = st_count s - 1, st_calls = take i (st_calls s) @ drop (Suc i) (st_calls s)\<rparr>"
    by (auto split: if_splits)
  have "length (filter (admitted limit) (st_calls t)) \<le> length (filter (admitted limit) (st_calls s))"
    unfolding t using filter_remove_le [of "admitted limit" i "st_calls s"] by simp
  with assms(2) i show ?thesis by (auto simp: streams_inv_def admittedCalls_def t)
qed

definition noStreams :: "int \<Rightarrow> streams \<Rightarrow> bool" where
  "noStreams limit s \<longleftrightarrow> 0 < limit \<and> s = \<lparr>st_count = 0, st_calls = []\<rparr>"

interpretation streams_inv: transition_invariant "noStreams limit" "stream_step limit" "streams_inv limit"
  for limit
proof
  fix s assume "noStreams limit s"
  then show "streams_inv limit s" by (simp add: noStreams_def streams_inv_def admittedCalls_def)
next
  fix s t assume "stream_step limit s t" "streams_inv limit s"
  then show "streams_inv limit t" by (auto elim!: stream_stepE intro: streams_inv_exec simp del: stream_exec.simps)
qed

section \<open>The loop against its specification\<close>

text \<open>
  What the messages of a stream mean: message \<open>i\<close> stands under the last node and the last
  resource that have been sent up to it.
\<close>

definition lastSent :: "'a option list \<Rightarrow> 'a option" where
  "lastSent xs = fold (\<lambda>x acc. if x \<noteq> None then x else acc) xs None"

definition streamData :: "('n, 'r, 's) ExportTraceServiceRequest list \<Rightarrow> nat \<Rightarrow> ('n, 'r, 's) TraceData" where
  "streamData msgs i =
     \<lparr>td_Node = lastSent (map Node (take (Suc i) msgs)),
      td_Resource = lastSent (map Resource (take (Suc i) msgs)),
      td_Spans = Spans (msgs ! i), td_SourceFormat = ''oc_trace''\<rparr>"

text \<open>Batches handed to the consumer in order, up to the first that fails.\<close>

fun sendAll ::
  "('n, 'r, 's, 'w, 'e) Receiver \<Rightarrow> ('n, 'r, 's) TraceData list \<Rightarrow> 'w \<times> traceMetric list \<Rightarrow>
     'e option \<times> 'w \<times> traceMetric list" where
  "sendAll ocr [] st = (None, st)"
| "sendAll ocr (td # tds) st =
     (case sendToNextConsumer ocr receiverBiDirectionalTagValue (Some td) st of
        (Some err, st1) \<Rightarrow> (Some err, st1)
      | (None, st1) \<Rightarrow> sendAll ocr tds st1)"

definition streamEnd :: "bool \<Rightarrow> 'e option \<Rightarrow> 'io recvError \<Rightarrow> ('e, 'io) traceError option" where
  "streamEnd backPressure failure ending =
     (case failure of
        Some err \<Rightarrow> if backPressure then Some (ConsumerFailed err) else None
      | None \<Rightarrow> (case ending of EOF \<Rightarrow> None | RecvFailed io \<Rightarrow> Some (StreamFailed ending)))"

lemma lastSent_snoc: "lastSent (xs @ [x]) = (if x \<noteq> None then x else lastSent xs)"
  by (simp add: lastSent_def)

lemma streamData_step:
  "streamData (pre @ recv # rest) (length pre) =
     \<lparr>td_Node = (if Node recv \<noteq> None then Node recv else lastSent (map Node pre)),
      td_Resource = (if Resource recv \<noteq> None then Resource recv else lastSent (map Resource pre)),
      td_Spans = Spans recv, td_SourceFormat = ''oc_trace''\<rparr>"
  by (simp add: streamData_def lastSent_snoc)

lemma exportLoop_spec:
  "exportLoop ocr (lastSent (map Node pre)) (lastSent (map Resource pre)) recv rest ending st =
     (case sendAll ocr (map (streamData (pre @ recv # rest)) [length pre ..< Suc (length pre + length rest)]) st of
        (failure, st1) \<Rightarrow> (streamEnd (backPressureOn ocr) failure ending, st1))"
proof (induction rest arbitrary: pre recv st)
  case Nil
  show ?case
    by (simp add: exportLoop.simps processReceivedMsg_def streamData_step streamEnd_def Let_def
        split: option.splits prod.splits recvError.splits)
next
  case (Cons m ms)
  let ?td = "streamData (pre @ recv # m # ms) (length pre)"
  have upt: "[length pre ..< Suc (length pre + length (m # ms))] =
      length pre # [length (pre @ [recv]) ..< Suc (length (pre @ [recv]) + length ms)]"
    by (simp add: upt_conv_Cons del: upt_Suc)
  obtain err st1 where send: "sendToNextConsumer ocr receiverBiDirectionalTagValue (Some ?td) st = (err, st1)"
    by (rule prod.exhaust)
  then have recv: "processReceivedMsg ocr receiverBiDirectionalTagValue (lastSent (map Node pre))
      (lastSent (map Resource pre)) recv st =
      (lastSent (map Node (pre @ [recv])), lastSent (map Resource (pre @ [recv])), err, st1)"
    by (simp add: processReceivedMsg_def streamData_step lastSent_snoc Let_def)
  show ?case
  proof (cases err)
    case (Some e)
    with send recv show ?thesis
      unfolding upt list.map sendAll.simps
      by (simp add: exportLoop.simps [of _ _ _ _ "m # ms"] streamEnd_def)
  next
    case None
    with send recv Cons.IH [of "pre @ [recv]" m st1] show ?thesis
      unfolding upt list.map sendAll.simps
      by (simp add: exportLoop.simps [of _ _ _ _ "m # ms"] del: upt_Suc)
  qed
qed

text \<open>The count of streams is not looked at inside a stream.\<close>

lemma sendAll_count: "sendAll (ocr\<lparr>serverStreamsCount := n\<rparr>) tds st = sendAll ocr tds st"
  by (induction tds arbitrary: st) (simp_all add: sendToNextConsumer_def split: option.splits prod.splits)

definition streamOutcome ::
  "('n, 'r, 's, 'w, 'e) Receiver \<Rightarrow> ('n, 'r, 's) ExportTraceServiceRequest list \<Rightarrow> 'io recvError \<Rightarrow>
     'w \<times> traceMetric list \<Rightarrow> ('e, 'io) traceError option \<times> 'w \<times> traceMetric list" where
  "streamOutcome ocr msgs ending st =
     (case sendAll ocr (map (streamData msgs) [0 ..< length msgs]) st of
        (failure, st1) \<Rightarrow> (streamEnd (backPressureOn ocr) failure ending, st1))"

lemma exportStream_spec:
  assumes "msgs \<noteq> []" and "Node (hd msgs) \<noteq> None"
  shows "exportStream ocr msgs ending st = streamOutcome ocr msgs ending st"
proof -
  from assms obtain recv rest where msgs: "msgs = recv # rest" "Node recv \<noteq> None" by (cases msgs) auto
  from exportLoop_spec [of ocr "[]" recv rest ending st]
  have "exportLoop ocr None None recv rest ending st = streamOutcome ocr msgs ending st"
    by (simp add: streamOutcome_def lastSent_def msgs(1))
  with msgs show ?thesis by (auto simp: exportStream_def)
qed

lemma lastSent_some: "x \<in> set xs \<Longrightarrow> x \<noteq> None \<Longrightarrow> lastSent xs \<noteq> None"
  by (induction xs rule: rev_induct) (auto simp: lastSent_snoc)

lemma streamData_node:
  assumes "Node (hd msgs) \<noteq> None" and "i < length msgs"
  shows "td_Node (streamData msgs i) \<noteq> None"
proof -
  from assms(2) have "Node (hd msgs) \<in> set (map Node (take (Suc i) msgs))"
    by (cases msgs) simp_all
  from lastSent_some [OF this assms(1)] show ?thesis by (simp add: streamData_def)
qed

text \<open>Measurements: one for each batch, all received but the one that failed.\<close>

lemma sendAll_metrics:
  assumes "sendAll ocr tds (w, log) = (failure, w1, log1)"
  shows "\<exists>k \<le> length tds. log1 = log @
      map (\<lambda>td. (receiverBiDirectionalTagValue, length (td_Spans td), 0)) (take k tds) @
      (if failure = None then [] else [(receiverBiDirectionalTagValue, 0, length (td_Spans (tds ! k)))]) \<and>
    (if failure = None then k = length tds else k < length tds)"
  using assms
proof (induction tds arbitrary: w log)
  case Nil
  then show ?case by auto
next
  case (Cons td tds)
  let ?tag = receiverBiDirectionalTagValue
  obtain err w2 log2 where send: "sendToNextConsumer ocr ?tag (Some td) (w, log) = (err, w2, log2)"
    by (rule prod_cases3)
  then have log2: "log2 = log @ [if err = None then (?tag, length (td_Spans td), 0) else (?tag, 0, length (td_Spans td))]"
    by (auto simp: sendToNextConsumer_def split: if_splits option.splits prod.splits)
  show ?case
  proof (cases err)
    case (Some e)
    with Cons.prems send log2 show ?thesis by (intro exI [of _ 0]) auto
  next
    case None
    with Cons.prems send have "sendAll ocr tds (w2, log2) = (failure, w1, log1)" by simp
    from Cons.IH [OF this] obtain k where "k \<le> length tds" "log1 = log2 @
        map (\<lambda>td. (?tag, length (td_Spans td), 0)) (take k tds) @
        (if failure = None then [] else [(?tag, 0, length (td_Spans (tds ! k)))])"
      "if failure = None then k = length tds else k < length tds" by blast
    with None log2 show ?thesis by (intro exI [of _ "Suc k"]) auto
  qed
qed

section \<open>Properties\<close>

text \<open>
  C31: \<open>Export\<close> computes what its stream means, whatever the consumer does. Beyond the limit a
  stream is refused, a stream whose first message has no node is a protocol violation, and
  neither reaches the consumer. Otherwise the consumer gets, in order and up to its first
  error, each message that has spans, under the last node and the last resource sent up to it;
  the result is that error, hidden without back pressure, or the error that ended the stream,
  where the end of the stream is success. The count of streams is given back on every way out,
  and no batch reaches the consumer without a node.
\<close>

theorem Export_correct:
  "Export ocr msgs ending st =
     (ocr,
      if maxServerStreams ocr > 0 \<and> serverStreamsCount ocr \<ge> maxServerStreams ocr
      then (Some (ResourceExhausted (maxServerStreams ocr)), st)
      else if msgs = [] then (Some (StreamFailed ending), st)
      else if Node (hd msgs) = None then (Some ProtocolViolation, st)
      else streamOutcome ocr msgs ending st) \<and>
   (\<forall>i < length msgs. Node (hd msgs) \<noteq> None \<longrightarrow> td_Node (streamData msgs i) \<noteq> None)"
proof (intro conjI allI impI)
  have body: "exportStream ocr' msgs ending st =
      (if msgs = [] then (Some (StreamFailed ending), st)
       else if Node (hd msgs) = None then (Some ProtocolViolation, st)
       else streamOutcome ocr' msgs ending st)" for ocr' :: "('a, 'b, 'c, 'd, 'e) Receiver"
    using exportStream_spec [of msgs ocr' ending st] by (cases msgs) (auto simp: exportStream_def)
  have "streamOutcome (ocr\<lparr>serverStreamsCount := n\<rparr>) msgs ending st = streamOutcome ocr msgs ending st" for n
    by (simp add: streamOutcome_def sendAll_count)
  moreover have "ocr\<lparr>serverStreamsCount := serverStreamsCount ocr\<rparr> = ocr" by simp
  ultimately show "Export ocr msgs ending st =
     (ocr,
      if maxServerStreams ocr > 0 \<and> serverStreamsCount ocr \<ge> maxServerStreams ocr
      then (Some (ResourceExhausted (maxServerStreams ocr)), st)
      else if msgs = [] then (Some (StreamFailed ending), st)
      else if Node (hd msgs) = None then (Some ProtocolViolation, st)
      else streamOutcome ocr msgs ending st)"
    by (simp add: Export_def enterStream_def leaveStream_def body Let_def)
next
  fix i assume "i < length msgs" "Node (hd msgs) \<noteq> None"
  then show "td_Node (streamData msgs i) \<noteq> None" by (intro streamData_node)
qed

text \<open>A stream of three messages; the second brings no node and the consumer fails on the third.\<close>

definition sampleStream :: "(nat, nat, nat) ExportTraceServiceRequest list" where
  "sampleStream =
     [\<lparr>Node = Some 1, Resource = None, Spans = [10]\<rparr>, \<lparr>Node = None, Resource = Some 5, Spans = [20]\<rparr>,
      \<lparr>Node = Some 2, Resource = None, Spans = [30, 31]\<rparr>]"

definition sampleReceiver :: "(nat, nat, nat, (nat, nat, nat) TraceData list, string) Receiver" where
  "sampleReceiver =
     \<lparr>backPressureOn = True, maxServerStreams = 1,
      nextConsumer = (\<lambda>td w. (if length (td_Spans td) = 2 then Some ''full'' else None, w @ [td])),
      serverStreamsCount = 0\<rparr>"

theorem Export_correct_witness:
  "\<exists>w log. Export sampleReceiver sampleStream (EOF :: string recvError) ([], []) = (sampleReceiver, Some (ConsumerFailed ''full''), w, log) \<and>
     map td_Node w = [Some 1, Some 1, Some 2] \<and> map td_Resource w = [None, Some 5, Some 5] \<and>
     log = [(''oc_trace'', 1, 0), (''oc_trace'', 1, 0), (''oc_trace'', 0, 2)]"
proof -
  let ?w = "map (streamData sampleStream) [0, 1, 2]"
  let ?log = "[(''oc_trace'', 1, 0), (''oc_trace'', 1, 0), (''oc_trace'', 0, 2)]"
  have facts: "serverStreamsCount sampleReceiver = 0" "maxServerStreams sampleReceiver = 1"
    "sampleStream \<noteq> []" "Node (hd sampleStream) = Some 1"
    by (simp_all add: sampleReceiver_def sampleStream_def)
  have out: "streamOutcome sampleReceiver sampleStream (EOF :: string recvError) ([], []) = (Some (ConsumerFailed ''full''), ?w,
      [(''oc_trace'', 1, 0), (''oc_trace'', 1, 0), (''oc_trace'', 0, 2)])"
    by (simp add: sampleReceiver_def sampleStream_def streamOutcome_def streamData_def lastSent_def
        sendToNextConsumer_def streamEnd_def receiverBiDirectionalTagValue_def upt_rec)
  from conjunct1 [OF Export_correct [of sampleReceiver sampleStream "EOF :: string recvError" "([], [])"]]
  have "Export sampleReceiver sampleStream (EOF :: string recvError) ([], []) = (sampleReceiver, Some (ConsumerFailed ''full''), ?w,
      [(''oc_trace'', 1, 0), (''oc_trace'', 1, 0), (''oc_trace'', 0, 2)])"
    by (simp add: facts out del: One_nat_def)
  moreover have "map td_Node ?w = [Some 1, Some 1, Some 2]" "map td_Resource ?w = [None, Some 5, Some 5]"
    by (simp_all add: streamData_def sampleStream_def lastSent_def)
  ultimately show ?thesis by (intro exI [of _ ?w] exI [of _ ?log] conjI refl)
qed

text \<open>
  C32: the limit on concurrent streams holds under every interleaving of the atomic steps of
  \<open>Export\<close>: the count is the number of calls in progress, never more than the limit are being
  served, and a call that comes while fewer than the limit are in progress is served.
\<close>

theorem streams_limited:
  assumes "0 < limit" and "(stream_step limit)\<^sup>*\<^sup>* \<lparr>st_count = 0, st_calls = []\<rparr> s"
  shows "st_count s = int (length (st_calls s)) \<and>
    int (length (filter (\<lambda>call. call = Serving) (st_calls s))) \<le> limit \<and>
    (int (length (st_calls s)) < limit \<longrightarrow>
       (\<exists>t u. stream_exec limit EnterCall s = Some t \<and>
          stream_exec limit (DecideCall (length (st_calls s))) t = Some u \<and>
          st_calls u = st_calls s @ [Serving]))"
proof -
  have "noStreams limit \<lparr>st_count = 0, st_calls = []\<rparr>" using assms(1) by (simp add: noStreams_def)
  from streams_inv.reachable_inv [OF this assms(2)]
  have inv: "st_count s = int (length (st_calls s))" "admittedCalls limit s \<le> limit"
    by (simp_all add: streams_inv_def)
  have "length (filter (\<lambda>call. call = Serving) cs) \<le> length (filter (admitted limit) cs)" for cs
    by (induction cs) auto
  then have "int (length (filter (\<lambda>call. call = Serving) (st_calls s))) \<le> admittedCalls limit s"
    by (simp add: admittedCalls_def)
  with inv show ?thesis by auto
qed

theorem streams_limited_witness:
  "\<exists>s. stream_run 1 [EnterCall, EnterCall, DecideCall 1, DecideCall 0] \<lparr>st_count = 0, st_calls = []\<rparr> = Some s \<and>
     st_calls s = [Serving, Refusing] \<and> st_count s = 2"
proof -
  let ?s = "\<lparr>st_count = 2, st_calls = [Serving, Refusing]\<rparr>"
  have run: "stream_run 1 [EnterCall, EnterCall, DecideCall 1, DecideCall 0] \<lparr>st_count = 0, st_calls = []\<rparr> = Some ?s"
    by simp
  from streams_limited [OF _ stream_run_reachable [OF run]] run show ?thesis by simp
qed

end
