(* ===== verification/Pipeline.thy ===== *)
theory Pipeline
  imports Exporter OCTrace
begin

text \<open>
  The collector's main path put together: the OpenCensus trace receiver whose next consumer is the
  OmniShard exporter. Any number of streams is open at a time; a stream takes one message after
  the other, and between two messages the exporter's goroutines, the other streams and unary
  calls run.

  In the code a stream waits while the encoder's queue is full. Here it may take its next message
  already, which only adds behaviours.
\<close>

section \<open>One stream, message by message\<close>

datatype ('n, 'r, 'e, 'io) streamPhase =
    AwaitFirst
  | Receiving "'n option" "'r option"
  | StreamEnded "('e, 'io) traceError option"

definition handleMsg ::
  "('n, 'r, 's, 'w, 'e) Receiver \<Rightarrow> 'n option \<Rightarrow> 'r option \<Rightarrow> ('n, 'r, 's) ExportTraceServiceRequest \<Rightarrow>
     'w \<times> traceMetric list \<Rightarrow> ('n, 'r, 'e, 'io) streamPhase \<times> 'w \<times> traceMetric list" where
  "handleMsg ocr node res recv st =
     (case processReceivedMsg ocr receiverBiDirectionalTagValue node res recv st of
        (node1, res1, Some err, st1) \<Rightarrow>
          (StreamEnded (if backPressureOn ocr then Some (ConsumerFailed err) else None), st1)
      | (node1, res1, None, st1) \<Rightarrow> (Receiving node1 res1, st1))"

fun stream_recv ::
  "('n, 'r, 's, 'w, 'e) Receiver \<Rightarrow> ('n, 'r, 'e, 'io) streamPhase \<Rightarrow> ('n, 'r, 's) ExportTraceServiceRequest \<Rightarrow>
     'w \<times> traceMetric list \<Rightarrow> ('n, 'r, 'e, 'io) streamPhase \<times> 'w \<times> traceMetric list" where
  "stream_recv ocr AwaitFirst recv st =
     (if Node recv = None then (StreamEnded (Some ProtocolViolation), st) else handleMsg ocr None None recv st)"
| "stream_recv ocr (Receiving node res) recv st = handleMsg ocr node res recv st"
| "stream_recv ocr (StreamEnded err) recv st = (StreamEnded err, st)"

fun stream_close :: "('n, 'r, 'e, 'io) streamPhase \<Rightarrow> 'io recvError \<Rightarrow> ('n, 'r, 'e, 'io) streamPhase" where
  "stream_close AwaitFirst ending = StreamEnded (Some (StreamFailed ending))"
| "stream_close (Receiving node res) ending =
     StreamEnded (case ending of EOF \<Rightarrow> None | RecvFailed io \<Rightarrow> Some (StreamFailed ending))"
| "stream_close (StreamEnded err) ending = StreamEnded err"

text \<open>Message by message, a stream does what \<open>exportStream\<close> does with all its messages.\<close>

fun stream_recvs ::
  "('n, 'r, 's, 'w, 'e) Receiver \<Rightarrow> ('n, 'r, 'e, 'io) streamPhase \<Rightarrow> ('n, 'r, 's) ExportTraceServiceRequest list \<Rightarrow>
     'w \<times> traceMetric list \<Rightarrow> ('n, 'r, 'e, 'io) streamPhase \<times> 'w \<times> traceMetric list" where
  "stream_recvs ocr ph [] st = (ph, st)"
| "stream_recvs ocr ph (recv # msgs) st =
     (case stream_recv ocr ph recv st of (ph1, st1) \<Rightarrow> stream_recvs ocr ph1 msgs st1)"

lemma stream_recvs_ended: "stream_recvs ocr (StreamEnded err) msgs st = (StreamEnded err, st)"
  by (induction msgs) simp_all

lemma handleMsg_exportLoop:
  "(case handleMsg ocr node res recv st of
      (ph, st1) \<Rightarrow> (case stream_recvs ocr ph rest st1 of (ph2, st2) \<Rightarrow> (stream_close ph2 ending, st2))) =
   (case exportLoop ocr node res recv rest ending st of (err, st1) \<Rightarrow> (StreamEnded err, st1))"
proof (induction rest arbitrary: node res recv st)
  case Nil
  show ?case
    by (auto simp: handleMsg_def exportLoop.simps split: prod.splits option.splits recvError.splits)
next
  case (Cons m ms)
  obtain node1 res1 err st1 where p: "processReceivedMsg ocr receiverBiDirectionalTagValue node res recv st = (node1, res1, err, st1)"
    by (rule prod_cases4)
  show ?case
  proof (cases err)
    case None
    with p Cons.IH [where node = node1 and res = res1 and recv = m and st = st1] show ?thesis
      by (simp add: handleMsg_def exportLoop.simps [of _ _ _ _ "m # ms"] split: prod.split_asm prod.split)
  next
    case (Some e)
    with p show ?thesis
      by (simp add: handleMsg_def exportLoop.simps [of _ _ _ _ "m # ms"] stream_recvs_ended)
  qed
qed

lemma stream_messages_exportStream:
  "(case stream_recvs ocr AwaitFirst msgs st of (ph, st1) \<Rightarrow> (stream_close ph ending, st1)) =
   (case exportStream ocr msgs ending st of (err, st1) \<Rightarrow> (StreamEnded err, st1))"
proof (cases msgs)
  case (Cons recv rest)
  with handleMsg_exportLoop [where ocr = ocr and node = None and res = None and recv = recv and rest = rest and st = st and ending = ending] show ?thesis
    by (auto simp: exportStream_def stream_recvs_ended split: prod.splits)
qed (simp add: exportStream_def)

section \<open>Streams into the exporter\<close>

text \<open>The exporter as the next consumer; any result but \<open>Accepted\<close> is an error.\<close>

definition exporterConsumer ::
  "(('n, 'r, 's) TraceData \<Rightarrow> (Process option \<times> Span list) option) \<Rightarrow> codec \<Rightarrow>
     ('n, 'r, 's, exporter, consumeResult) traceConsumer" where
  "exporterConsumer translate c td e =
     (case ConsumeTraceData translate c td e of
        (e1, result) \<Rightarrow> (if result = Accepted then None else Some result, e1))"

text \<open>What a message is handed over as.\<close>

fun handed ::
  "('n, 'r, 'e, 'io) streamPhase \<Rightarrow> ('n, 'r, 's) ExportTraceServiceRequest \<Rightarrow> ('n, 'r, 's) TraceData option" where
  "handed AwaitFirst recv =
     (if Node recv = None \<or> Spans recv = [] then None
      else Some \<lparr>td_Node = Node recv, td_Resource = Resource recv, td_Spans = Spans recv,
                 td_SourceFormat = ''oc_trace''\<rparr>)"
| "handed (Receiving node res) recv =
     (if Spans recv = [] then None
      else Some \<lparr>td_Node = (if Node recv \<noteq> None then Node recv else node),
                 td_Resource = (if Resource recv \<noteq> None then Resource recv else res),
                 td_Spans = Spans recv, td_SourceFormat = ''oc_trace''\<rparr>)"
| "handed (StreamEnded err) recv = None"

text \<open>
  A stream with the messages it has received. The batches the exporter has accepted and
  refused and the unary calls with their answers, newest first, are history.
\<close>

record ('n, 'r, 's, 'io) openStream =
  sm_phase :: "('n, 'r, consumeResult, 'io) streamPhase"
  sm_msgs :: "('n, 'r, 's) ExportTraceServiceRequest list"

record ('n, 'r, 's, 'io) pipeline =
  pl_ex :: exporter
  pl_streams :: "('n, 'r, 's, 'io) openStream list"
  pl_log :: "traceMetric list"
  pl_accepted :: "('n, 'r, 's) TraceData list"
  pl_refused :: "('n, 'r, 's) TraceData list"
  pl_calls :: "(('n, 'r, 's) ExportTraceServiceRequest \<times> (consumeResult, 'io) traceError option) list"

datatype ('n, 'r, 's, 'io) pipelineAction =
    POpen
  | PMessage nat "('n, 'r, 's) ExportTraceServiceRequest"
  | PClose nat "'io recvError"
  | PUnary "('n, 'r, 's) ExportTraceServiceRequest"
  | PExporter exporterAction

fun isReceiving :: "('n, 'r, 'e, 'io) streamPhase \<Rightarrow> bool" where
  "isReceiving (Receiving node res) = True"
| "isReceiving _ = False"

fun isOpen :: "('n, 'r, 'e, 'io) streamPhase \<Rightarrow> bool" where
  "isOpen (StreamEnded err) = False"
| "isOpen _ = True"

definition pipeline_message ::
  "('n, 'r, 's, exporter, consumeResult) Receiver \<Rightarrow> nat \<Rightarrow> ('n, 'r, 's) ExportTraceServiceRequest \<Rightarrow>
     ('n, 'r, 's, 'io) pipeline \<Rightarrow> ('n, 'r, 's, 'io) pipeline" where
  "pipeline_message ocr i recv s =
     (case stream_recv ocr (sm_phase (pl_streams s ! i)) recv (pl_ex s, pl_log s) of
        (ph, e, log) \<Rightarrow>
          let new = (case handed (sm_phase (pl_streams s ! i)) recv of None \<Rightarrow> [] | Some td \<Rightarrow> [td])
          in s\<lparr>pl_ex := e, pl_log := log,
               pl_streams := (pl_streams s)[i := \<lparr>sm_phase = ph, sm_msgs = sm_msgs (pl_streams s ! i) @ [recv]\<rparr>],
               pl_accepted := (if isReceiving ph then new else []) @ pl_accepted s,
               pl_refused := (if isReceiving ph then [] else new) @ pl_refused s\<rparr>)"

definition pipeline_unary ::
  "('n, 'r, 's, exporter, consumeResult) Receiver \<Rightarrow> ('n, 'r, 's) ExportTraceServiceRequest \<Rightarrow>
     ('n, 'r, 's, 'io) pipeline \<Rightarrow> ('n, 'r, 's, 'io) pipeline" where
  "pipeline_unary ocr req s =
     (case ExportOne ocr req (pl_ex s, pl_log s) of
        (err, e, log) \<Rightarrow>
          let new = (case handed (AwaitFirst :: ('n, 'r, consumeResult, 'io) streamPhase) req of None \<Rightarrow> [] | Some td \<Rightarrow> [td]);
              ok = list_all (\<lambda>td. fst (nextConsumer ocr td (pl_ex s)) = None) new
          in s\<lparr>pl_ex := e, pl_log := log, pl_calls := (req, err) # pl_calls s,
               pl_accepted := (if ok then new else []) @ pl_accepted s,
               pl_refused := (if ok then [] else new) @ pl_refused s\<rparr>)"

fun pipeline_exec ::
  "('n, 'r, 's, exporter, consumeResult) Receiver \<Rightarrow> codec \<Rightarrow> ('n, 'r, 's, 'io) pipelineAction \<Rightarrow>
     ('n, 'r, 's, 'io) pipeline \<Rightarrow> ('n, 'r, 's, 'io) pipeline option" where
  "pipeline_exec ocr c POpen s =
     Some (s\<lparr>pl_streams := pl_streams s @ [\<lparr>sm_phase = AwaitFirst, sm_msgs = []\<rparr>]\<rparr>)"
| "pipeline_exec ocr c (PMessage i recv) s =
     (if i < length (pl_streams s) \<and> isOpen (sm_phase (pl_streams s ! i))
      then Some (pipeline_message ocr i recv s) else None)"
| "pipeline_exec ocr c (PClose i ending) s =
     (if i < length (pl_streams s)
      then Some (s\<lparr>pl_streams := (pl_streams s)[i := (pl_streams s ! i)
                     \<lparr>sm_phase := stream_close (sm_phase (pl_streams s ! i)) ending\<rparr>]\<rparr>)
      else None)"
| "pipeline_exec ocr c (PUnary req) s = Some (pipeline_unary ocr req s)"
| "pipeline_exec ocr c (PExporter a) s =
     (if isConsume a then None
      else (case exporter_exec c a (pl_ex s) of None \<Rightarrow> None | Some e \<Rightarrow> Some (s\<lparr>pl_ex := e\<rparr>)))"

inductive pipeline_step ::
  "('n, 'r, 's, exporter, consumeResult) Receiver \<Rightarrow> codec \<Rightarrow> ('n, 'r, 's, 'io) pipeline \<Rightarrow>
     ('n, 'r, 's, 'io) pipeline \<Rightarrow> bool" for ocr c where
  act: "pipeline_exec ocr c a s = Some t \<Longrightarrow> pipeline_step ocr c s t"

inductive_cases pipeline_stepE: "pipeline_step ocr c s t"

definition pipeline_start :: "exporter \<Rightarrow> ('n, 'r, 's, 'io) pipeline" where
  "pipeline_start e = \<lparr>pl_ex = e, pl_streams = [], pl_log = [], pl_accepted = [], pl_refused = [],
     pl_calls = []\<rparr>"

section \<open>The exporter's part\<close>

text \<open>Only \<open>ConsumeTraceData\<close> adds to what is consumed, and a stopping encoder stays so.\<close>

lemma exec_consumed:
  assumes "exporter_exec c a e = Some e'" and "\<not> isConsume a"
  shows "ex_consumed e' = ex_consumed e"
  using assms(1)
  by (cases rule: exporter_exec_cases)
    (use assms(2) in \<open>auto simp: handleEvents_frame handleClientEvents_keys simp del: enc_exec.simps\<close>)

lemma worker_step_stopping:
  "worker_step c e w = Some (e', w', evs) \<Longrightarrow> en_isStoppingFlag e' = en_isStoppingFlag e"
  by (erule worker_step_cases)
    (auto simp: dequeueSpans_def wgDone_def split: option.splits if_splits)

lemma config_step_stopping:
  "config_step e g = Some (e', g', fs, ws, evs) \<Longrightarrow> en_isStoppingFlag e' = en_isStoppingFlag e"
  by (erule config_step.elims)
    (auto simp: takeConfigRequest_def applyConfig_def startShardEncoders_def setShardEncoder_def Let_def
      split: option.splits prod.splits sum.splits if_splits)

lemma stop_step_stopping:
  "stop_step e st = Some (e', st', evs) \<Longrightarrow> en_isStoppingFlag e \<Longrightarrow> en_isStoppingFlag e'"
  by (erule stop_step.elims)
    (auto simp: beginStop_def stopConfigChanges_def closeHardStop_def setShardEncoder_def Let_def
      split: sum.splits if_splits)

lemma stop_flush_stopping:
  "stop_flush c a e st = Some (e', st', evs) \<Longrightarrow> en_isStoppingFlag e' = en_isStoppingFlag e"
  by (erule stop_flush.elims) (auto simp: setShardEncoder_def split: prod.splits if_splits)

lemma enc_step_stopping:
  assumes "enc_step c s t" and "isStopping (es_enc s)"
  shows "isStopping (es_enc t)"
proof -
  from assms(1) obtain a where "enc_exec c a s = Some t" by (auto elim: enc_stepE)
  then show ?thesis
    using assms(2)
    by (cases rule: enc_exec_cases)
      (auto simp: isStopping_def wgAdd_def enqueueSpans_def SetConfig_def setShardEncoder_def emit_def
        worker_step_stopping config_step_stopping stop_step_stopping stop_flush_stopping split: option.splits)
qed

lemma enc_steps_stopping: "(enc_step c)\<^sup>*\<^sup>* s t \<Longrightarrow> isStopping (es_enc s) \<Longrightarrow> isStopping (es_enc t)"
  by (induction rule: rtranclp_induct) (auto intro: enc_step_stopping)

text \<open>The spans a batch becomes.\<close>

definition jaegerSpans ::
  "(('n, 'r, 's) TraceData \<Rightarrow> (Process option \<times> Span list) option) \<Rightarrow> ('n, 'r, 's) TraceData \<Rightarrow> Span list" where
  "jaegerSpans translate td =
     (case translate td of None \<Rightarrow> [] | Some (proc, spans) \<Rightarrow> fillProcess proc spans)"

lemma consumer_accepts:
  assumes "exporterConsumer translate c td e = (None, e')"
  shows "exporter_step c e e' \<and> ex_consumed e' = jaegerSpans translate td @ ex_consumed e"
proof -
  from assms have accepted: "ConsumeTraceData translate c td e = (e', Accepted)"
    by (auto simp: exporterConsumer_def split: prod.splits if_splits)
  then obtain proc spans enc where t: "translate td = Some (proc, spans)"
    and e': "e' = e\<lparr>ex_enc := enc, ex_consumed := fillProcess proc spans @ ex_consumed e\<rparr>"
    by (auto simp: ConsumeTraceData_def Let_def simp del: enc_exec.simps split: option.splits)
  from accepted have "exporter_exec c (XConsume (translate td)) e = Some e'"
    by (simp add: ConsumeTraceData_def del: enc_exec.simps)
  from exporter_step.act [OF this] t e' show ?thesis by (simp add: jaegerSpans_def)
qed

lemma consumer_refuses:
  assumes "exporterConsumer translate c td e = (Some err, e')"
  shows "e' = e \<and> (translate td = None \<or> isStopping (es_enc (ex_enc e)))"
  using assms
  by (auto simp: exporterConsumer_def ConsumeTraceData_def Let_def split: option.splits if_splits prod.splits)

section \<open>The invariant\<close>

definition allAccepted ::
  "('n, 'r, 's) TraceData list \<Rightarrow> ('n, 'r, 's) ExportTraceServiceRequest list \<Rightarrow> bool" where
  "allAccepted accepted msgs \<longleftrightarrow>
     (\<forall>j < length msgs. Spans (msgs ! j) \<noteq> [] \<longrightarrow> streamData msgs j \<in> set accepted)"

fun streamOk ::
  "bool \<Rightarrow> ('n, 'r, 's) TraceData list \<Rightarrow> ('n, 'r, consumeResult, 'io) streamPhase \<Rightarrow>
     ('n, 'r, 's) ExportTraceServiceRequest list \<Rightarrow> bool" where
  "streamOk bp accepted AwaitFirst msgs \<longleftrightarrow> msgs = []"
| "streamOk bp accepted (Receiving node res) msgs \<longleftrightarrow>
     node = lastSent (map Node msgs) \<and> res = lastSent (map Resource msgs) \<and> allAccepted accepted msgs"
| "streamOk bp accepted (StreamEnded None) msgs \<longleftrightarrow> (bp \<longrightarrow> allAccepted accepted msgs)"
| "streamOk bp accepted (StreamEnded (Some err)) msgs \<longleftrightarrow> True"

text \<open>A call that was answered without an error under back pressure had its batch accepted.\<close>

definition callsOk ::
  "bool \<Rightarrow> ('n, 'r, 's) TraceData list \<Rightarrow>
     (('n, 'r, 's) ExportTraceServiceRequest \<times> (consumeResult, 'io) traceError option) list \<Rightarrow> bool" where
  "callsOk bp accepted calls \<longleftrightarrow>
     (\<forall>(req, err) \<in> set calls. bp \<and> err = None \<and> Spans req \<noteq> [] \<longrightarrow> streamData [req] 0 \<in> set accepted)"

lemma callsOk_mono: "callsOk bp accepted calls \<Longrightarrow> callsOk bp (new @ accepted) calls"
  by (auto simp: callsOk_def)

lemma callsOk_Cons:
  "callsOk bp accepted calls \<Longrightarrow>
   (bp \<Longrightarrow> err = None \<Longrightarrow> Spans req \<noteq> [] \<Longrightarrow> streamData [req] 0 \<in> set accepted) \<Longrightarrow>
   callsOk bp accepted ((req, err) # calls)"
  by (auto simp: callsOk_def)

lemma allAccepted_mono: "allAccepted accepted msgs \<Longrightarrow> allAccepted (new @ accepted) msgs"
  by (auto simp: allAccepted_def)

lemma streamOk_mono: "streamOk bp accepted ph msgs \<Longrightarrow> streamOk bp (new @ accepted) ph msgs"
  by (cases "(bp, accepted, ph, msgs)" rule: streamOk.cases) (auto simp: allAccepted_mono)

lemma streamOk_close: "streamOk bp accepted ph msgs \<Longrightarrow> streamOk bp accepted (stream_close ph ending) msgs"
  by (cases "(bp, accepted, ph, msgs)" rule: streamOk.cases) (auto split: recvError.split)

lemma allAccepted_snoc:
  assumes "allAccepted accepted msgs"
    and "Spans recv \<noteq> [] \<Longrightarrow> streamData (msgs @ [recv]) (length msgs) \<in> set accepted"
  shows "allAccepted accepted (msgs @ [recv])"
proof -
  have "streamData (msgs @ [recv]) j = streamData msgs j" if "j < length msgs" for j
    using that by (simp add: streamData_def nth_append)
  with assms show ?thesis by (auto simp: allAccepted_def less_Suc_eq nth_append)
qed

lemma handed_streamData:
  assumes "streamOk bp accepted ph msgs" and "isOpen ph"
  shows "handed ph recv = None \<Longrightarrow> Spans recv = [] \<or> (ph = AwaitFirst \<and> Node recv = None)"
    and "handed ph recv = Some td \<Longrightarrow>
      Spans recv \<noteq> [] \<and> td = streamData (msgs @ [recv]) (length msgs)"
  using assms streamData_step [of msgs recv "[]"]
  by (cases ph; auto simp: lastSent_def split: if_splits)+

lemma handed_spans: "handed ph recv = Some td \<Longrightarrow> td_Spans td = Spans recv"
  by (cases ph) (auto split: if_splits)

definition loggedReceived :: "traceMetric list \<Rightarrow> nat" where
  "loggedReceived log = (\<Sum>(tag, received, dropped)\<leftarrow>log. received)"

definition loggedDropped :: "traceMetric list \<Rightarrow> nat" where
  "loggedDropped log = (\<Sum>(tag, received, dropped)\<leftarrow>log. dropped)"

text \<open>What the exporter does with the data of a message, and what is measured.\<close>

lemma sent_effect:
  assumes "nextConsumer ocr = exporterConsumer translate c"
    and "sendToNextConsumer ocr tag (Some td) (e, log) = (err, e', log')"
  obtains (empty) "td_Spans td = []" "err = None" "e' = e" "loggedReceived log' = loggedReceived log"
      "loggedDropped log' = loggedDropped log"
  | (accepts) "td_Spans td \<noteq> []" "err = None" "fst (nextConsumer ocr td e) = None" "exporter_step c e e'"
      "ex_consumed e' = jaegerSpans translate td @ ex_consumed e"
      "loggedReceived log' = loggedReceived log + length (td_Spans td)" "loggedDropped log' = loggedDropped log"
  | (refuses) er where "td_Spans td \<noteq> []" "err = Some er" "fst (nextConsumer ocr td e) \<noteq> None" "e' = e"
      "translate td = None \<or> isStopping (es_enc (ex_enc e))" "loggedReceived log' = loggedReceived log"
      "loggedDropped log' = loggedDropped log + length (td_Spans td)"
proof (cases "td_Spans td = []")
  case True
  with assms(2) empty show thesis
    by (auto simp: sendToNextConsumer_def loggedReceived_def loggedDropped_def)
next
  case False
  obtain r e1 where consumer: "exporterConsumer translate c td e = (r, e1)" by (rule prod.exhaust)
  show thesis
  proof (cases r)
    case None
    with assms consumer False have "err = None" "e' = e1" "log' = log @ [(tag, length (td_Spans td), 0)]"
      by (auto simp: sendToNextConsumer_def)
    with accepts False consumer_accepts [OF consumer [unfolded None]] assms(1) consumer None show thesis
      by (simp add: loggedReceived_def loggedDropped_def)
  next
    case (Some er)
    with assms consumer False have "err = Some er" "e' = e1" "log' = log @ [(tag, 0, length (td_Spans td))]"
      by (auto simp: sendToNextConsumer_def)
    with refuses False consumer_refuses [OF consumer [unfolded Some]] assms(1) consumer Some show thesis
      by (simp add: loggedReceived_def loggedDropped_def)
  qed
qed

lemma handleMsg_eq:
  "handleMsg ocr (lastSent (map Node msgs)) (lastSent (map Resource msgs)) recv s =
     (case sendToNextConsumer ocr receiverBiDirectionalTagValue (Some (streamData (msgs @ [recv]) (length msgs))) s of
        (None, s') \<Rightarrow> (Receiving (lastSent (map Node (msgs @ [recv]))) (lastSent (map Resource (msgs @ [recv]))), s')
      | (Some err, s') \<Rightarrow> (StreamEnded (if backPressureOn ocr then Some (ConsumerFailed err) else None), s'))"
  using streamData_step [of msgs recv "[]"]
  by (simp add: handleMsg_def processReceivedMsg_def lastSent_snoc Let_def split: option.split prod.split)

text \<open>What a message does to its stream, to the exporter and to the measurements.\<close>


lemma stream_recv_effect:
  assumes "stream_recv ocr ph recv (e, log) = (ph', e', log')"
    and "nextConsumer ocr = exporterConsumer translate c" and "isOpen ph"
    and "streamOk bp accepted ph msgs" and "bp = backPressureOn ocr"
  obtains (ignored) "handed ph recv = None" "e' = e" "loggedReceived log' = loggedReceived log"
      "loggedDropped log' = loggedDropped log" "streamOk bp accepted ph' (msgs @ [recv])"
  | (accepted) td where "handed ph recv = Some td" "isReceiving ph'" "exporter_step c e e'"
      "ex_consumed e' = jaegerSpans translate td @ ex_consumed e"
      "loggedReceived log' = loggedReceived log + length (td_Spans td)"
      "loggedDropped log' = loggedDropped log" "streamOk bp (td # accepted) ph' (msgs @ [recv])"
  | (refused) td where "handed ph recv = Some td" "\<not> isReceiving ph'" "e' = e"
      "translate td = None \<or> isStopping (es_enc (ex_enc e))"
      "loggedReceived log' = loggedReceived log"
      "loggedDropped log' = loggedDropped log + length (td_Spans td)"
      "streamOk bp accepted ph' (msgs @ [recv])"
proof (cases "ph = AwaitFirst \<and> Node recv = None")
  case True
  with assms(1) have none: "e' = e" "log' = log" "ph' = StreamEnded (Some ProtocolViolation)" by auto
  show thesis by (rule ignored) (use True none in simp_all)
next
  case False
  let ?td = "streamData (msgs @ [recv]) (length msgs)"
  have start: "allAccepted accepted msgs" and
    handle: "handleMsg ocr (lastSent (map Node msgs)) (lastSent (map Resource msgs)) recv (e, log) = (ph', e', log')"
    using assms(1,3,4) False by (cases ph; auto simp: allAccepted_def lastSent_def)+
  obtain err e1 log1 where sent: "sendToNextConsumer ocr receiverBiDirectionalTagValue (Some ?td) (e, log) = (err, e1, log1)"
    by (rule prod_cases3)
  from handle have eqs: "e' = e1" "log' = log1" "ph' = (case err of
      None \<Rightarrow> Receiving (lastSent (map Node (msgs @ [recv]))) (lastSent (map Resource (msgs @ [recv])))
    | Some er \<Rightarrow> StreamEnded (if bp then Some (ConsumerFailed er) else None))"
    unfolding handleMsg_eq sent assms(5) by (auto split: option.splits)
  have spans: "td_Spans ?td = Spans recv" by (simp add: streamData_def)
  have some: "handed ph recv = Some ?td" if "Spans recv \<noteq> []"
    using that False handed_streamData [OF assms(4,3), of recv] by (cases "handed ph recv") auto
  note ok = allAccepted_snoc [of _ msgs recv]
  from assms(2) sent show thesis
  proof (cases rule: sent_effect)
    case empty
    then have "handed ph recv = None"
      using spans handed_streamData(2) [OF assms(4,3), of recv] by (cases "handed ph recv") auto
    with ignored empty ok [OF start] show thesis by (simp add: eqs spans)
  next
    case accepts
    moreover have "allAccepted (?td # accepted) (msgs @ [recv])"
      using ok [of "?td # accepted"] allAccepted_mono [OF start, of "[?td]"] by simp
    ultimately show thesis using accepted some by (simp add: eqs spans)
  next
    case (refuses er)
    with refused some show thesis by (simp add: eqs spans)
  qed
qed

text \<open>What a unary call does.\<close>

lemma ExportOne_effect:
  fixes err :: "(consumeResult, 'io) traceError option"
    and req :: "('n, 'r, 's) ExportTraceServiceRequest"
  assumes "ExportOne ocr req (e, log) = (err, e', log')"
    and "nextConsumer ocr = exporterConsumer translate c"
  obtains (ignored) "handed (AwaitFirst :: ('n, 'r, consumeResult, 'io) streamPhase) req = None" "e' = e" "loggedReceived log' = loggedReceived log"
      "loggedDropped log' = loggedDropped log" "Spans req = [] \<or> err \<noteq> None"
  | (accepted) td where "handed (AwaitFirst :: ('n, 'r, consumeResult, 'io) streamPhase) req = Some td" "td = streamData [req] 0"
      "fst (nextConsumer ocr td e) = None" "exporter_step c e e'"
      "ex_consumed e' = jaegerSpans translate td @ ex_consumed e"
      "loggedReceived log' = loggedReceived log + length (td_Spans td)"
      "loggedDropped log' = loggedDropped log"
  | (refused) td where "handed (AwaitFirst :: ('n, 'r, consumeResult, 'io) streamPhase) req = Some td" "fst (nextConsumer ocr td e) \<noteq> None" "e' = e"
      "translate td = None \<or> isStopping (es_enc (ex_enc e))" "loggedReceived log' = loggedReceived log"
      "loggedDropped log' = loggedDropped log + length (td_Spans td)" "backPressureOn ocr \<longrightarrow> err \<noteq> None"
proof (cases "Node req = None")
  case True
  with ignored assms(1) show thesis
    by (auto simp: ExportOne_def processReceivedMsg_def sendToNextConsumer_def Let_def split: if_splits)
next
  case False
  let ?td = "streamData [req] 0"
  have td: "td_Spans ?td = Spans req" by (simp add: streamData_def)
  have received: "processReceivedMsg ocr receiverUnaryTagValue None None req (e, log) =
      (Node req, Resource req, sendToNextConsumer ocr receiverUnaryTagValue (Some ?td) (e, log))"
    using streamData_step [of "[]" req "[]"] by (simp add: processReceivedMsg_def lastSent_def Let_def)
  have some: "handed (AwaitFirst :: ('n, 'r, consumeResult, 'io) streamPhase) req =
      (if Spans req = [] then None else Some ?td)"
    using False streamData_step [of "[]" req "[]"] by (auto simp: lastSent_def)
  obtain er e1 log1 where sent: "sendToNextConsumer ocr receiverUnaryTagValue (Some ?td) (e, log) = (er, e1, log1)"
    by (rule prod_cases3)
  with assms(1) received False have eqs: "e' = e1" "log' = log1"
    "er \<noteq> None \<and> backPressureOn ocr \<longrightarrow> err \<noteq> None"
    by (auto simp: ExportOne_def split: option.splits if_splits)
  from assms(2) sent show thesis
  proof (cases rule: sent_effect)
    case empty
    with ignored some td show thesis by (simp add: eqs)
  next
    case accepts
    with accepted some td show thesis by (simp add: eqs)
  next
    case (refuses r)
    with refused some td eqs(3) show thesis by (simp add: eqs(1,2))
  qed
qed

text \<open>The receiver of the pipeline, without a limit on streams.\<close>

definition pipelineReceiver ::
  "bool \<Rightarrow> (('n, 'r, 's) TraceData \<Rightarrow> (Process option \<times> Span list) option) \<Rightarrow> codec \<Rightarrow>
     ('n, 'r, 's, exporter, consumeResult) Receiver" where
  "pipelineReceiver bp translate c =
     \<lparr>backPressureOn = bp, maxServerStreams = 0, nextConsumer = exporterConsumer translate c,
      serverStreamsCount = 0\<rparr>"

lemma pipelineReceiver_New:
  "New (Some (exporterConsumer translate c)) (if bp then [WithBackPressure] else []) =
   Inr (pipelineReceiver bp translate c)"
  by (simp add: New_def WithBackPressure_def pipelineReceiver_def)

definition pipeline_inv ::
  "(('n, 'r, 's) TraceData \<Rightarrow> (Process option \<times> Span list) option) \<Rightarrow> codec \<Rightarrow> bool \<Rightarrow> exporter \<Rightarrow>
     ('n, 'r, 's, 'io) pipeline \<Rightarrow> bool" where
  "pipeline_inv translate c bp e0 s \<longleftrightarrow>
     (exporter_step c)\<^sup>*\<^sup>* e0 (pl_ex s) \<and>
     ex_consumed (pl_ex s) = concat (map (jaegerSpans translate) (pl_accepted s)) \<and>
     loggedReceived (pl_log s) = (\<Sum>td\<leftarrow>pl_accepted s. length (td_Spans td)) \<and>
     loggedDropped (pl_log s) = (\<Sum>td\<leftarrow>pl_refused s. length (td_Spans td)) \<and>
     (\<forall>td \<in> set (pl_refused s). translate td = None \<or> isStopping (es_enc (ex_enc (pl_ex s)))) \<and>
     (\<forall>sm \<in> set (pl_streams s). streamOk bp (pl_accepted s) (sm_phase sm) (sm_msgs sm)) \<and>
     callsOk bp (pl_accepted s) (pl_calls s)"

definition pipeline_started :: "exporter \<Rightarrow> ('n, 'r, 's, 'io) pipeline \<Rightarrow> bool" where
  "pipeline_started e0 s \<longleftrightarrow> s = pipeline_start e0 \<and> (\<exists>name. exporter_started name e0)"

lemma exporter_step_stopping:
  assumes "exporter_started name e0" and "(exporter_step c)\<^sup>*\<^sup>* e0 e" and "exporter_step c e e'"
    and "isStopping (es_enc (ex_enc e))"
  shows "isStopping (es_enc (ex_enc e'))"
proof -
  from assms(3) obtain a where a: "exporter_exec c a e = Some e'" by (auto elim: exporter_stepE)
  from exporter_inv.reachable_inv [OF assms(1,2)]
  have "inv_shape c (ex_enc e)" "beforeConnect e" by (auto simp: exporter_inv_def enc_inv_def)
  from goodMove_exec [OF a this] show ?thesis
    using enc_steps_stopping assms(4) by (auto simp: goodMove_def)
qed

lemma streams_update:
  assumes "\<forall>sm \<in> set streams. streamOk bp acc (sm_phase sm) (sm_msgs sm)"
    and "streamOk bp (new @ acc) ph msgs"
  shows "\<forall>sm \<in> set (streams[i := \<lparr>sm_phase = ph, sm_msgs = msgs\<rparr>]).
    streamOk bp (new @ acc) (sm_phase sm) (sm_msgs sm)"
  using assms streamOk_mono [of bp acc _ _ new] by (auto dest!: set_update_subset_insert [THEN subsetD])

lemma pipeline_inv_message:
  assumes inv: "pipeline_inv translate c bp e0 s" and started: "exporter_started name e0"
    and i: "i < length (pl_streams s)" "isOpen (sm_phase (pl_streams s ! i))"
  shows "pipeline_inv translate c bp e0 (pipeline_message (pipelineReceiver bp translate c) i recv s)"
proof -
  let ?ocr = "pipelineReceiver bp translate c" and ?sm = "pl_streams s ! i"
  obtain ph e log where recv: "stream_recv ?ocr (sm_phase ?sm) recv (pl_ex s, pl_log s) = (ph, e, log)"
    by (rule prod_cases3)
  have ok: "streamOk bp (pl_accepted s) (sm_phase ?sm) (sm_msgs ?sm)"
    using inv i(1) by (simp add: pipeline_inv_def)
  have streams: "\<forall>sm \<in> set (pl_streams s). streamOk bp (pl_accepted s) (sm_phase sm) (sm_msgs sm)"
    using inv by (simp add: pipeline_inv_def)
  have ocr: "nextConsumer ?ocr = exporterConsumer translate c" "bp = backPressureOn ?ocr"
    by (simp_all add: pipelineReceiver_def)
  from recv ocr(1) i(2) ok ocr(2) show ?thesis
  proof (cases rule: stream_recv_effect)
    case ignored
    then show ?thesis
      using inv streams_update [OF streams, of "[]"] by (simp add: pipeline_inv_def pipeline_message_def recv)
  next
    case (accepted td)
    have reach: "(exporter_step c)\<^sup>*\<^sup>* e0 (pl_ex s)"
      using inv by (simp add: pipeline_inv_def)
    have "isStopping (es_enc (ex_enc e))" if "isStopping (es_enc (ex_enc (pl_ex s)))"
      using exporter_step_stopping [OF started reach accepted(3) that] .
    with accepted show ?thesis
      using inv streams_update [OF streams, of "[td]"] callsOk_mono [of bp "pl_accepted s" "pl_calls s" "[td]"]
      by (auto simp: pipeline_inv_def pipeline_message_def recv intro: rtranclp.rtrancl_into_rtrancl)
  next
    case (refused td)
    then show ?thesis
      using inv streams_update [OF streams, of "[]"] by (auto simp: pipeline_inv_def pipeline_message_def recv)
  qed
qed

lemma pipeline_inv_unary:
  fixes s :: "('n, 'r, 's, 'io) pipeline"
  assumes inv: "pipeline_inv translate c bp e0 s" and started: "exporter_started name e0"
  shows "pipeline_inv translate c bp e0 (pipeline_unary (pipelineReceiver bp translate c) req s)"
proof -
  let ?ocr = "pipelineReceiver bp translate c"
  obtain err :: "(consumeResult, 'io) traceError option" and e log where one: "ExportOne ?ocr req (pl_ex s, pl_log s) = (err, e, log)"
    by (rule prod_cases3)
  have calls: "callsOk bp (pl_accepted s) (pl_calls s)"
    and streams: "\<forall>sm \<in> set (pl_streams s). streamOk bp (pl_accepted s) (sm_phase sm) (sm_msgs sm)"
    using inv by (simp_all add: pipeline_inv_def)
  have ocr: "nextConsumer ?ocr = exporterConsumer translate c" "backPressureOn ?ocr = bp"
    by (simp_all add: pipelineReceiver_def)
  from one ocr(1) show ?thesis
  proof (cases rule: ExportOne_effect)
    case ignored
    then show ?thesis
      using inv callsOk_Cons [OF calls, of err req] by (auto simp: pipeline_inv_def pipeline_unary_def one)
  next
    case (accepted td)
    have reach: "(exporter_step c)\<^sup>*\<^sup>* e0 (pl_ex s)"
      using inv by (simp add: pipeline_inv_def)
    have "isStopping (es_enc (ex_enc e))" if "isStopping (es_enc (ex_enc (pl_ex s)))"
      using exporter_step_stopping [OF started reach accepted(4) that] .
    moreover have "callsOk bp (td # pl_accepted s) ((req, err) # pl_calls s)"
      using callsOk_mono [OF calls, of "[td]"] accepted(2) by (intro callsOk_Cons) simp_all
    moreover have "\<forall>sm \<in> set (pl_streams s). streamOk bp (td # pl_accepted s) (sm_phase sm) (sm_msgs sm)"
      using streams streamOk_mono [of bp "pl_accepted s" _ _ "[td]"] by auto
    ultimately show ?thesis
      using accepted inv
      by (auto simp: pipeline_inv_def pipeline_unary_def one intro: rtranclp.rtrancl_into_rtrancl)
  next
    case (refused td)
    then show ?thesis
      using inv callsOk_Cons [OF calls, of err req] ocr(2)
      by (auto simp: pipeline_inv_def pipeline_unary_def one)
  qed
qed

lemma pipeline_inv_step:
  assumes "pipeline_step (pipelineReceiver bp translate c) c s t"
    and inv: "pipeline_inv translate c bp e0 s" and started: "exporter_started name e0"
  shows "pipeline_inv translate c bp e0 t"
proof -
  from assms(1) obtain a where a: "pipeline_exec (pipelineReceiver bp translate c) c a s = Some t"
    by (auto elim: pipeline_stepE)
  show ?thesis
  proof (cases a)
    case POpen
    with a inv show ?thesis by (auto simp: pipeline_inv_def)
  next
    case (PMessage i recv)
    with a pipeline_inv_message [OF inv started, of i recv] show ?thesis by (auto split: if_splits)
  next
    case (PClose i ending)
    let ?sm = "pl_streams s ! i"
    from PClose a have i: "i < length (pl_streams s)" and t: "t = s\<lparr>pl_streams := (pl_streams s)
        [i := \<lparr>sm_phase = stream_close (sm_phase ?sm) ending, sm_msgs = sm_msgs ?sm\<rparr>]\<rparr>"
      by (cases ?sm; auto split: if_splits)+
    from inv have streams: "\<forall>sm \<in> set (pl_streams s). streamOk bp (pl_accepted s) (sm_phase sm) (sm_msgs sm)"
      by (simp add: pipeline_inv_def)
    with i have "streamOk bp (pl_accepted s) (stream_close (sm_phase ?sm) ending) (sm_msgs ?sm)"
      by (intro streamOk_close) simp
    with streams_update [OF streams, of "[]"] inv show ?thesis by (simp add: t pipeline_inv_def)
  next
    case (PUnary req)
    with a pipeline_inv_unary [OF inv started, of req] show ?thesis by auto
  next
    case (PExporter x)
    with a obtain e where x: "exporter_exec c x (pl_ex s) = Some e" "\<not> isConsume x" and t: "t = s\<lparr>pl_ex := e\<rparr>"
      by (auto split: if_splits option.splits)
    from inv have reach: "(exporter_step c)\<^sup>*\<^sup>* e0 (pl_ex s)" by (simp add: pipeline_inv_def)
    note step = exporter_step.act [OF x(1)]
    from exporter_step_stopping [OF started reach step] exec_consumed [OF x] inv
      rtranclp.rtrancl_into_rtrancl [OF reach step]
    show ?thesis by (auto simp: t pipeline_inv_def)
  qed
qed

interpretation pipeline_inv: transition_invariant "pipeline_started e0"
  "pipeline_step (pipelineReceiver bp translate c) c"
  "\<lambda>s. pipeline_inv translate c bp e0 s \<and> (\<exists>name. exporter_started name e0)"
  for e0 bp translate c
proof
  fix s :: "('a, 'b, 'c, 'd) pipeline" assume s: "pipeline_started e0 s"
  then have "ex_consumed e0 = []"
    by (auto simp: pipeline_started_def exporter_started_def CreateTraceExporter_def NewExporter_def Let_def
        split: option.splits if_splits)
  with s show "pipeline_inv translate c bp e0 s \<and> (\<exists>name. exporter_started name e0)"
    by (auto simp: pipeline_started_def pipeline_start_def pipeline_inv_def loggedReceived_def loggedDropped_def
        callsOk_def)
next
  fix s t :: "('a, 'b, 'c, 'd) pipeline"
  assume "pipeline_step (pipelineReceiver bp translate c) c s t"
    and "pipeline_inv translate c bp e0 s \<and> (\<exists>name. exporter_started name e0)"
  then show "pipeline_inv translate c bp e0 t \<and> (\<exists>name. exporter_started name e0)"
    by (auto intro: pipeline_inv_step)
qed

lemma pipeline_reachable:
  assumes "CreateTraceExporter register cfg = Some e0"
    and "(pipeline_step (pipelineReceiver bp translate c) c)\<^sup>*\<^sup>* (pipeline_start e0) s"
  shows "pipeline_inv translate c bp e0 s"
proof -
  from assms(1) have "pipeline_started e0 (pipeline_start e0 :: ('a, 'b, 'c, 'd) pipeline)"
    by (auto simp: pipeline_started_def exporter_started_def)
  from pipeline_inv.reachable_inv [OF this assms(2)] show ?thesis by simp
qed

section \<open>A concrete run\<close>

text \<open>
  A started exporter behind the receiver; its translation makes each number a span and fails on a
  batch that begins with zero. One stream and a unary call are acknowledged, one stream ends with the
  exporter's refusal.
\<close>

definition sampleTranslate :: "(nat, nat, nat) TraceData \<Rightarrow> (Process option \<times> Span list) option" where
  "sampleTranslate td =
     (if hd (td_Spans td) = 0 then None else Some (None, map (\<lambda>n. sampleSpan n 0) (td_Spans td)))"

definition sampleMsg :: "nat option \<Rightarrow> nat list \<Rightarrow> (nat, nat, nat) ExportTraceServiceRequest" where
  "sampleMsg node spans = \<lparr>Node = node, Resource = None, Spans = spans\<rparr>"

definition samplePipelineActions :: "(nat, nat, nat, unit) pipelineAction list" where
  "samplePipelineActions =
     [POpen, POpen, PMessage 0 (sampleMsg (Some 1) [3]), PMessage 1 (sampleMsg (Some 2) [0, 7]),
      PMessage 0 (sampleMsg None [4, 5]), PClose 0 EOF, PUnary (sampleMsg (Some 3) [6])]"

fun pipeline_run ::
  "('n, 'r, 's, exporter, consumeResult) Receiver \<Rightarrow> codec \<Rightarrow> ('n, 'r, 's, 'io) pipelineAction list \<Rightarrow>
     ('n, 'r, 's, 'io) pipeline \<Rightarrow> ('n, 'r, 's, 'io) pipeline option" where
  "pipeline_run ocr c [] s = Some s"
| "pipeline_run ocr c (a # as) s =
     (case pipeline_exec ocr c a s of None \<Rightarrow> None | Some t \<Rightarrow> pipeline_run ocr c as t)"

lemma pipeline_run_reachable: "pipeline_run ocr c as s = Some t \<Longrightarrow> (pipeline_step ocr c)\<^sup>*\<^sup>* s t"
  by (induction "as" arbitrary: s)
    (auto split: option.splits intro: converse_rtranclp_into_rtranclp pipeline_step.act simp del: pipeline_exec.simps)

definition samplePipeline :: "(nat, nat, nat, unit) pipeline" where
  "samplePipeline =
     the (pipeline_run (pipelineReceiver True sampleTranslate sampleCodec) sampleCodec samplePipelineActions
       (pipeline_start sampleExporter))"

lemma samplePipeline_facts:
  "pipeline_run (pipelineReceiver True sampleTranslate sampleCodec) sampleCodec samplePipelineActions
     (pipeline_start sampleExporter) = Some samplePipeline"
  "ex_panics (pl_ex samplePipeline) = []" "map td_Spans (pl_accepted samplePipeline) = [[6], [4, 5], [3]]"
  "map td_Spans (pl_refused samplePipeline) = [[0, 7]]"
  "map sm_phase (pl_streams samplePipeline) =
     [StreamEnded None, StreamEnded (Some (ConsumerFailed TranslationFailed))]"
proof -
  let ?run = "pipeline_run (pipelineReceiver True sampleTranslate sampleCodec) sampleCodec samplePipelineActions
       (pipeline_start sampleExporter)"
  have check: "\<not> isStopping (es_enc (ex_enc sampleExporter))" "ex_panics sampleExporter = []"
    by (simp_all add: sampleExporter_def enc_sys_init_def isStopping_def sampleEnc_def)
  have "\<exists>s. ?run = Some s \<and> ex_panics (pl_ex s) = [] \<and>
     map td_Spans (pl_accepted s) = [[6], [4, 5], [3]] \<and> map td_Spans (pl_refused s) = [[0, 7]] \<and>
     map sm_phase (pl_streams s) = [StreamEnded None, StreamEnded (Some (ConsumerFailed TranslationFailed))]"
    using check
    by (simp add: samplePipelineActions_def pipeline_start_def pipeline_message_def handleMsg_def
        processReceivedMsg_def sendToNextConsumer_def exporterConsumer_def ConsumeTraceData_def
        pipeline_unary_def ExportOne_def sampleTranslate_def sampleMsg_def pipelineReceiver_def Let_def)
  then show "?run = Some samplePipeline" "ex_panics (pl_ex samplePipeline) = []"
    "map td_Spans (pl_accepted samplePipeline) = [[6], [4, 5], [3]]"
    "map td_Spans (pl_refused samplePipeline) = [[0, 7]]"
    "map sm_phase (pl_streams samplePipeline) =
       [StreamEnded None, StreamEnded (Some (ConsumerFailed TranslationFailed))]"
    unfolding samplePipeline_def by (elim exE conjE; simp only: option.sel)+
qed

section \<open>Properties\<close>

text \<open>
  C10: no span is lost between a stream and its fate, whatever the interleaving of the streams with each
  other, with unary calls and with the exporter. Unless a goroutine has panicked, the spans of the batches
  handed over and accepted by the exporter are, with their multiplicities, those inside the
  encoder, in a call of \<open>Send\<close>, pending at the client, in the retry queue, delivered, dropped under a
  drop code, answered with an unknown code, or abandoned while stopping. The receiver's measurements
  add up to the spans of the batches accepted and of those refused, and a batch is refused only
  when it cannot be translated or the encoder is stopping.
\<close>

theorem pipeline_accounts_for_every_span:
  assumes "CreateTraceExporter register cfg = Some e0"
    and "(pipeline_step (pipelineReceiver bp translate c) c)\<^sup>*\<^sup>* (pipeline_start e0) s"
    and "ex_panics (pl_ex s) = []"
  shows "spanKeys (concat (map (jaegerSpans translate) (pl_accepted s))) =
      sysKeys (ex_enc (pl_ex s)) + (\<Sum>h\<leftarrow>ex_sending (pl_ex s). spanKeys (fst (snd (snd h)))) +
      client_unary.requestKeys (ex_client (pl_ex s)) +
      spanKeys (concat (chan_items (ex_spansToRetry (pl_ex s)))) + spanKeys (ex_delivered (pl_ex s)) +
      spanKeys (concat (map snd (ex_dropped (pl_ex s)))) + spanKeys (ex_unanswered (pl_ex s)) +
      spanKeys (ex_abandoned (pl_ex s)) \<and>
    loggedReceived (pl_log s) = (\<Sum>td\<leftarrow>pl_accepted s. length (td_Spans td)) \<and>
    loggedDropped (pl_log s) = (\<Sum>td\<leftarrow>pl_refused s. length (td_Spans td)) \<and>
    (\<forall>td \<in> set (pl_refused s). translate td = None \<or> isStopping (es_enc (ex_enc (pl_ex s))))"
proof -
  from pipeline_reachable [OF assms(1,2)]
  have inv: "pipeline_inv translate c bp e0 s" .
  from assms(1) have "exporter_started (cfg_Name cfg) e0" by (auto simp: exporter_started_def)
  from exporter_inv.reachable_inv [OF this] inv have "accounted_for (pl_ex s)"
    by (auto simp: pipeline_inv_def exporter_inv_def)
  with assms(3) have "spanKeys (ex_consumed (pl_ex s)) = sysKeys (ex_enc (pl_ex s)) + outsideKeys (pl_ex s)"
    by (simp add: accounted_for_def)
  with inv show ?thesis by (simp add: pipeline_inv_def outside_defs ac_simps)
qed

theorem pipeline_accounts_for_every_span_witness:
  "spanKeys [sampleSpan 6 0, sampleSpan 4 0, sampleSpan 5 0, sampleSpan 3 0] =
      sysKeys (ex_enc (pl_ex samplePipeline)) + outsideKeys (pl_ex samplePipeline) \<and>
   loggedReceived (pl_log samplePipeline) = 4 \<and> loggedDropped (pl_log samplePipeline) = 2"
proof -
  let ?s = samplePipeline
  have "concat (map (jaegerSpans sampleTranslate) (pl_accepted ?s)) =
      concat (map (map (\<lambda>n. sampleSpan n 0)) (map td_Spans (pl_accepted ?s)))"
    using samplePipeline_facts(3) by (auto simp: jaegerSpans_def sampleTranslate_def fillProcess_def sampleSpan_def)
  then have spans: "concat (map (jaegerSpans sampleTranslate) (pl_accepted ?s)) =
      [sampleSpan 6 0, sampleSpan 4 0, sampleSpan 5 0, sampleSpan 3 0]"
    by (simp add: samplePipeline_facts(3))
  have lengths: "map (\<lambda>td. length (td_Spans td)) (pl_accepted ?s) = [1, 2, 1]"
    "map (\<lambda>td. length (td_Spans td)) (pl_refused ?s) = [2]"
    using arg_cong [OF samplePipeline_facts(3), of "map length"] arg_cong [OF samplePipeline_facts(4), of "map length"]
    by (simp_all add: comp_def)
  note account = pipeline_accounts_for_every_span [OF sampleExporter_new pipeline_run_reachable [OF samplePipeline_facts(1)]
      samplePipeline_facts(2)]
  from conjunct1 [OF account]
  have "spanKeys [sampleSpan 6 0, sampleSpan 4 0, sampleSpan 5 0, sampleSpan 3 0] = sysKeys (ex_enc (pl_ex ?s)) + outsideKeys (pl_ex ?s)"
    by (simp only: spans outside_defs ac_simps)
  moreover from account have "loggedReceived (pl_log ?s) = 4" "loggedDropped (pl_log ?s) = 2"
    unfolding lengths by simp_all
  ultimately show ?thesis
    by blast
qed

text \<open>
  C11: what a sender may conclude. With back pressure, a stream that has ended in success has had each of
  its batches accepted by the exporter, under the node and the resource last sent up to it, and so
  has a unary call that was answered without an error. For a stream that is still receiving the
  same holds of all messages so far, with or without back pressure.
\<close>

theorem pipeline_acknowledges:
  assumes "CreateTraceExporter register cfg = Some e0"
    and "(pipeline_step (pipelineReceiver bp translate c) c)\<^sup>*\<^sup>* (pipeline_start e0) s"
  shows "(\<forall>sm \<in> set (pl_streams s). bp \<and> sm_phase sm = StreamEnded None \<or> isReceiving (sm_phase sm) \<longrightarrow>
       (\<forall>j < length (sm_msgs sm). Spans (sm_msgs sm ! j) \<noteq> [] \<longrightarrow>
          streamData (sm_msgs sm) j \<in> set (pl_accepted s))) \<and>
    (\<forall>(req, err) \<in> set (pl_calls s). bp \<and> err = None \<and> Spans req \<noteq> [] \<longrightarrow>
       streamData [req] 0 \<in> set (pl_accepted s))"
proof (intro conjI ballI impI)
  from pipeline_reachable [OF assms]
  have inv: "\<forall>sm \<in> set (pl_streams s). streamOk bp (pl_accepted s) (sm_phase sm) (sm_msgs sm)"
    "callsOk bp (pl_accepted s) (pl_calls s)"
    by (simp_all add: pipeline_inv_def)
  fix sm assume "sm \<in> set (pl_streams s)" "bp \<and> sm_phase sm = StreamEnded None \<or> isReceiving (sm_phase sm)"
  with inv(1) have "allAccepted (pl_accepted s) (sm_msgs sm)" by (cases "sm_phase sm") auto
  then show "\<forall>j < length (sm_msgs sm). Spans (sm_msgs sm ! j) \<noteq> [] \<longrightarrow>
      streamData (sm_msgs sm) j \<in> set (pl_accepted s)"
    by (simp add: allAccepted_def)
next
  from pipeline_reachable [OF assms]
  have "callsOk bp (pl_accepted s) (pl_calls s)" by (simp add: pipeline_inv_def)
  then show "case p of (req, err) \<Rightarrow> bp \<and> err = None \<and> Spans req \<noteq> [] \<longrightarrow>
      streamData [req] 0 \<in> set (pl_accepted s)" if "p \<in> set (pl_calls s)" for p
    using that by (auto simp: callsOk_def)
qed

theorem pipeline_acknowledges_witness:
  "\<exists>sm \<in> set (pl_streams samplePipeline). sm_phase sm = StreamEnded None \<and>
     (\<forall>j < length (sm_msgs sm). Spans (sm_msgs sm ! j) \<noteq> [] \<longrightarrow>
        streamData (sm_msgs sm) j \<in> set (pl_accepted samplePipeline))"
proof -
  from samplePipeline_facts(5) obtain sm where sm: "sm \<in> set (pl_streams samplePipeline)" "sm_phase sm = StreamEnded None"
    by (cases "pl_streams samplePipeline") auto
  from bspec [OF conjunct1 [OF pipeline_acknowledges [OF sampleExporter_new
        pipeline_run_reachable [OF samplePipeline_facts(1)]]] sm(1)] sm
  show ?thesis by blast
qed

end
