(* ===== verification/Collector.thy ===== *)
theory Collector
  imports Pipeline Convergence
begin

text \<open>
  The collector on its main path and the server it sends to: streams and unary calls feed the exporter
  (\<open>Pipeline\<close>), whose calls the server answers (\<open>System\<close>). Seen from the receiver the whole is a pipeline,
  seen from the exporter it is a system; so what holds of the two parts holds of the whole.
\<close>

section \<open>The whole\<close>

record ('n, 'r, 's, 'io) collector =
  co_pl :: "('n, 'r, 's, 'io) pipeline"
  co_srv :: gRPCServer
  co_stored :: "(requestToSend \<times> ResultCode option) list"
  co_transport :: "(string \<times> string) list"

definition systemOf :: "('n, 'r, 's, 'io) collector \<Rightarrow> system" where
  "systemOf s = \<lparr>sys_ex = pl_ex (co_pl s), sys_srv = co_srv s, sys_stored = co_stored s, sys_transport = co_transport s\<rparr>"

definition putSystem :: "system \<Rightarrow> ('n, 'r, 's, 'io) collector \<Rightarrow> ('n, 'r, 's, 'io) collector" where
  "putSystem t s = \<lparr>co_pl = (co_pl s)\<lparr>pl_ex := sys_ex t\<rparr>, co_srv = sys_srv t, co_stored = sys_stored t,
     co_transport = sys_transport t\<rparr>"

text \<open>Batches come from the receiver only.\<close>

datatype ('n, 'r, 's, 'io) collectorAction =
    Feed "('n, 'r, 's, 'io) pipelineAction"
  | Net systemAction

fun ofReceiver :: "('n, 'r, 's, 'io) pipelineAction \<Rightarrow> bool" where
  "ofReceiver (PExporter a) = False"
| "ofReceiver _ = True"

fun collector_exec ::
  "('n, 'r, 's, exporter, consumeResult) Receiver \<Rightarrow> codec \<Rightarrow> ('n, 'r, 's, 'io) collectorAction \<Rightarrow>
     ('n, 'r, 's, 'io) collector \<Rightarrow> ('n, 'r, 's, 'io) collector option" where
  "collector_exec ocr c (Feed a) s =
     (if ofReceiver a
      then (case pipeline_exec ocr c a (co_pl s) of None \<Rightarrow> None | Some p \<Rightarrow> Some (s\<lparr>co_pl := p\<rparr>))
      else None)"
| "collector_exec ocr c (Net a) s =
     (if feeds a then None
      else (case system_exec c a (systemOf s) of None \<Rightarrow> None | Some t \<Rightarrow> Some (putSystem t s)))"

inductive collector_step ::
  "('n, 'r, 's, exporter, consumeResult) Receiver \<Rightarrow> codec \<Rightarrow> ('n, 'r, 's, 'io) collector \<Rightarrow>
     ('n, 'r, 's, 'io) collector \<Rightarrow> bool" for ocr c where
  act: "collector_exec ocr c a s = Some t \<Longrightarrow> collector_step ocr c s t"

inductive_cases collector_stepE: "collector_step ocr c s t"

definition collector_start :: "exporter \<Rightarrow> gRPCServer \<Rightarrow> (string \<times> string) list \<Rightarrow> ('n, 'r, 's, 'io) collector" where
  "collector_start e srv tm = \<lparr>co_pl = pipeline_start e, co_srv = srv, co_stored = [], co_transport = tm\<rparr>"

lemma putSystem_simps [simp]:
  "systemOf (putSystem t s) = t" "putSystem (systemOf s) s = s" "putSystem t (putSystem t' s) = putSystem t s"
  "co_pl (putSystem t s) = (co_pl s)\<lparr>pl_ex := sys_ex t\<rparr>"
  by (simp_all add: systemOf_def putSystem_def)

section \<open>Its two projections\<close>

text \<open>What the receiver does to the exporter is to hand it batches.\<close>

definition fed :: "codec \<Rightarrow> exporter \<Rightarrow> exporter \<Rightarrow> bool" where
  "fed c e e' \<longleftrightarrow> e' = e \<or> (\<exists>td. exporter_exec c (XConsume td) e = Some e')"

lemma consumer_fed:
  assumes "exporterConsumer translate c td e = (err, e')"
  shows "fed c e e'"
proof -
  have "ConsumeTraceData translate c td e = ConsumeTraceData (\<lambda>x. x) c (translate td) e"
    by (simp add: ConsumeTraceData_def)
  with assms have "exporter_exec c (XConsume (translate td)) e = Some e'"
    by (auto simp: exporterConsumer_def split: prod.splits)
  then show ?thesis by (auto simp: fed_def)
qed

lemma processReceivedMsg_fed:
  assumes "processReceivedMsg ocr tag node res recv (e, log) = (node1, res1, err, e', log')"
    and "nextConsumer ocr = exporterConsumer translate c"
  shows "fed c e e'"
proof (cases "Spans recv = []")
  case True
  with assms(1) show ?thesis by (auto simp: processReceivedMsg_def sendToNextConsumer_def fed_def Let_def)
next
  case False
  with assms obtain td er where "exporterConsumer translate c td e = (er, e')"
    by (auto simp: processReceivedMsg_def sendToNextConsumer_def Let_def split: prod.splits option.splits)
  then show ?thesis by (rule consumer_fed)
qed

lemma fed_refl [simp]: "fed c e e"
  by (simp add: fed_def)

lemma handleMsg_fed:
  assumes "handleMsg ocr node res recv (e, log) = (ph, e', log')"
    and "nextConsumer ocr = exporterConsumer translate c"
  shows "fed c e e'"
proof -
  obtain node1 res1 err e1 log1 where p: "processReceivedMsg ocr receiverBiDirectionalTagValue node res recv (e, log) =
      (node1, res1, err, e1, log1)" by (rule prod_cases5)
  with assms(1) have "e' = e1" by (auto simp: handleMsg_def split: option.splits)
  with processReceivedMsg_fed [OF p assms(2)] show ?thesis by simp
qed

lemma stream_recv_fed:
  assumes "stream_recv ocr ph recv (e, log) = (ph', e', log')"
    and "nextConsumer ocr = exporterConsumer translate c"
  shows "fed c e e'"
  using assms handleMsg_fed [OF _ assms(2)] by (cases ph) (auto split: if_splits)

lemma ExportOne_fed:
  assumes "ExportOne ocr req (e, log) = (err, e', log')"
    and "nextConsumer ocr = exporterConsumer translate c"
  shows "fed c e e'"
proof (cases "Node req = None")
  case False
  obtain node1 res1 er e1 log1 where p: "processReceivedMsg ocr receiverUnaryTagValue None None req (e, log) =
      (node1, res1, er, e1, log1)" by (rule prod_cases5)
  with assms(1) False have "e' = e1" by (auto simp: ExportOne_def)
  with processReceivedMsg_fed [OF p assms(2)] show ?thesis by simp
qed (use assms(1) in \<open>simp add: ExportOne_def\<close>)

lemma pipeline_exec_fed:
  assumes "pipeline_exec ocr c a p = Some q" and "ofReceiver a"
    and "nextConsumer ocr = exporterConsumer translate c"
  shows "fed c (pl_ex p) (pl_ex q)"
proof (cases a)
  case (PMessage i recv)
  with assms(1) stream_recv_fed [OF _ assms(3), of "sm_phase (pl_streams p ! i)" recv "pl_ex p" "pl_log p"] show ?thesis
    by (auto simp: pipeline_message_def Let_def split: if_splits prod.splits)
next
  case (PUnary req)
  with assms(1) ExportOne_fed [OF _ assms(3), of req "pl_ex p" "pl_log p"] show ?thesis
    by (auto simp: pipeline_unary_def Let_def split: prod.splits)
qed (use assms in \<open>auto split: if_splits\<close>)

lemma fed_system:
  assumes "fed c (sys_ex s) e"
  shows "(system_step c)\<^sup>*\<^sup>* s (s\<lparr>sys_ex := e\<rparr>)"
  using assms unfolding fed_def
proof (elim disjE exE)
  fix td assume "exporter_exec c (XConsume td) (sys_ex s) = Some e"
  then have "system_exec c (Local (XConsume td)) s = Some (s\<lparr>sys_ex := e\<rparr>)" by simp
  then show ?thesis by (intro r_into_rtranclp system_step.act)
qed simp

lemma collector_system:
  assumes "collector_step (pipelineReceiver bp translate c) c s t"
  shows "(system_step c)\<^sup>*\<^sup>* (systemOf s) (systemOf t)"
proof -
  from assms obtain a where a: "collector_exec (pipelineReceiver bp translate c) c a s = Some t"
    by (auto elim: collector_stepE)
  show ?thesis
  proof (cases a)
    case (Feed x)
    with a obtain p where p: "pipeline_exec (pipelineReceiver bp translate c) c x (co_pl s) = Some p" "ofReceiver x"
      "t = s\<lparr>co_pl := p\<rparr>" by (auto split: if_splits option.splits)
    from pipeline_exec_fed [OF p(1,2)] have "fed c (sys_ex (systemOf s)) (pl_ex p)"
      by (simp add: pipelineReceiver_def systemOf_def)
    from fed_system [OF this] p(3) show ?thesis by (simp add: systemOf_def)
  next
    case (Net x)
    with a obtain u where "system_exec c x (systemOf s) = Some u" "t = putSystem u s"
      by (auto split: if_splits option.splits)
    then show ?thesis by (auto intro: system_step.act)
  qed
qed

lemma collector_pipeline:
  assumes "collector_step ocr c s t"
  shows "(pipeline_step ocr c)\<^sup>*\<^sup>* (co_pl s) (co_pl t)"
proof -
  from assms obtain a where a: "collector_exec ocr c a s = Some t" by (auto elim: collector_stepE)
  show ?thesis
  proof (cases a)
    case (Feed x)
    with a show ?thesis by (auto split: if_splits option.splits intro!: r_into_rtranclp pipeline_step.act)
  next
    case (Net x)
    with a obtain u where u: "system_exec c x (systemOf s) = Some u" "t = putSystem u s" "\<not> feeds x"
      by (auto split: if_splits option.splits)
    from u(1) show ?thesis
    proof (cases rule: system_exec_action)
      case same
      with u(2) show ?thesis by (simp add: systemOf_def)
    next
      case (moves b)
      with u(3) have "\<not> isConsume b" by (cases b) auto
      with moves u(2) have "pipeline_exec ocr c (PExporter b) (co_pl s) = Some (co_pl t)"
        by (simp add: systemOf_def)
      then show ?thesis by (intro r_into_rtranclp pipeline_step.act)
    qed
  qed
qed

lemma collector_reach:
  assumes "(collector_step (pipelineReceiver bp translate c) c)\<^sup>*\<^sup>* s t"
  shows "(system_step c)\<^sup>*\<^sup>* (systemOf s) (systemOf t)"
    and "(pipeline_step (pipelineReceiver bp translate c) c)\<^sup>*\<^sup>* (co_pl s) (co_pl t)"
  using assms
  by (induction rule: rtranclp_induct) (auto dest: collector_system collector_pipeline intro: rtranclp_trans)

text \<open>Exporter and server at work are the collector at work.\<close>

lemma unfed_collector:
  assumes "(unfed_step c)\<^sup>*\<^sup>* (systemOf s) t"
  shows "(collector_step ocr c)\<^sup>*\<^sup>* s (putSystem t s)"
  using assms
proof (induction rule: rtranclp_induct)
  case (step t u)
  then obtain a where "system_exec c a t = Some u" "\<not> feeds a" by (auto simp: unfed_step_def)
  then have "collector_exec ocr c (Net a) (putSystem t s) = Some (putSystem u s)" by simp
  from collector_step.act [OF this] step.IH show ?case by (rule rtranclp.rtrancl_into_rtrancl [rotated])
qed simp

lemma sysWorking_collector:
  assumes "(sysWorking c)\<^sup>*\<^sup>* (systemOf s) t"
  shows "(collector_step ocr c)\<^sup>*\<^sup>* s (putSystem t s)"
proof (rule unfed_collector)
  from assms show "(unfed_step c)\<^sup>*\<^sup>* (systemOf s) t"
    by (induction rule: rtranclp_induct) (auto intro: sysWorking_unfed rtranclp.rtrancl_into_rtrancl)
qed

text \<open>The batches that a sender knows to have arrived: of streams and calls that ended in success.\<close>

definition acknowledged :: "('n, 'r, 's, 'io) pipeline \<Rightarrow> ('n, 'r, 's) TraceData list" where
  "acknowledged p =
     concat (map (\<lambda>sm. if sm_phase sm = StreamEnded None
                       then map (streamData (sm_msgs sm))
                              (filter (\<lambda>j. Spans (sm_msgs sm ! j) \<noteq> []) [0..<length (sm_msgs sm)])
                       else []) (pl_streams p)) @
     map (\<lambda>(req, err). streamData [req] 0) (filter (\<lambda>(req, err). err = None \<and> Spans req \<noteq> []) (pl_calls p))"

lemma acknowledged_accepted:
  assumes "pipeline_inv translate c True e0 p"
  shows "set (acknowledged p) \<subseteq> set (pl_accepted p)"
  using assms
  by (fastforce simp: acknowledged_def pipeline_inv_def callsOk_def allAccepted_def split: if_splits)

lemma accepted_keys:
  "td \<in> set tds \<Longrightarrow> spanKeys (jaegerSpans translate td) \<subseteq># spanKeys (concat (map (jaegerSpans translate) tds))"
  by (induction tds) (auto intro: subset_mset.add_increasing subset_mset.add_increasing2)

lemma acknowledged_consumed:
  assumes "CreateTraceExporter register cfg = Some e0"
    and "(collector_step (pipelineReceiver True translate c) c)\<^sup>*\<^sup>* (collector_start e0 srv tm) s"
    and "td \<in> set (acknowledged (co_pl s))"
  shows "spanKeys (jaegerSpans translate td) \<subseteq># spanKeys (ex_consumed (pl_ex (co_pl s)))"
proof -
  from collector_reach(2) [OF assms(2)] have inv: "pipeline_inv translate c True e0 (co_pl s)"
    by (intro pipeline_reachable [OF assms(1)]) (simp add: collector_start_def)
  from acknowledged_accepted [OF inv] assms(3) have "td \<in> set (pl_accepted (co_pl s))" by blast
  from accepted_keys [OF this, of translate] inv show ?thesis by (simp add: pipeline_inv_def)
qed

lemma collector_reach_system:
  assumes "(collector_step (pipelineReceiver bp translate c) c)\<^sup>*\<^sup>* (collector_start e0 srv tm) s"
  shows "(system_step c)\<^sup>*\<^sup>* \<lparr>sys_ex = e0, sys_srv = srv, sys_stored = [], sys_transport = tm\<rparr> (systemOf s)"
  using collector_reach(1) [OF assms] by (simp add: systemOf_def collector_start_def pipeline_start_def)

text \<open>
  Also after the server has changed its shards, the collector can come to a state in which what it has
  acknowledged is stored, and its streams are as they were.
\<close>

lemma collector_recovers:
  assumes "CreateTraceExporter register cfg = Some e0" and "GetRecords (ms_Sink (gs_srv srv)) = []"
    and "(collector_step (pipelineReceiver True translate c) c)\<^sup>*\<^sup>* (collector_start e0 srv tm) s"
    and "healthy c (cfg_Name cfg) config (systemOf s)" and "newShardingInMemConfig config = Inr shardCfg"
  shows "\<exists>t ds. (collector_step (pipelineReceiver True translate c) c)\<^sup>*\<^sup>* s t \<and>
    co_pl t = (co_pl s)\<lparr>pl_ex := pl_ex (co_pl t)\<rparr> \<and>
    (\<forall>d \<in> set ds. fst d = FatalEncodingError \<or> fst d = RetryQueueFull) \<and>
    (\<forall>td \<in> set (acknowledged (co_pl s)). spanKeys (jaegerSpans translate td) \<subseteq>#
       storedSpans (systemOf t) + spanKeys (concat (map snd (ds @ ex_dropped (pl_ex (co_pl s))))) +
       spanKeys (ex_unanswered (pl_ex (co_pl s))) + spanKeys (ex_abandoned (pl_ex (co_pl s))))"
proof -
  from assms(1,2) have "system_started (cfg_Name cfg) \<lparr>sys_ex = e0, sys_srv = srv, sys_stored = [], sys_transport = tm\<rparr>"
    by (auto simp: system_started_def exporter_started_def)
  from system_inv.reachable_inv [OF this collector_reach_system [OF assms(3)]]
  have inv: "system_inv c (cfg_Name cfg) (systemOf s)" .
  obtain u ds where u: "(unfed_step c)\<^sup>*\<^sup>* (systemOf s) u"
    "\<forall>d \<in> set ds. fst d = FatalEncodingError \<or> fst d = RetryQueueFull"
    and keys: "spanKeys (ex_consumed (sys_ex (systemOf s))) =
      storedSpans u + spanKeys (concat (map snd (ds @ ex_dropped (sys_ex (systemOf s))))) +
      spanKeys (ex_unanswered (sys_ex (systemOf s))) + spanKeys (ex_abandoned (sys_ex (systemOf s)))"
    by (rule healthy_settles [OF assms(4) inv assms(5)])
  have ex: "sys_ex (systemOf s) = pl_ex (co_pl s)" by (simp add: systemOf_def)
  show ?thesis
  proof (intro exI conjI)
    show "(collector_step (pipelineReceiver True translate c) c)\<^sup>*\<^sup>* s (putSystem u s)"
      by (rule unfed_collector [OF u(1)])
    show "co_pl (putSystem u s) = (co_pl s)\<lparr>pl_ex := pl_ex (co_pl (putSystem u s))\<rparr>" by simp
    show "\<forall>td \<in> set (acknowledged (co_pl s)). spanKeys (jaegerSpans translate td) \<subseteq>#
       storedSpans (systemOf (putSystem u s)) + spanKeys (concat (map snd (ds @ ex_dropped (pl_ex (co_pl s))))) +
       spanKeys (ex_unanswered (pl_ex (co_pl s))) + spanKeys (ex_abandoned (pl_ex (co_pl s)))"
      using acknowledged_consumed [OF assms(1,3)] unfolding putSystem_simps keys [unfolded ex] by blast
  qed (rule u(2))
qed

section \<open>Property\<close>

text \<open>
  C9: what is acknowledged to a sender reaches the server. Take a reachable state of the collector with
  its receiver under back pressure, in which nothing has panicked, the retry loop of the exporter runs,
  its client is not shut down, its encoder has workers with no signal to stop, none of the shard
  encoders in use is stopped, the encoder is not stopping, and the exporter agrees with a ready
  server. From here on the receiver rests: only the moves \<open>sysWorking\<close> of the exporter's goroutines,
  which carry spans on, and of the answering server are considered, in any order. There are at
  most \<open>exLoad\<close> of them, each such run is one of the collector, and when none is possible any more, the
  spans of every batch of a stream or call that ended in success are in requests that the server has stored and
  acknowledged, but for spans that cannot be encoded, found the retry queue full, or had been dropped
  or given up before. Such an end can be reached.
\<close>

theorem collector_delivers:
  assumes "CreateTraceExporter register cfg = Some e0" and "GetRecords (ms_Sink (gs_srv srv)) = []"
    and "(collector_step (pipelineReceiver True translate c) c)\<^sup>*\<^sup>* (collector_start e0 srv tm) s"
    and "e = pl_ex (co_pl s)" and "ex_panics e = []" and "ex_retry e = RetryRunning"
    and "\<not> cu_done (ex_client e)"
    and "es_workers (ex_enc e) \<noteq> []" and "\<not> en_workerHardStop (es_enc (ex_enc e))"
    and "\<forall>a \<in> set (en_shardEncoders (es_enc (ex_enc e))). \<not> se_stopped (en_heap (es_enc (ex_enc e)) ! a)"
    and "\<not> isStopping (es_enc (ex_enc e))"
    and "serverReady (co_srv s) config" and "agrees config e"
  shows "(\<forall>n t. (sysWorking c ^^ n) (systemOf s) t \<longrightarrow> n \<le> exLoad e) \<and>
    (\<forall>t. (sysWorking c)\<^sup>*\<^sup>* (systemOf s) t \<and> (\<nexists>u. sysWorking c t u) \<longrightarrow>
       (collector_step (pipelineReceiver True translate c) c)\<^sup>*\<^sup>* s (putSystem t s) \<and>
       (\<exists>ds. ex_dropped (sys_ex t) = ds @ ex_dropped e \<and>
          (\<forall>d \<in> set ds. fst d = FatalEncodingError \<or> fst d = RetryQueueFull) \<and>
          (\<forall>td \<in> set (acknowledged (co_pl s)). spanKeys (jaegerSpans translate td) \<subseteq>#
             (\<Sum>h\<leftarrow>sys_stored t. if snd h = Some SUCCESS then spanKeys (originalSpans (fst h)) else {#}) +
             spanKeys (concat (map snd (ds @ ex_dropped e))) +
             spanKeys (ex_unanswered e) + spanKeys (ex_abandoned e)))) \<and>
    (\<exists>t. (sysWorking c)\<^sup>*\<^sup>* (systemOf s) t \<and> (\<nexists>u. sysWorking c t u))"
proof -
  note acked = acknowledged_consumed [OF assms(1,3), folded assms(4)]
  have e: "sys_ex (systemOf s) = e" using assms(4) by (simp add: systemOf_def)
  note ready = sysReady_reached [OF assms(1,2) collector_reach_system [OF assms(3)], of config]
  have "sysReady c (cfg_Name cfg) config (systemOf s)" "system_inv c (cfg_Name cfg) (systemOf s)"
    by (rule ready; use assms(4-) in \<open>simp add: systemOf_def\<close>)+
  note ends = system_work.run_bound [OF _ this(1)] sysReady_settled [OF this] system_work.stuck.reaches_goal [OF this(1)]
  show ?thesis
  proof (intro conjI allI impI; (elim conjE)?)
    fix n t assume "(sysWorking c ^^ n) (systemOf s) t"
    with ends(1) e show "n \<le> exLoad e" by simp
  next
    fix t assume "(sysWorking c)\<^sup>*\<^sup>* (systemOf s) t"
    then show "(collector_step (pipelineReceiver True translate c) c)\<^sup>*\<^sup>* s (putSystem t s)"
      by (rule sysWorking_collector)
  next
    fix t assume "(sysWorking c)\<^sup>*\<^sup>* (systemOf s) t" "\<nexists>u. sysWorking c t u"
    from ends(2) [OF this] acked show "\<exists>ds. ex_dropped (sys_ex t) = ds @ ex_dropped e \<and>
        (\<forall>d \<in> set ds. fst d = FatalEncodingError \<or> fst d = RetryQueueFull) \<and>
        (\<forall>td \<in> set (acknowledged (co_pl s)). spanKeys (jaegerSpans translate td) \<subseteq>#
           (\<Sum>h\<leftarrow>sys_stored t. if snd h = Some SUCCESS then spanKeys (originalSpans (fst h)) else {#}) +
           spanKeys (concat (map snd (ds @ ex_dropped e))) +
           spanKeys (ex_unanswered e) + spanKeys (ex_abandoned e))"
      unfolding e storedSpans_def by (elim exE conjE) (intro exI conjI, assumption, assumption, simp)
  qed (use ends(3) in blast)
qed

text \<open>A stream of one span, closed by its sender while the span waits in a record to be sent.\<close>

definition consumedExporter :: exporter where
  "consumedExporter = fst (ConsumeTraceData (\<lambda>x. x) sampleCodec (Some (None, [sampleSpan 3 0])) configuredExporter)"

definition demoCollector :: "(nat, nat, nat, unit) collector" where
  "demoCollector = \<lparr>co_pl = \<lparr>pl_ex = sendingExporter,
       pl_streams = [\<lparr>sm_phase = StreamEnded None, sm_msgs = [sampleMsg (Some 1) [3]]\<rparr>],
       pl_log = [(receiverBiDirectionalTagValue, 1, 0)],
       pl_accepted = [\<lparr>td_Node = Some 1, td_Resource = None, td_Spans = [3], td_SourceFormat = ''oc_trace''\<rparr>],
       pl_refused = [], pl_calls = []\<rparr>,
     co_srv = sampleServer [], co_stored = [], co_transport = sampleTransport\<rparr>"

lemma consumed_accepted:
  "ConsumeTraceData (\<lambda>x. x) sampleCodec (Some (None, [sampleSpan 3 0])) configuredExporter = (consumedExporter, Accepted)"
  by (simp add: consumedExporter_def configuredExporter_def sampleExporter_def ConsumeTraceData_def
      sampleSys4_def sample_eval sampleEnc_request(6) Let_def)

lemma collector_lift:
  assumes "exporter_run c as e = Some e'" and "list_all (\<lambda>a. answeredBy config a \<and> \<not> isConsume a) as"
    and "gs_headers (co_srv s) = []" and "ms_config (gs_srv (co_srv s)) = Some config" and "pl_ex (co_pl s) = e"
  shows "(collector_step ocr c)\<^sup>*\<^sup>* s (s\<lparr>co_pl := (co_pl s)\<lparr>pl_ex := e'\<rparr>\<rparr>)"
  using assms
proof (induction "as" arbitrary: e s)
  case (Cons a "as")
  then obtain e1 where e1: "exporter_exec c a e = Some e1" "exporter_run c as e1 = Some e'"
    "answeredBy config a" "\<not> isConsume a" "list_all (\<lambda>a. answeredBy config a \<and> \<not> isConsume a) as"
    by (auto split: option.splits)
  let ?s = "s\<lparr>co_pl := (co_pl s)\<lparr>pl_ex := e1\<rparr>\<rparr>"
  obtain b where b: "system_exec c b (systemOf s) = Some \<lparr>sys_ex = e1, sys_srv = co_srv s, sys_stored = co_stored s, sys_transport = co_transport s\<rparr>"
    "b = Local a \<or> b = ConfigCall False"
    using answered_exec [OF e1(1,3) Cons.prems(3,4)] Cons.prems(5) by (auto simp: systemOf_def)
  with e1(4) have "collector_exec ocr c (Net b) s = Some ?s" by (auto simp: putSystem_def)
  moreover from Cons.IH [OF e1(2,5), of ?s] Cons.prems(3,4)
  have "(collector_step ocr c)\<^sup>*\<^sup>* ?s (s\<lparr>co_pl := (co_pl s)\<lparr>pl_ex := e'\<rparr>\<rparr>)" by simp
  ultimately show ?case by (blast intro: converse_rtranclp_into_rtranclp collector_step.act)
next
  case Nil
  then have "s\<lparr>co_pl := (co_pl s)\<lparr>pl_ex := e'\<rparr>\<rparr> = s" by (cases s; cases "co_pl s") auto
  then show ?case by simp
qed

lemma demoCollector_reach:
  "(collector_step (pipelineReceiver True sampleTranslate sampleCodec) sampleCodec)\<^sup>*\<^sup>*
     (collector_start sampleExporter (sampleServer []) sampleTransport) demoCollector"
  (is "?R\<^sup>*\<^sup>* ?s0 _")
proof -
  let ?s1 = "?s0\<lparr>co_pl := (co_pl ?s0)\<lparr>pl_ex := configuredExporter\<rparr>\<rparr>"
  let ?s2 = "demoCollector\<lparr>co_pl := (co_pl demoCollector)\<lparr>pl_ex := consumedExporter\<rparr>\<rparr>"
  note lift = collector_lift [where config = testConfig4 and ocr = "pipelineReceiver True sampleTranslate sampleCodec"]
  have "?R\<^sup>*\<^sup>* ?s0 ?s1"
    by (rule lift [OF configuredExporter_run]) (simp_all add: list_all_iff collector_start_def pipeline_start_def sampleServer_facts)
  also have "?R\<^sup>*\<^sup>* ?s1 ?s2"
  proof -
    let ?run = "\<lambda>a s. collector_exec (pipelineReceiver True sampleTranslate sampleCodec) sampleCodec (Feed a) s"
    have "Option.bind (?run POpen ?s1) (\<lambda>s. Option.bind (?run (PMessage 0 (sampleMsg (Some 1) [3])) s)
        (?run (PClose 0 EOF))) = Some ?s2"
      using consumed_accepted
      by (simp add: collector_start_def pipeline_start_def demoCollector_def pipeline_message_def handleMsg_def
          processReceivedMsg_def sendToNextConsumer_def exporterConsumer_def ConsumeTraceData_def
          sampleTranslate_def sampleMsg_def pipelineReceiver_def Let_def)
    then obtain u v where "?run POpen ?s1 = Some u" "?run (PMessage 0 (sampleMsg (Some 1) [3])) u = Some v"
      "?run (PClose 0 EOF) v = Some ?s2"
      by (auto simp: Option.bind_eq_Some_conv simp del: collector_exec.simps)
    from this [THEN collector_step.act] show ?thesis by (meson converse_rtranclp_into_rtranclp rtranclp.rtrancl_refl)
  qed
  also have "?R\<^sup>*\<^sup>* ?s2 demoCollector"
  proof -
    have "exporter_run sampleCodec [XEncoder (CallerAdd 0), XEncoder (CallerSend 0), XEncoder (WorkerStep 0),
        XEncoder (WorkerStep 0), XEncoder (WorkerStep 0), XEncoder (WorkerStep 0), XEncoder (WorkerStep 0),
        XEncoder (FlusherTick 2)] consumedExporter = Some sendingExporter"
      using sendingExporter_run consumed_accepted by simp
    from lift [OF this, of ?s2] show ?thesis by (simp add: demoCollector_def sampleServer_facts)
  qed
  finally show ?thesis .
qed

theorem collector_delivers_witness:
  "\<exists>t ds. (sysWorking sampleCodec)\<^sup>*\<^sup>* (systemOf demoCollector) t \<and>
     spanKeys [sampleSpan 3 0] \<subseteq># storedSpans t + spanKeys (concat (map snd ds)) \<and>
     (\<forall>d \<in> set ds. fst d = FatalEncodingError \<or> fst d = RetryQueueFull)"
proof -
  let ?td = "\<lparr>td_Node = Some 1, td_Resource = None, td_Spans = [3], td_SourceFormat = ''oc_trace''\<rparr>"
  have srv: "GetRecords (ms_Sink (gs_srv (sampleServer []))) = []" "serverReady (co_srv demoCollector) testConfig4"
    by (simp_all add: demoCollector_def sampleServer_def ms_Listen_def ms_SetConfig_def newMockServer_def GetRecords_def
        serverReady_def Let_def)
  have ex: "sendingExporter = pl_ex (co_pl demoCollector)" by (simp add: demoCollector_def)
  have td: "?td \<in> set (acknowledged (co_pl demoCollector))" "jaegerSpans sampleTranslate ?td = [sampleSpan 3 0]"
    by (simp_all add: demoCollector_def acknowledged_def sampleMsg_def streamData_def lastSent_def jaegerSpans_def
        sampleTranslate_def fillProcess_def)
  note delivers = collector_delivers [OF sampleExporter_new srv(1) demoCollector_reach ex sampleExporter_facts(2)
      sendingExporter_live sendingExporter_facts(1) srv(2) sendingExporter_agrees, unfolded sendingExporter_facts(2-)]
  from delivers obtain t where t: "(sysWorking sampleCodec)\<^sup>*\<^sup>* (systemOf demoCollector) t" "\<nexists>u. sysWorking sampleCodec t u"
    by blast
  with delivers obtain ds where "\<forall>d \<in> set ds. fst d = FatalEncodingError \<or> fst d = RetryQueueFull"
    "spanKeys (jaegerSpans sampleTranslate ?td) \<subseteq># storedSpans t + spanKeys (concat (map snd (ds @ []))) + spanKeys [] + spanKeys []"
    using td(1) unfolding storedSpans_def by blast
  with t td(2) show ?thesis by (intro exI [of _ t] exI [of _ ds]) simp
qed

end
