(* ===== verification/OCReceiver.thy ===== *)
theory OCReceiver
  imports OCTrace
begin

text \<open>
  The OpenCensus receiver (\<open>receiver/opencensusreceiver\<close>): its configuration and how that becomes
  options (\<open>config.go\<close>, \<open>options.go\<close>), the receiver that is shared by the trace and the metrics
  pipeline (\<open>factory.go\<close>), and the start and stop of its servers (\<open>opencensus.go\<close>).

  Transport credentials, the options of the metrics receiver, listening, and the result of
  serving are outside the repository: type variables and parameters.
\<close>

section \<open>Configuration\<close>

record tlsCredentials =
  CertFile :: string
  KeyFile :: string

record keepaliveServerParameters =
  MaxConnectionIdle :: int
  MaxConnectionAge :: int
  MaxConnectionAgeGrace :: int
  Time :: int
  Timeout :: int

record keepaliveEnforcementPolicy =
  MinTime :: int
  PermitWithoutStream :: bool

record serverParametersAndEnforcementPolicy =
  ServerParameters :: "keepaliveServerParameters option"
  EnforcementPolicy :: "keepaliveEnforcementPolicy option"

text \<open>\<open>ReceiverSettings\<close> is embedded: of its fields the code sets the type, the name and the endpoint.\<close>

record ocConfig =
  oc_TypeVal :: string
  oc_NameVal :: string
  oc_Endpoint :: string
  oc_TLSCredentials :: "tlsCredentials option"
  oc_Keepalive :: "serverParametersAndEnforcementPolicy option"
  oc_MaxRecvMsgSizeMiB :: u64
  oc_MaxConcurrentStreams :: u32
  oc_EnableBackPressure :: bool
  oc_MaxServerStreams :: u64

definition oc_typeStr :: string where
  "oc_typeStr = ''opencensus''"

definition oc_Type :: string where
  "oc_Type = oc_typeStr"

text \<open>There is no unmarshaller of its own, so the collector's is used.\<close>

definition oc_CustomUnmarshaler :: "'unmarshaler option" where
  "oc_CustomUnmarshaler = None"

definition oc_CreateDefaultConfig :: ocConfig where
  "oc_CreateDefaultConfig =
     \<lparr>oc_TypeVal = oc_typeStr, oc_NameVal = oc_typeStr, oc_Endpoint = ''127.0.0.1:55678'', oc_TLSCredentials = None, oc_Keepalive = None,
      oc_MaxRecvMsgSizeMiB = 0, oc_MaxConcurrentStreams = 0, oc_EnableBackPressure = False,
      oc_MaxServerStreams = 0\<rparr>"

text \<open>The options of gRPC the receiver uses, those of the trace receiver, and those of the receiver.\<close>

datatype 'tc grpcServerOption =
    MaxRecvMsgSize int
  | MaxConcurrentStreams u32
  | KeepaliveParams keepaliveServerParameters
  | KeepaliveEnforcementPolicy keepaliveEnforcementPolicy
  | Creds 'tc

datatype traceOption = BackPressure | MaxServerStream int

definition applyTraceOption :: "traceOption \<Rightarrow> ('n, 'r, 's, 'w, 'e) Receiver \<Rightarrow> ('n, 'r, 's, 'w, 'e) Receiver" where
  "applyTraceOption opt =
     (case opt of BackPressure \<Rightarrow> WithBackPressure | MaxServerStream n \<Rightarrow> WithMaxServerStream n)"

datatype ('mo, 'tc) ocOption =
    TraceReceiverOptions "traceOption list"
  | MetricsReceiverOptions "'mo list"
  | CorsOrigins "string list"
  | GRPCServerOptions "'tc grpcServerOption list"
  | NoopOption

definition traceReceiverOptions :: "ocConfig \<Rightarrow> traceOption list" where
  "traceReceiverOptions rOpts =
     (if oc_EnableBackPressure rOpts then [BackPressure] else []) @
     (if oc_MaxServerStreams rOpts > 0
      then [MaxServerStream (int64_of_uint64 (oc_MaxServerStreams rOpts))] else [])"

definition grpcServerOptions :: "ocConfig \<Rightarrow> 'tc grpcServerOption list" where
  "grpcServerOptions rOpts =
     (if oc_MaxRecvMsgSizeMiB rOpts > 0
      then [MaxRecvMsgSize (int64_of_uint64 (oc_MaxRecvMsgSizeMiB rOpts * 1024 * 1024))] else []) @
     (if oc_MaxConcurrentStreams rOpts > 0 then [MaxConcurrentStreams (oc_MaxConcurrentStreams rOpts)] else []) @
     (case oc_Keepalive rOpts of
        None \<Rightarrow> []
      | Some k \<Rightarrow>
          (case ServerParameters k of
             None \<Rightarrow> []
           | Some p \<Rightarrow>
               [KeepaliveParams
                  \<lparr>MaxConnectionIdle = MaxConnectionIdle p, MaxConnectionAge = MaxConnectionAge p,
                   MaxConnectionAgeGrace = MaxConnectionAgeGrace p, Time = Time p, Timeout = Timeout p\<rparr>]) @
          (case EnforcementPolicy k of
             None \<Rightarrow> []
           | Some p \<Rightarrow>
               [KeepaliveEnforcementPolicy
                  \<lparr>MinTime = MinTime p, PermitWithoutStream = PermitWithoutStream p\<rparr>]))"

text \<open>\<open>load\<close> stands for \<open>credentials.NewServerTLSFromFile\<close>, which fails on unreadable files.\<close>

datatype ocOptionResult = CredentialsFailed

definition ToOpenCensusReceiverServerOption ::
  "(string \<Rightarrow> string \<Rightarrow> 'tc option) \<Rightarrow> tlsCredentials option \<Rightarrow>
     ocOptionResult + ('mo, 'tc) ocOption \<times> bool" where
  "ToOpenCensusReceiverServerOption load tlsCreds =
     (case tlsCreds of
        None \<Rightarrow> Inr (NoopOption, False)
      | Some creds \<Rightarrow>
          (case load (CertFile creds) (KeyFile creds) of
             None \<Rightarrow> Inl CredentialsFailed
           | Some transportCreds \<Rightarrow> Inr (GRPCServerOptions [Creds transportCreds], True)))"

definition buildOptions ::
  "(string \<Rightarrow> string \<Rightarrow> 'tc option) \<Rightarrow> ocConfig \<Rightarrow> ocOptionResult + ('mo, 'tc) ocOption list" where
  "buildOptions load rOpts =
     (case ToOpenCensusReceiverServerOption load (oc_TLSCredentials rOpts) of
        Inl err \<Rightarrow> Inl err
      | Inr (tlsCredsOption, hasTLSCreds) \<Rightarrow>
          let opts1 = (if hasTLSCreds then [tlsCredsOption] else []);
              gso = grpcServerOptions rOpts;
              opts2 = opts1 @ (if length gso > 0 then [GRPCServerOptions gso] else []);
              tro = traceReceiverOptions rOpts
          in Inr (opts2 @ (if length tro > 0 then [TraceReceiverOptions tro] else [])))"

section \<open>The receiver\<close>

datatype service = TraceService | MetricsService

datatype httpHandler = GatewayMux | WithCors "string list"

text \<open>
  The fields \<open>or_ln\<close> to \<open>or_startMetricsReceiverOnce\<close> are those of the struct, a used \<open>sync.Once\<close>
  being true. \<open>or_serverGRPC\<close> holds the options the gRPC server was made with; the services
  registered on it, whether it is being served, and what has been closed follow. gRPC ends the
  process when a service is registered on a server that is served: \<open>or_fatal\<close>.
\<close>

record ('k, 'tr, 'mo, 'tc) ocReceiver =
  or_ln :: string
  or_serverGRPC :: "'tc grpcServerOption list option"
  or_serverHTTP :: "httpHandler option"
  or_corsOrigins :: "string list"
  or_grpcServerOptions :: "'tc grpcServerOption list"
  or_traceReceiverOpts :: "traceOption list"
  or_metricsReceiverOpts :: "'mo list"
  or_traceReceiver :: "'tr option"
  or_metricsReceiver :: "'mo list option"
  or_traceConsumer :: "'k option"
  or_metricsConsumer :: bool
  or_stopOnce :: bool
  or_startServerOnce :: bool
  or_startTraceReceiverOnce :: bool
  or_startMetricsReceiverOnce :: bool
  or_services :: "service list"
  or_serving :: bool
  or_fatal :: bool
  or_httpClosed :: bool
  or_lnClosed :: bool

fun withReceiver :: "('mo, 'tc) ocOption \<Rightarrow> ('k, 'tr, 'mo, 'tc) ocReceiver \<Rightarrow> ('k, 'tr, 'mo, 'tc) ocReceiver" where
  "withReceiver (TraceReceiverOptions opts) ocr = ocr\<lparr>or_traceReceiverOpts := opts\<rparr>"
| "withReceiver (MetricsReceiverOptions opts) ocr = ocr\<lparr>or_metricsReceiverOpts := opts\<rparr>"
| "withReceiver (CorsOrigins origins) ocr = ocr\<lparr>or_corsOrigins := origins\<rparr>"
| "withReceiver (GRPCServerOptions gsvo) ocr = ocr\<lparr>or_grpcServerOptions := gsvo\<rparr>"
| "withReceiver NoopOption ocr = ocr"

text \<open>\<open>listen\<close> stands for \<open>net.Listen\<close>; no result is the error of binding to the address.\<close>

definition ocReceiver_New ::
  "(string \<Rightarrow> bool) \<Rightarrow> string \<Rightarrow> 'k option \<Rightarrow> bool \<Rightarrow> ('mo, 'tc) ocOption list \<Rightarrow>
     ('k, 'tr, 'mo, 'tc) ocReceiver option" where
  "ocReceiver_New listen addr tc mc opts =
     (if \<not> listen addr then None
      else
        let ocr = fold withReceiver opts
              \<lparr>or_ln = addr, or_serverGRPC = None, or_serverHTTP = None, or_corsOrigins = [],
               or_grpcServerOptions = [], or_traceReceiverOpts = [], or_metricsReceiverOpts = [],
               or_traceReceiver = None, or_metricsReceiver = None, or_traceConsumer = None,
               or_metricsConsumer = False, or_stopOnce = False, or_startServerOnce = False,
               or_startTraceReceiverOnce = False, or_startMetricsReceiverOnce = False,
               or_services = [], or_serving = False, or_fatal = False, or_httpClosed = False,
               or_lnClosed = False\<rparr>
        in Some (ocr\<lparr>or_traceConsumer := tc, or_metricsConsumer := mc\<rparr>))"

section \<open>Starting and stopping\<close>

datatype 'se ocError =
    AlreadyStarted
  | AlreadyStopped
  | NoConsumers
  | TraceReceiverFailed newError
  | MetricsReceiverFailed
  | ServerFailed 'se

definition grpcServer :: "('k, 'tr, 'mo, 'tc) ocReceiver \<Rightarrow> ('k, 'tr, 'mo, 'tc) ocReceiver" where
  "grpcServer ocr =
     (if or_serverGRPC ocr = None then ocr\<lparr>or_serverGRPC := Some (or_grpcServerOptions ocr)\<rparr> else ocr)"

definition registerService :: "service \<Rightarrow> ('k, 'tr, 'mo, 'tc) ocReceiver \<Rightarrow> ('k, 'tr, 'mo, 'tc) ocReceiver" where
  "registerService s ocr =
     ocr\<lparr>or_services := or_services ocr @ [s],
         or_fatal := or_fatal ocr \<or> or_serving ocr \<or> s \<in> set (or_services ocr)\<rparr>"

definition registerTraceConsumer ::
  "(('n, 'r, 's, 'w, 'e) traceConsumer, ('n, 'r, 's, 'w, 'e) Receiver, 'mo, 'tc) ocReceiver \<Rightarrow>
     'se ocError option \<times>
     (('n, 'r, 's, 'w, 'e) traceConsumer, ('n, 'r, 's, 'w, 'e) Receiver, 'mo, 'tc) ocReceiver" where
  "registerTraceConsumer ocr =
     (if or_startTraceReceiverOnce ocr then (Some AlreadyStarted, ocr)
      else
        let ocr1 = ocr\<lparr>or_startTraceReceiverOnce := True\<rparr> in
        (case New (or_traceConsumer ocr1) (map applyTraceOption (or_traceReceiverOpts ocr1)) of
           Inl err \<Rightarrow> (Some (TraceReceiverFailed err), ocr1\<lparr>or_traceReceiver := None\<rparr>)
         | Inr tr \<Rightarrow> (None, registerService TraceService (grpcServer (ocr1\<lparr>or_traceReceiver := Some tr\<rparr>)))))"

text \<open>\<open>newMetrics\<close> tells whether \<open>ocmetrics.New\<close> accepts the options.\<close>

definition registerMetricsConsumer ::
  "('mo list \<Rightarrow> bool) \<Rightarrow> ('k, 'tr, 'mo, 'tc) ocReceiver \<Rightarrow> 'se ocError option \<times> ('k, 'tr, 'mo, 'tc) ocReceiver" where
  "registerMetricsConsumer newMetrics ocr =
     (if or_startMetricsReceiverOnce ocr then (Some AlreadyStarted, ocr)
      else
        let ocr1 = ocr\<lparr>or_startMetricsReceiverOnce := True\<rparr> in
        if \<not> (or_metricsConsumer ocr1 \<and> newMetrics (or_metricsReceiverOpts ocr1))
        then (Some MetricsReceiverFailed, ocr1\<lparr>or_metricsReceiver := None\<rparr>)
        else (None, registerService MetricsService
                (grpcServer (ocr1\<lparr>or_metricsReceiver := Some (or_metricsReceiverOpts ocr1)\<rparr>))))"

definition httpServer :: "('k, 'tr, 'mo, 'tc) ocReceiver \<Rightarrow> ('k, 'tr, 'mo, 'tc) ocReceiver" where
  "httpServer ocr =
     (if or_serverHTTP ocr = None
      then ocr\<lparr>or_serverHTTP := Some (if length (or_corsOrigins ocr) > 0
                                   then WithCors (or_corsOrigins ocr) else GatewayMux)\<rparr>
      else ocr)"

text \<open>
  What happens in the second after the goroutine that starts the servers is started: the gateway
  cannot be registered, one of the servers returns, with or without an error, or nothing has returned.
  The servers have goroutines of their own. The two flags tell how far these have come by then:
  whether the gRPC server is being served, and whether the HTTP server has been made.
\<close>

datatype 'se serveOutcome = GatewayFailed 'se | ServeReturned "'se option" bool bool | StillRunning bool bool

definition serversStarted :: "bool \<Rightarrow> bool \<Rightarrow> ('k, 'tr, 'mo, 'tc) ocReceiver \<Rightarrow> ('k, 'tr, 'mo, 'tc) ocReceiver" where
  "serversStarted grpc http ocr =
     (let ocr1 = (if http then httpServer ocr else ocr) in ocr1\<lparr>or_serving := or_serving ocr1 \<or> grpc\<rparr>)"

definition startServer ::
  "'se serveOutcome \<Rightarrow> ('k, 'tr, 'mo, 'tc) ocReceiver \<Rightarrow> 'se ocError option \<times> ('k, 'tr, 'mo, 'tc) ocReceiver" where
  "startServer out ocr =
     (if or_startServerOnce ocr then (Some AlreadyStarted, ocr)
      else
        let ocr1 = ocr\<lparr>or_startServerOnce := True\<rparr> in
        (case out of
           GatewayFailed err \<Rightarrow> (Some (ServerFailed err), ocr1)
         | ServeReturned err grpc http \<Rightarrow> (map_option ServerFailed err, serversStarted grpc http ocr1)
         | StillRunning grpc http \<Rightarrow> (None, serversStarted grpc http ocr1)))"

definition oc_start ::
  "('mo list \<Rightarrow> bool) \<Rightarrow> 'se serveOutcome \<Rightarrow>
     (('n, 'r, 's, 'w, 'e) traceConsumer, ('n, 'r, 's, 'w, 'e) Receiver, 'mo, 'tc) ocReceiver \<Rightarrow>
     'se ocError option \<times>
     (('n, 'r, 's, 'w, 'e) traceConsumer, ('n, 'r, 's, 'w, 'e) Receiver, 'mo, 'tc) ocReceiver" where
  "oc_start newMetrics out ocr =
     (let hasConsumer = (or_traceConsumer ocr \<noteq> None \<or> or_metricsConsumer ocr);
          (err1, ocr1) = (if or_traceConsumer ocr \<noteq> None then registerTraceConsumer ocr else (None, ocr))
      in if err1 \<noteq> None \<and> err1 \<noteq> Some AlreadyStarted then (err1, ocr1)
         else
           let (err2, ocr2) = (if or_metricsConsumer ocr1 then registerMetricsConsumer newMetrics ocr1 else (None, ocr1))
           in if err2 \<noteq> None \<and> err2 \<noteq> Some AlreadyStarted then (err2, ocr2)
              else if \<not> hasConsumer then (Some NoConsumers, ocr2)
              else
                let (err3, ocr3) = startServer out ocr2
                in if err3 \<noteq> None \<and> err3 \<noteq> Some AlreadyStarted then (err3, ocr3) else (None, ocr3))"

text \<open>\<open>Start\<close> does not look at the host it is given; both names of a source are the same constant.\<close>

definition oc_Start ::
  "'host \<Rightarrow> ('mo list \<Rightarrow> bool) \<Rightarrow> 'se serveOutcome \<Rightarrow>
     (('n, 'r, 's, 'w, 'e) traceConsumer, ('n, 'r, 's, 'w, 'e) Receiver, 'mo, 'tc) ocReceiver \<Rightarrow>
     'se ocError option \<times>
     (('n, 'r, 's, 'w, 'e) traceConsumer, ('n, 'r, 's, 'w, 'e) Receiver, 'mo, 'tc) ocReceiver" where
  "oc_Start host newMetrics out ocr = oc_start newMetrics out ocr"

definition oc_source :: string where
  "oc_source = ''OpenCensus''"

definition TraceSource :: "('k, 'tr, 'mo, 'tc) ocReceiver \<Rightarrow> string" where
  "TraceSource ocr = oc_source"

definition MetricsSource :: "('k, 'tr, 'mo, 'tc) ocReceiver \<Rightarrow> string" where
  "MetricsSource ocr = oc_source"

definition oc_stop :: "('k, 'tr, 'mo, 'tc) ocReceiver \<Rightarrow> 'se ocError option \<times> ('k, 'tr, 'mo, 'tc) ocReceiver" where
  "oc_stop ocr =
     (if or_stopOnce ocr then (Some AlreadyStopped, ocr)
      else (None, ocr\<lparr>or_stopOnce := True, or_httpClosed := or_httpClosed ocr \<or> or_serverHTTP ocr \<noteq> None,
                      or_lnClosed := True\<rparr>))"

definition oc_Shutdown :: "('k, 'tr, 'mo, 'tc) ocReceiver \<Rightarrow> 'se ocError option \<times> ('k, 'tr, 'mo, 'tc) ocReceiver" where
  "oc_Shutdown ocr =
     (case oc_stop ocr of
        (err, ocr1) \<Rightarrow> if err \<noteq> Some AlreadyStopped then (err, ocr1) else (None, ocr1))"

section \<open>The factory\<close>

text \<open>
  The receivers that have been made, by the address of their configuration. A receiver has an
  address too, its place in the list, since both pipelines share it.
\<close>

record ('k, 'tr, 'mo, 'tc) ocFactory =
  of_heap :: "('k, 'tr, 'mo, 'tc) ocReceiver list"
  of_receivers :: "nat \<Rightarrow> nat option"

datatype createError = OptionsFailed | ListenFailed

definition createReceiver ::
  "(string \<Rightarrow> string \<Rightarrow> 'tc option) \<Rightarrow> (string \<Rightarrow> bool) \<Rightarrow> nat \<Rightarrow> ocConfig \<Rightarrow> ('k, 'tr, 'mo, 'tc) ocFactory \<Rightarrow>
     (createError + nat) \<times> ('k, 'tr, 'mo, 'tc) ocFactory" where
  "createReceiver load listen addr rCfg f =
     (case of_receivers f addr of
        Some r \<Rightarrow> (Inr r, f)
      | None \<Rightarrow>
          (case buildOptions load rCfg of
             Inl err \<Rightarrow> (Inl OptionsFailed, f)
           | Inr opts \<Rightarrow>
               (case ocReceiver_New listen (oc_Endpoint rCfg) None False opts of
                  None \<Rightarrow> (Inl ListenFailed, f)
                | Some receiver \<Rightarrow>
                    (Inr (length (of_heap f)),
                     f\<lparr>of_heap := of_heap f @ [receiver],
                       of_receivers := (of_receivers f)(addr \<mapsto> length (of_heap f))\<rparr>))))"

definition CreateTraceReceiver ::
  "(string \<Rightarrow> string \<Rightarrow> 'tc option) \<Rightarrow> (string \<Rightarrow> bool) \<Rightarrow> nat \<Rightarrow> ocConfig \<Rightarrow> 'k option \<Rightarrow>
     ('k, 'tr, 'mo, 'tc) ocFactory \<Rightarrow> (createError + nat) \<times> ('k, 'tr, 'mo, 'tc) ocFactory" where
  "CreateTraceReceiver load listen addr cfg consumer f =
     (case createReceiver load listen addr cfg f of
        (Inl err, f1) \<Rightarrow> (Inl err, f1)
      | (Inr r, f1) \<Rightarrow>
          (Inr r, f1\<lparr>of_heap := (of_heap f1)[r := (of_heap f1 ! r)\<lparr>or_traceConsumer := consumer\<rparr>]\<rparr>))"

definition CreateMetricsReceiver ::
  "(string \<Rightarrow> string \<Rightarrow> 'tc option) \<Rightarrow> (string \<Rightarrow> bool) \<Rightarrow> nat \<Rightarrow> ocConfig \<Rightarrow> bool \<Rightarrow>
     ('k, 'tr, 'mo, 'tc) ocFactory \<Rightarrow> (createError + nat) \<times> ('k, 'tr, 'mo, 'tc) ocFactory" where
  "CreateMetricsReceiver load listen addr cfg consumer f =
     (case createReceiver load listen addr cfg f of
        (Inl err, f1) \<Rightarrow> (Inl err, f1)
      | (Inr r, f1) \<Rightarrow>
          (Inr r, f1\<lparr>of_heap := (of_heap f1)[r := (of_heap f1 ! r)\<lparr>or_metricsConsumer := consumer\<rparr>]\<rparr>))"

section \<open>Options of a receiver\<close>

lemma applyTraceOptions:
  "New (Some k) (map applyTraceOption (traceReceiverOptions cfg)) =
     Inr \<lparr>backPressureOn = oc_EnableBackPressure cfg,
          maxServerStreams = int64_of_uint64 (oc_MaxServerStreams cfg), nextConsumer = k,
          serverStreamsCount = 0\<rparr>"
  by (auto simp: New_def traceReceiverOptions_def applyTraceOption_def WithBackPressure_def
      WithMaxServerStream_def int64_of_uint64_def word_gt_0)

lemma createReceiver_new:
  assumes "createReceiver load listen addr cfg f = (Inr r, f')" and "of_receivers f addr = None"
  obtains opts ocr where "buildOptions load cfg = Inr opts"
    "ocReceiver_New listen (oc_Endpoint cfg) None False opts = Some ocr" "r = length (of_heap f)"
    "f' = f\<lparr>of_heap := of_heap f @ [ocr], of_receivers := (of_receivers f)(addr \<mapsto> r)\<rparr>"
  using assms by (auto simp: createReceiver_def split: sum.splits option.splits)

text \<open>The gRPC options that take effect: each option of this kind replaces the one before.\<close>

definition effectiveGRPCOptions :: "(string \<Rightarrow> string \<Rightarrow> 'tc option) \<Rightarrow> ocConfig \<Rightarrow> 'tc grpcServerOption list" where
  "effectiveGRPCOptions load cfg =
     (if grpcServerOptions cfg \<noteq> ([] :: 'tc grpcServerOption list) then grpcServerOptions cfg
      else case oc_TLSCredentials cfg of
        None \<Rightarrow> []
      | Some creds \<Rightarrow> (case load (CertFile creds) (KeyFile creds) of None \<Rightarrow> [] | Some tc \<Rightarrow> [Creds tc]))"

lemma new_options:
  assumes "buildOptions load cfg = Inr opts" and "ocReceiver_New listen addr tc mc opts = Some ocr"
  shows "or_grpcServerOptions ocr = effectiveGRPCOptions load cfg"
    and "or_traceReceiverOpts ocr = traceReceiverOptions cfg" and "or_ln ocr = addr"
    and "or_traceConsumer ocr = tc" and "or_metricsConsumer ocr = mc" and "or_corsOrigins ocr = []"
    and "\<not> or_startServerOnce ocr" and "or_services ocr = []"
  using assms
  by (auto simp: buildOptions_def ToOpenCensusReceiverServerOption_def ocReceiver_New_def
      effectiveGRPCOptions_def Let_def split: option.splits if_splits)

lemma no_creds: "Creds tc \<notin> set (grpcServerOptions cfg)"
  by (auto simp: grpcServerOptions_def split: option.splits)

lemma int64_negative:
  assumes "unat w \<ge> 2 ^ 63"
  shows "int64_of_uint64 w < 0"
proof -
  from assms have "int (2 ^ 63) \<le> int (unat w)" by (simp only: of_nat_le_iff)
  then have u: "2 ^ 63 \<le> uint w" "uint w < 2 ^ 64"
    using uint_lt2p [of w] by (simp_all only: of_nat_power of_nat_numeral int_eq_iff uint_nat [symmetric]) simp_all
  then have "uint w div 2 ^ 63 = 1" by (simp add: div_pos_geq)
  then have "bit (uint w) 63" by (simp add: bit_iff_odd)
  then have "sint w = uint w - 2 ^ 64"
    using u by (simp add: sint_uint signed_take_bit_eq_take_bit_minus take_bit_int_eq_self)
  with u show ?thesis by (simp add: int64_of_uint64_def)
qed

section \<open>The map of receivers\<close>

definition factory_inv :: "('k, 'tr, 'mo, 'tc) ocFactory \<Rightarrow> bool" where
  "factory_inv f \<longleftrightarrow> (\<forall>addr r. of_receivers f addr = Some r \<longrightarrow> r < length (of_heap f)) \<and>
     inj_on (of_receivers f) (dom (of_receivers f))"

lemma createReceiver_inv:
  assumes "createReceiver load listen addr cfg f = (Inr r, f')" and "factory_inv f"
  shows "factory_inv f' \<and> of_receivers f' addr = Some r \<and> r < length (of_heap f') \<and>
    (\<forall>other. other \<noteq> addr \<longrightarrow> of_receivers f' other = of_receivers f other) \<and>
    (\<forall>i < length (of_heap f). of_heap f' ! i = of_heap f ! i)"
proof (cases "of_receivers f addr")
  case None
  from assms(1) None show ?thesis
  proof (cases rule: createReceiver_new)
    case (1 opts ocr)
    have "inj_on (of_receivers f') (dom (of_receivers f'))"
    proof (rule inj_onI)
      fix x y assume xy: "x \<in> dom (of_receivers f')" "y \<in> dom (of_receivers f')"
        "of_receivers f' x = of_receivers f' y"
      have lt: "of_receivers f z = Some n \<Longrightarrow> n < length (of_heap f)" for z n
        using assms(2) by (simp add: factory_inv_def)
      have inj: "of_receivers f a = Some n \<Longrightarrow> of_receivers f b = Some n \<Longrightarrow> a = b" for a b n
        using assms(2) by (auto simp: factory_inv_def inj_on_def dom_def)
      from xy lt inj show "x = y" by (auto simp: 1(3,4) dom_def split: if_splits)
    qed
    with assms(2) 1 show ?thesis by (auto simp: factory_inv_def nth_append intro: less_SucI)
  qed
next
  case (Some r')
  with assms show ?thesis by (auto simp: createReceiver_def factory_inv_def)
qed

lemma heap_update_inv: "factory_inv f \<Longrightarrow> factory_inv (f\<lparr>of_heap := (of_heap f)[r := x]\<rparr>)"
  by (simp add: factory_inv_def)

section \<open>Starting twice\<close>

definition notStarted :: "('k, 'tr, 'mo, 'tc) ocReceiver \<Rightarrow> bool" where
  "notStarted ocr \<longleftrightarrow> \<not> or_startServerOnce ocr \<and> \<not> or_startTraceReceiverOnce ocr \<and>
     \<not> or_startMetricsReceiverOnce ocr \<and> or_serverGRPC ocr = None \<and> or_services ocr = [] \<and>
     \<not> or_serving ocr \<and> \<not> or_fatal ocr"

lemma httpServer_simps [simp]:
  "or_services (httpServer ocr) = or_services ocr" "or_fatal (httpServer ocr) = or_fatal ocr"
  "or_serverGRPC (httpServer ocr) = or_serverGRPC ocr"
  "or_traceConsumer (httpServer ocr) = or_traceConsumer ocr"
  "or_metricsConsumer (httpServer ocr) = or_metricsConsumer ocr"
  "or_startServerOnce (httpServer ocr) = or_startServerOnce ocr"
  "or_startTraceReceiverOnce (httpServer ocr) = or_startTraceReceiverOnce ocr"
  "or_startMetricsReceiverOnce (httpServer ocr) = or_startMetricsReceiverOnce ocr"
  "or_traceReceiver (httpServer ocr) = or_traceReceiver ocr"
  by (simp_all add: httpServer_def)

lemma serversStarted_simps [simp]:
  "or_services (serversStarted g h ocr) = or_services ocr" "or_fatal (serversStarted g h ocr) = or_fatal ocr"
  "or_serverGRPC (serversStarted g h ocr) = or_serverGRPC ocr"
  "or_traceConsumer (serversStarted g h ocr) = or_traceConsumer ocr"
  "or_metricsConsumer (serversStarted g h ocr) = or_metricsConsumer ocr"
  "or_startServerOnce (serversStarted g h ocr) = or_startServerOnce ocr"
  "or_startTraceReceiverOnce (serversStarted g h ocr) = or_startTraceReceiverOnce ocr"
  "or_startMetricsReceiverOnce (serversStarted g h ocr) = or_startMetricsReceiverOnce ocr"
  "or_traceReceiver (serversStarted g h ocr) = or_traceReceiver ocr"
  by (simp_all add: serversStarted_def Let_def)

text \<open>A receiver whose pipelines have all been started.\<close>

definition allStarted :: "('k, 'tr, 'mo, 'tc) ocReceiver \<Rightarrow> bool" where
  "allStarted ocr \<longleftrightarrow> or_startServerOnce ocr \<and>
     (or_traceConsumer ocr \<noteq> None \<longrightarrow> or_startTraceReceiverOnce ocr) \<and>
     (or_metricsConsumer ocr \<longrightarrow> or_startMetricsReceiverOnce ocr) \<and>
     (or_traceConsumer ocr \<noteq> None \<or> or_metricsConsumer ocr)"

lemma start_again: "allStarted ocr \<Longrightarrow> oc_start newMetrics out ocr = (None, ocr)"
  by (auto simp: oc_start_def allStarted_def registerTraceConsumer_def registerMetricsConsumer_def
      startServer_def Let_def)

lemma startServer_result:
  assumes "\<not> or_startServerOnce ocr" and "startServer out ocr = (err, ocr1)"
  shows "err = (case out of GatewayFailed e \<Rightarrow> Some (ServerFailed e)
      | ServeReturned e _ _ \<Rightarrow> map_option ServerFailed e | StillRunning _ _ \<Rightarrow> None)"
    and "or_startServerOnce ocr1" and "or_services ocr1 = or_services ocr" and "or_fatal ocr1 = or_fatal ocr"
    and "or_serverGRPC ocr1 = or_serverGRPC ocr" and "or_traceConsumer ocr1 = or_traceConsumer ocr"
    and "or_metricsConsumer ocr1 = or_metricsConsumer ocr"
    and "or_startTraceReceiverOnce ocr1 = or_startTraceReceiverOnce ocr"
    and "or_startMetricsReceiverOnce ocr1 = or_startMetricsReceiverOnce ocr"
    and "or_traceReceiver ocr1 = or_traceReceiver ocr"
  using assms by (auto simp: startServer_def Let_def split: serveOutcome.splits)

lemma registerTrace_result:
  assumes "or_traceConsumer ocr \<noteq> None" and "notStarted ocr" and "registerTraceConsumer ocr = (err, ocr1)"
  shows "err = None" and "or_services ocr1 = [TraceService]" and "\<not> or_fatal ocr1" and "\<not> or_serving ocr1"
    and "or_serverGRPC ocr1 = Some (or_grpcServerOptions ocr)" and "or_startTraceReceiverOnce ocr1"
    and "\<not> or_startServerOnce ocr1" and "\<not> or_startMetricsReceiverOnce ocr1"
    and "or_traceConsumer ocr1 = or_traceConsumer ocr" and "or_metricsConsumer ocr1 = or_metricsConsumer ocr"
    and "or_metricsReceiverOpts ocr1 = or_metricsReceiverOpts ocr"
  using assms
  by (auto simp: registerTraceConsumer_def notStarted_def New_def grpcServer_def registerService_def Let_def)

lemma registerMetrics_result:
  assumes "or_metricsConsumer ocr" and "newMetrics (or_metricsReceiverOpts ocr)"
    and "\<not> or_startMetricsReceiverOnce ocr" and "registerMetricsConsumer newMetrics ocr = (err, ocr1)"
  shows "err = None" and "or_services ocr1 = or_services ocr @ [MetricsService]"
    and "or_fatal ocr1 \<longleftrightarrow> or_fatal ocr \<or> or_serving ocr \<or> MetricsService \<in> set (or_services ocr)"
    and "or_serverGRPC ocr1 = (if or_serverGRPC ocr = None then Some (or_grpcServerOptions ocr) else or_serverGRPC ocr)"
    and "or_startMetricsReceiverOnce ocr1" and "or_startServerOnce ocr1 = or_startServerOnce ocr"
    and "or_startTraceReceiverOnce ocr1 = or_startTraceReceiverOnce ocr"
    and "or_traceConsumer ocr1 = or_traceConsumer ocr" and "or_metricsConsumer ocr1"
  using assms
  by (auto simp: registerMetricsConsumer_def grpcServer_def registerService_def Let_def split: if_splits)

lemma oc_start_first:
  fixes out :: "'se serveOutcome"
  assumes "notStarted ocr" and "or_traceConsumer ocr \<noteq> None \<or> or_metricsConsumer ocr"
    and "or_metricsConsumer ocr \<longrightarrow> newMetrics (or_metricsReceiverOpts ocr)"
    and "oc_start newMetrics out ocr = (err, ocr1)"
  shows "or_services ocr1 = (if or_traceConsumer ocr \<noteq> None then [TraceService] else []) @
      (if or_metricsConsumer ocr then [MetricsService] else []) \<and>
    \<not> or_fatal ocr1 \<and> or_serverGRPC ocr1 = Some (or_grpcServerOptions ocr) \<and> allStarted ocr1 \<and>
    err = (case out of GatewayFailed e \<Rightarrow> Some (ServerFailed e)
      | ServeReturned e _ _ \<Rightarrow> map_option ServerFailed e | StillRunning _ _ \<Rightarrow> None)"
proof -
  obtain err1 :: "'se ocError option" and ocr2 where 1: "(if or_traceConsumer ocr \<noteq> None then registerTraceConsumer ocr else (None, ocr)) = (err1, ocr2)"
    by (rule prod.exhaust)
  obtain err2 :: "'se ocError option" and ocr3 where 2: "(if or_metricsConsumer ocr2 then registerMetricsConsumer newMetrics ocr2 else (None, ocr2)) = (err2, ocr3)"
    by (rule prod.exhaust)
  obtain err3 ocr4 where 3: "startServer out ocr3 = (err3, ocr4)" by (rule prod.exhaust)
  from 1 registerTrace_result [of ocr err1 ocr2] assms(1)
  have t: "err1 = None" "or_services ocr2 = (if or_traceConsumer ocr \<noteq> None then [TraceService] else [])"
    "\<not> or_fatal ocr2" "\<not> or_serving ocr2" "or_metricsConsumer ocr2 = or_metricsConsumer ocr"
    "or_traceConsumer ocr2 = or_traceConsumer ocr" "or_metricsReceiverOpts ocr2 = or_metricsReceiverOpts ocr"
    "or_traceConsumer ocr \<noteq> None \<longrightarrow> or_startTraceReceiverOnce ocr2 \<and> or_serverGRPC ocr2 = Some (or_grpcServerOptions ocr)"
    "or_traceConsumer ocr = None \<longrightarrow> ocr2 = ocr" "\<not> or_startServerOnce ocr2" "\<not> or_startMetricsReceiverOnce ocr2"
    by (auto simp: notStarted_def split: if_splits)
  from 2 registerMetrics_result [of ocr2 newMetrics err2 ocr3] t assms(3)
  have m: "err2 = None" "or_services ocr3 = or_services ocr2 @ (if or_metricsConsumer ocr then [MetricsService] else [])"
    "\<not> or_fatal ocr3" "or_metricsConsumer ocr3 = or_metricsConsumer ocr"
    "or_traceConsumer ocr3 = or_traceConsumer ocr" "\<not> or_startServerOnce ocr3"
    "or_startTraceReceiverOnce ocr3 = or_startTraceReceiverOnce ocr2"
    "or_metricsConsumer ocr \<longrightarrow> or_startMetricsReceiverOnce ocr3"
    "or_serverGRPC ocr3 = Some (or_grpcServerOptions ocr)"
    using assms(1,2) by (auto simp: notStarted_def split: if_splits)
  have "oc_start newMetrics out ocr = (if err3 \<noteq> None \<and> err3 \<noteq> Some AlreadyStarted then (err3, ocr4) else (None, ocr4))"
    unfolding oc_start_def 1 prod.case t(1) Let_def 2 m(1) 3 using assms(2) by auto
  moreover note res = startServer_result [OF m(6) 3]
  then have "err3 \<noteq> Some AlreadyStarted" by (auto split: serveOutcome.splits)
  ultimately have "err = err3" "ocr1 = ocr4" using assms(4) by (auto split: if_splits)
  with res m t assms(2) show ?thesis by (auto simp: allStarted_def)
qed

section \<open>A configuration with credentials\<close>

definition sampleTLSConfig :: ocConfig where
  "sampleTLSConfig = oc_CreateDefaultConfig
     \<lparr>oc_TLSCredentials := Some \<lparr>CertFile = ''cert.pem'', KeyFile = ''key.pem''\<rparr>, oc_MaxRecvMsgSizeMiB := 4,
      oc_MaxServerStreams := 2, oc_EnableBackPressure := True\<rparr>"

definition sampleFactory ::
  "((nat, nat, nat, nat, nat) traceConsumer, (nat, nat, nat, nat, nat) Receiver, unit, string) ocFactory" where
  "sampleFactory = \<lparr>of_heap = [], of_receivers = (\<lambda>_. None)\<rparr>"

lemma sampleFactory_inv: "factory_inv sampleFactory"
  by (simp add: factory_inv_def sampleFactory_def)

definition sampleLoad :: "string \<Rightarrow> string \<Rightarrow> string option" where
  "sampleLoad cert key = Some cert"

definition sampleConsumer :: "(nat, nat, nat, nat, nat) traceConsumer" where
  "sampleConsumer td w = (None, w + 1)"

lemma sampleFactory_creates:
  "\<exists>f'. createReceiver sampleLoad (\<lambda>_. True) 7 sampleTLSConfig sampleFactory = (Inr 0, f')"
  by (simp add: createReceiver_def sampleFactory_def buildOptions_def ToOpenCensusReceiverServerOption_def
      sampleTLSConfig_def oc_CreateDefaultConfig_def sampleLoad_def ocReceiver_New_def Let_def)

section \<open>Properties\<close>

text \<open>
  C33: the options of a receiver made from a configuration. It listens on the endpoint, its trace
  receiver has the back pressure and the limit of the configuration, the limit read as a signed
  number, so that one of \<open>2 ^ 63\<close> or more is no limit; and the credentials of the configuration
  are used only if no other gRPC option is set: with, say, a maximal message size the server
  is made with that option and without TLS.
\<close>

theorem receiver_of_config:
  assumes "createReceiver load listen addr cfg f = (Inr r, f')" and "of_receivers f addr = None"
  shows "or_ln (of_heap f' ! r) = oc_Endpoint cfg \<and>
    New (Some k) (map applyTraceOption (or_traceReceiverOpts (of_heap f' ! r))) =
      Inr \<lparr>backPressureOn = oc_EnableBackPressure cfg,
           maxServerStreams = int64_of_uint64 (oc_MaxServerStreams cfg), nextConsumer = k,
           serverStreamsCount = 0\<rparr> \<and>
    or_grpcServerOptions (of_heap f' ! r) = effectiveGRPCOptions load cfg \<and>
    (0 < oc_MaxRecvMsgSizeMiB cfg \<or> 0 < oc_MaxConcurrentStreams cfg \<longrightarrow>
       (\<forall>tc. Creds tc \<notin> set (or_grpcServerOptions (of_heap f' ! r)))) \<and>
    (unat (oc_MaxServerStreams cfg) \<ge> 2 ^ 63 \<longrightarrow> int64_of_uint64 (oc_MaxServerStreams cfg) < 0)"
  using assms
proof (cases rule: createReceiver_new)
  case (1 opts ocr)
  then have ocr: "of_heap f' ! r = ocr" by simp
  have "Creds tc \<notin> set (effectiveGRPCOptions load cfg)"
    if "0 < oc_MaxRecvMsgSizeMiB cfg \<or> 0 < oc_MaxConcurrentStreams cfg" for tc
    using that no_creds [of tc cfg] by (auto simp: effectiveGRPCOptions_def grpcServerOptions_def)
  with new_options [OF 1(1,2)] int64_negative [of "oc_MaxServerStreams cfg"] show ?thesis
    by (simp add: ocr applyTraceOptions)
qed

theorem receiver_of_config_witness:
  "\<exists>f' r. createReceiver sampleLoad (\<lambda>_. True) 7 sampleTLSConfig sampleFactory = (Inr r, f') \<and>
     or_grpcServerOptions (of_heap f' ! r) = [MaxRecvMsgSize 4194304] \<and> oc_TLSCredentials sampleTLSConfig \<noteq> None"
proof -
  obtain f' where f': "createReceiver sampleLoad (\<lambda>_. True) 7 sampleTLSConfig sampleFactory = (Inr 0, f')"
    using sampleFactory_creates by blast
  have "of_receivers sampleFactory 7 = None" by (simp add: sampleFactory_def)
  note conjunct1 [OF conjunct2 [OF conjunct2 [OF receiver_of_config [OF f' this, of sampleConsumer]]]]
  moreover have "effectiveGRPCOptions sampleLoad sampleTLSConfig = [MaxRecvMsgSize 4194304]"
    "oc_TLSCredentials sampleTLSConfig \<noteq> None"
    by (simp_all add: effectiveGRPCOptions_def grpcServerOptions_def sampleTLSConfig_def
        oc_CreateDefaultConfig_def int64_of_uint64_def)
  ultimately show ?thesis using f' by auto
qed

text \<open>
  One receiver per configuration. Asked for a trace and then for a metrics receiver of the
  same configuration object, the factory makes one receiver, with both consumers, and leaves those
  made before as they were; another configuration object gets a receiver of its own.
\<close>

lemma factory_shares_receiver:
  assumes "CreateTraceReceiver load listen addr cfg tc f = (Inr r, f1)" and "factory_inv f"
  shows "factory_inv f1 \<and> or_traceConsumer (of_heap f1 ! r) = tc \<and>
    (\<forall>i < length (of_heap f). i \<noteq> r \<longrightarrow> of_heap f1 ! i = of_heap f ! i) \<and>
    (\<forall>mc. \<exists>f2. CreateMetricsReceiver load listen addr cfg mc f1 = (Inr r, f2) \<and>
       length (of_heap f2) = length (of_heap f1) \<and>
       or_traceConsumer (of_heap f2 ! r) = tc \<and> or_metricsConsumer (of_heap f2 ! r) = mc) \<and>
    (\<forall>other r' f3. other \<noteq> addr \<and> CreateTraceReceiver load listen other cfg tc f1 = (Inr r', f3) \<longrightarrow> r' \<noteq> r)"
proof -
  from assms(1) obtain f0 where c: "createReceiver load listen addr cfg f = (Inr r, f0)"
    and f1: "f1 = f0\<lparr>of_heap := (of_heap f0)[r := (of_heap f0 ! r)\<lparr>or_traceConsumer := tc\<rparr>]\<rparr>"
    by (auto simp: CreateTraceReceiver_def split: prod.splits sum.splits)
  note inv = createReceiver_inv [OF c assms(2)]
  then have r: "r < length (of_heap f0)" and inv1: "factory_inv f1" and known: "of_receivers f1 addr = Some r"
    using heap_update_inv by (auto simp: f1)
  have "\<exists>f2. CreateMetricsReceiver load listen addr cfg mc f1 = (Inr r, f2) \<and>
       length (of_heap f2) = length (of_heap f1) \<and>
       or_traceConsumer (of_heap f2 ! r) = tc \<and> or_metricsConsumer (of_heap f2 ! r) = mc" for mc
    using r known by (simp add: CreateMetricsReceiver_def createReceiver_def f1)
  moreover have "r' \<noteq> r" if "other \<noteq> addr" "CreateTraceReceiver load listen other cfg tc f1 = (Inr r', f3)"
    for other r' f3
  proof -
    from that(2) obtain f2 where c2: "createReceiver load listen other cfg f1 = (Inr r', f2)"
      by (auto simp: CreateTraceReceiver_def split: prod.splits sum.splits)
    from createReceiver_inv [OF c2 inv1] that(1) known
    have "of_receivers f2 other = Some r'" "of_receivers f2 addr = Some r" "factory_inv f2" by auto
    with that(1) show ?thesis by (auto simp: factory_inv_def inj_on_def dom_def)
  qed
  ultimately show ?thesis using inv inv1 r by (auto simp: f1 nth_list_update)
qed

lemma factory_shares_receiver_witness:
  "\<exists>f1 f2. CreateTraceReceiver sampleLoad (\<lambda>_. True) 7 sampleTLSConfig (Some sampleConsumer) sampleFactory = (Inr 0, f1) \<and>
     CreateMetricsReceiver sampleLoad (\<lambda>_. True) 7 sampleTLSConfig True f1 = (Inr 0, f2) \<and>
     or_metricsConsumer (of_heap f2 ! 0) \<and> or_traceConsumer (of_heap f2 ! 0) = Some sampleConsumer"
proof -
  obtain f' where "createReceiver sampleLoad (\<lambda>_. True) 7 sampleTLSConfig sampleFactory = (Inr 0, f')"
    using sampleFactory_creates by blast
  then obtain f1 where "CreateTraceReceiver sampleLoad (\<lambda>_. True) 7 sampleTLSConfig (Some sampleConsumer) sampleFactory = (Inr 0, f1)"
    by (simp add: CreateTraceReceiver_def)
  with factory_shares_receiver [OF this sampleFactory_inv] show ?thesis by blast
qed

text \<open>
  C34: the shared receiver may be started by each of its pipelines. The first start registers
  each service with a consumer once, before the gRPC server, made with the receiver's options, is
  served, and reports what the servers do in the first second. Every later start changes
  nothing and reports success, even when the servers had failed. Shutting down is
  successful however often it is done.
\<close>

theorem oc_start_once:
  assumes "notStarted ocr" and "or_traceConsumer ocr \<noteq> None \<or> or_metricsConsumer ocr"
    and "or_metricsConsumer ocr \<longrightarrow> newMetrics (or_metricsReceiverOpts ocr)"
    and "oc_start newMetrics out ocr = (err, ocr1)"
  shows "or_services ocr1 = (if or_traceConsumer ocr \<noteq> None then [TraceService] else []) @
      (if or_metricsConsumer ocr then [MetricsService] else []) \<and>
    \<not> or_fatal ocr1 \<and> or_serverGRPC ocr1 = Some (or_grpcServerOptions ocr) \<and>
    err = (case out of GatewayFailed e \<Rightarrow> Some (ServerFailed e)
      | ServeReturned e _ _ \<Rightarrow> map_option ServerFailed e | StillRunning _ _ \<Rightarrow> None) \<and>
    (\<forall>out'. oc_start newMetrics out' ocr1 = (None, ocr1)) \<and>
    (\<exists>ocr2. oc_Shutdown ocr1 = (None, ocr2) \<and> or_stopOnce ocr2 \<and> oc_Shutdown ocr2 = (None, ocr2))"
  using oc_start_first [OF assms] start_again [of ocr1]
  by (auto simp: oc_Shutdown_def oc_stop_def)

theorem oc_start_once_witness:
  "\<exists>ocr ocr1. ocReceiver_New (\<lambda>_. True) ''localhost:0'' (Some sampleConsumer) True
       ([CorsOrigins [''*'']] :: (unit, string) ocOption list) = Some ocr \<and>
     oc_start (\<lambda>_. True) (GatewayFailed ''no gateway'') ocr = (Some (ServerFailed ''no gateway''), ocr1) \<and>
     oc_start (\<lambda>_. True) (GatewayFailed ''no gateway'') ocr1 = (None, ocr1) \<and>
     or_services ocr1 = [TraceService, MetricsService]"
proof -
  obtain ocr :: "((nat, nat, nat, nat, nat) traceConsumer, (nat, nat, nat, nat, nat) Receiver, unit, string) ocReceiver"
    where new: "ocReceiver_New (\<lambda>_. True) ''localhost:0'' (Some sampleConsumer) True [CorsOrigins [''*'']] = Some ocr"
    by (simp add: ocReceiver_New_def Let_def)
  then have fresh: "notStarted ocr" "or_traceConsumer ocr = Some sampleConsumer" "or_metricsConsumer ocr"
    by (auto simp: ocReceiver_New_def notStarted_def Let_def)
  obtain err ocr1 where start: "oc_start (\<lambda>_. True) (GatewayFailed ''no gateway'') ocr = (err, ocr1)"
    by (rule prod.exhaust)
  have "or_traceConsumer ocr \<noteq> None \<or> or_metricsConsumer ocr" "or_metricsConsumer ocr \<longrightarrow> True"
    using fresh(3) by simp_all
  note once = oc_start_once [OF fresh(1) this start]
  from once have "or_services ocr1 = [TraceService, MetricsService]" "err = Some (ServerFailed ''no gateway'')"
    "oc_start (\<lambda>_. True) (GatewayFailed ''no gateway'') ocr1 = (None, ocr1)"
    using fresh(2,3) by auto
  with new start show ?thesis by blast
qed

end
