(* ===== verification/MemoryMonitor.thy ===== *)
theory MemoryMonitor
  imports Prelude
begin

text \<open>
  The memory monitor (\<open>receiver/memorymonitor\<close>): the metric descriptors (\<open>metrics.go\<close>), one scrape
  (\<open>monitor.go\<close>), and the life of the receiver with its scraping goroutine (\<open>receiver.go\<close>), with
  \<open>TimeToTimestamp\<close> (\<open>ptypes/ptime\<close>). The first section has the metric messages of OpenCensus as
  far as this repository reads or writes them.

  Floating-point numbers are only passed on, so their type is a variable; readings of memory, the
  clock, and the conversion of times are parameters.
\<close>

section \<open>Metric messages\<close>

datatype MetricType =
    UNSPECIFIED
  | GAUGE_INT64
  | GAUGE_DOUBLE
  | GAUGE_DISTRIBUTION
  | CUMULATIVE_INT64
  | CUMULATIVE_DOUBLE
  | CUMULATIVE_DISTRIBUTION
  | SUMMARY

record MetricDescriptor =
  md_Name :: string
  md_Description :: string
  md_Unit :: string
  md_Type :: MetricType
  md_LabelKeys :: "string list"

datatype 'd PointValue = Int64Value int | DoubleValue 'd | OtherValue

record ('ts, 'd) Point =
  pt_Timestamp :: "'ts option"
  pt_Value :: "'d PointValue option"

record ('ts, 'd) TimeSeries =
  ts_StartTimestamp :: "'ts option"
  ts_LabelValues :: "string list"
  ts_Points :: "('ts, 'd) Point list"

record ('r, 'ts, 'd) Metric =
  me_MetricDescriptor :: "MetricDescriptor option"
  me_Resource :: "'r option"
  me_Timeseries :: "('ts, 'd) TimeSeries list"

text \<open>A metric whose points carry values of the kind its descriptor announces.\<close>

fun valueOfType :: "MetricType \<Rightarrow> 'd PointValue option \<Rightarrow> bool" where
  "valueOfType GAUGE_INT64 (Some (Int64Value _)) = True"
| "valueOfType CUMULATIVE_INT64 (Some (Int64Value _)) = True"
| "valueOfType GAUGE_DOUBLE (Some (DoubleValue _)) = True"
| "valueOfType CUMULATIVE_DOUBLE (Some (DoubleValue _)) = True"
| "valueOfType GAUGE_DISTRIBUTION (Some OtherValue) = True"
| "valueOfType CUMULATIVE_DISTRIBUTION (Some OtherValue) = True"
| "valueOfType SUMMARY (Some OtherValue) = True"
| "valueOfType _ _ = False"

definition wellTyped :: "('r, 'ts, 'd) Metric \<Rightarrow> bool" where
  "wellTyped m \<longleftrightarrow>
     (case me_MetricDescriptor m of
        None \<Rightarrow> False
      | Some d \<Rightarrow>
          (\<forall>ts \<in> set (me_Timeseries m).
             length (ts_LabelValues ts) = length (md_LabelKeys d) \<and>
             (\<forall>p \<in> set (ts_Points ts). valueOfType (md_Type d) (pt_Value p))))"

section \<open>Descriptors\<close>

definition metricUnitBytes :: string where
  "metricUnitBytes = ''By''"

definition metricUnitPercentage :: string where
  "metricUnitPercentage = ''%''"

definition metricMemUtilization :: MetricDescriptor where
  "metricMemUtilization =
     \<lparr>md_Name = ''memory.utilization'',
      md_Description = ''Percent of memory in use on this host. This metric reports with plugin dimension set to signalfx-metadata.'',
      md_Unit = metricUnitPercentage, md_Type = GAUGE_DOUBLE, md_LabelKeys = []\<rparr>"

definition metricMemUsed :: MetricDescriptor where
  "metricMemUsed =
     \<lparr>md_Name = ''memory.used'', md_Description = ''Bytes of memory in use by the system.'',
      md_Unit = metricUnitBytes, md_Type = GAUGE_INT64, md_LabelKeys = []\<rparr>"

definition metricMemAvailable :: MetricDescriptor where
  "metricMemAvailable =
     \<lparr>md_Name = ''memory.available'', md_Description = ''(Windows Only) Bytes of memory available for use.'',
      md_Unit = metricUnitBytes, md_Type = GAUGE_INT64, md_LabelKeys = []\<rparr>"

definition metricMemFree :: MetricDescriptor where
  "metricMemFree =
     \<lparr>md_Name = ''memory.free'', md_Description = ''(Linux Only) Bytes of memory available for use.'',
      md_Unit = metricUnitBytes, md_Type = GAUGE_INT64, md_LabelKeys = []\<rparr>"

definition metricMemActive :: MetricDescriptor where
  "metricMemActive =
     \<lparr>md_Name = ''memory.active'', md_Description = ''(Darwin Only) Active memory.'',
      md_Unit = metricUnitBytes, md_Type = GAUGE_INT64, md_LabelKeys = []\<rparr>"

definition metricMemInactive :: MetricDescriptor where
  "metricMemInactive =
     \<lparr>md_Name = ''memory.inactive'', md_Description = ''(Darwin Only) Inactive memory.'',
      md_Unit = metricUnitBytes, md_Type = GAUGE_INT64, md_LabelKeys = []\<rparr>"

definition metricMemWired :: MetricDescriptor where
  "metricMemWired =
     \<lparr>md_Name = ''memory.wired'', md_Description = ''(Darwin Only) Wired memory.'',
      md_Unit = metricUnitBytes, md_Type = GAUGE_INT64, md_LabelKeys = []\<rparr>"

definition metricMemBuffered :: MetricDescriptor where
  "metricMemBuffered =
     \<lparr>md_Name = ''memory.buffered'', md_Description = ''(Linux Only) Bytes of memory used for buffering I/O.'',
      md_Unit = metricUnitBytes, md_Type = GAUGE_INT64, md_LabelKeys = []\<rparr>"

definition metricMemCached :: MetricDescriptor where
  "metricMemCached =
     \<lparr>md_Name = ''memory.cached'', md_Description = ''(Linux Only) Bytes of memory used for disk caching.'',
      md_Unit = metricUnitBytes, md_Type = GAUGE_INT64, md_LabelKeys = []\<rparr>"

definition metricMemSlabRecl :: MetricDescriptor where
  "metricMemSlabRecl =
     \<lparr>md_Name = ''memory.slab_reclaimable'',
      md_Description = ''(Linux Only) Bytes of memory used for SLAB-allocation of kernel objects that can be reclaimed'',
      md_Unit = metricUnitBytes, md_Type = GAUGE_INT64, md_LabelKeys = []\<rparr>"

definition metricMemSlabUnrecl :: MetricDescriptor where
  "metricMemSlabUnrecl =
     \<lparr>md_Name = ''memory.slab_unreclaimable'',
      md_Description = ''(Linux Only) Bytes of memory used for SLAB-allocation of kernel objects that cannot be reclaimed'',
      md_Unit = metricUnitBytes, md_Type = GAUGE_INT64, md_LabelKeys = []\<rparr>"

definition allMetrics :: "MetricDescriptor list" where
  "allMetrics =
     [metricMemUtilization, metricMemUsed, metricMemAvailable, metricMemFree, metricMemActive,
      metricMemInactive, metricMemWired, metricMemBuffered, metricMemCached, metricMemSlabRecl,
      metricMemSlabUnrecl]"

lemmas descriptor_defs =
  metricMemUtilization_def metricMemUsed_def metricMemAvailable_def metricMemFree_def metricMemActive_def
  metricMemInactive_def metricMemWired_def metricMemBuffered_def metricMemCached_def metricMemSlabRecl_def
  metricMemSlabUnrecl_def

lemma descriptor_types [simp]:
  "md_Type metricMemUtilization = GAUGE_DOUBLE" "md_LabelKeys metricMemUtilization = []"
  "md_Type metricMemUsed = GAUGE_INT64" "md_LabelKeys metricMemUsed = []"
  "md_Type metricMemAvailable = GAUGE_INT64" "md_LabelKeys metricMemAvailable = []"
  "md_Type metricMemFree = GAUGE_INT64" "md_LabelKeys metricMemFree = []"
  "md_Type metricMemActive = GAUGE_INT64" "md_LabelKeys metricMemActive = []"
  "md_Type metricMemInactive = GAUGE_INT64" "md_LabelKeys metricMemInactive = []"
  "md_Type metricMemWired = GAUGE_INT64" "md_LabelKeys metricMemWired = []"
  "md_Type metricMemBuffered = GAUGE_INT64" "md_LabelKeys metricMemBuffered = []"
  "md_Type metricMemCached = GAUGE_INT64" "md_LabelKeys metricMemCached = []"
  "md_Type metricMemSlabRecl = GAUGE_INT64" "md_LabelKeys metricMemSlabRecl = []"
  "md_Type metricMemSlabUnrecl = GAUGE_INT64" "md_LabelKeys metricMemSlabUnrecl = []"
  by (simp_all add: descriptor_defs)

lemma descriptor_names [simp]:
  "md_Name metricMemUtilization = ''memory.utilization''"
  "md_Name metricMemUsed = ''memory.used''"
  "md_Name metricMemAvailable = ''memory.available''"
  "md_Name metricMemFree = ''memory.free''"
  "md_Name metricMemActive = ''memory.active''"
  "md_Name metricMemInactive = ''memory.inactive''"
  "md_Name metricMemWired = ''memory.wired''"
  "md_Name metricMemBuffered = ''memory.buffered''"
  "md_Name metricMemCached = ''memory.cached''"
  "md_Name metricMemSlabRecl = ''memory.slab_reclaimable''"
  "md_Name metricMemSlabUnrecl = ''memory.slab_unreclaimable''"
  by (simp_all add: descriptor_defs)

section \<open>One scrape\<close>

definition windowsOS :: string where
  "windowsOS = ''windows''"

definition darwinOS :: string where
  "darwinOS = ''darwin''"

definition linuxOS :: string where
  "linuxOS = ''linux''"

text \<open>What \<open>mem.VirtualMemory\<close> reports.\<close>

record 'd VirtualMemoryStat =
  UsedPercent :: 'd
  Used :: u64
  Available :: u64
  Free :: u64
  Active :: u64
  Inactive :: u64
  Wired :: u64
  Buffers :: u64
  Cached :: u64
  SReclaimable :: u64
  Slab :: u64

text \<open>
  The monitor; \<open>mo_stopCh\<close> is \<open>None\<close> before \<open>start\<close> and then tells whether the channel is closed.
  Metrics go to the consumer, \<open>mo_emitted\<close>.
\<close>

record ('r, 'ts, 'd) Monitor =
  mo_resource :: "'r option"
  mo_startTime :: int
  mo_stopCh :: "bool option"
  mo_emitted :: "('r, 'ts, 'd) Metric list list"

definition TimeToTimestamp :: "(int \<Rightarrow> 'ts option) \<Rightarrow> int \<Rightarrow> 'ts option" where
  "TimeToTimestamp timestampProto t = (case timestampProto t of Some ts \<Rightarrow> Some ts | None \<Rightarrow> None)"

definition getTimeSeries ::
  "(int \<Rightarrow> 'ts option) \<Rightarrow> ('r, 'ts, 'd) Monitor \<Rightarrow> ('ts, 'd) Point \<Rightarrow> ('ts, 'd) TimeSeries" where
  "getTimeSeries proto m p =
     \<lparr>ts_StartTimestamp = TimeToTimestamp proto (mo_startTime m), ts_LabelValues = [], ts_Points = [p]\<rparr>"

definition getInt64TimeSeries ::
  "(int \<Rightarrow> 'ts option) \<Rightarrow> ('r, 'ts, 'd) Monitor \<Rightarrow> int \<Rightarrow> u64 \<Rightarrow> ('ts, 'd) TimeSeries" where
  "getInt64TimeSeries proto m now val =
     getTimeSeries proto m
       \<lparr>pt_Timestamp = TimeToTimestamp proto now, pt_Value = Some (Int64Value (int64_of_uint64 val))\<rparr>"

definition getDoubleTimeSeries ::
  "(int \<Rightarrow> 'ts option) \<Rightarrow> ('r, 'ts, 'd) Monitor \<Rightarrow> int \<Rightarrow> 'd \<Rightarrow> ('ts, 'd) TimeSeries" where
  "getDoubleTimeSeries proto m now val =
     getTimeSeries proto m
       \<lparr>pt_Timestamp = TimeToTimestamp proto now, pt_Value = Some (DoubleValue val)\<rparr>"

type_synonym ('ts, 'd) timeSeries = "MetricDescriptor \<times> ('ts, 'd) TimeSeries"

text \<open>\<open>now\<close> is the clock: the time of each series of the scrape, by its place.\<close>

definition appendWindowsMetrics ::
  "(int \<Rightarrow> 'ts option) \<Rightarrow> ('r, 'ts, 'd) Monitor \<Rightarrow> (nat \<Rightarrow> int) \<Rightarrow> ('ts, 'd) timeSeries list \<Rightarrow>
     'd VirtualMemoryStat \<Rightarrow> ('ts, 'd) timeSeries list" where
  "appendWindowsMetrics proto m now metrics memInfo =
     metrics @ [(metricMemAvailable, getInt64TimeSeries proto m (now (length metrics)) (Available memInfo))]"

definition appendNonWindowsMetrics ::
  "(int \<Rightarrow> 'ts option) \<Rightarrow> ('r, 'ts, 'd) Monitor \<Rightarrow> (nat \<Rightarrow> int) \<Rightarrow> ('ts, 'd) timeSeries list \<Rightarrow>
     'd VirtualMemoryStat \<Rightarrow> ('ts, 'd) timeSeries list" where
  "appendNonWindowsMetrics proto m now metrics memInfo =
     metrics @ [(metricMemFree, getInt64TimeSeries proto m (now (length metrics)) (Free memInfo))]"

definition appendDarwinMetrics ::
  "(int \<Rightarrow> 'ts option) \<Rightarrow> ('r, 'ts, 'd) Monitor \<Rightarrow> (nat \<Rightarrow> int) \<Rightarrow> ('ts, 'd) timeSeries list \<Rightarrow>
     'd VirtualMemoryStat \<Rightarrow> ('ts, 'd) timeSeries list" where
  "appendDarwinMetrics proto m now metrics memInfo =
     (let n = length metrics in
      metrics @
        [(metricMemActive, getInt64TimeSeries proto m (now n) (Active memInfo)),
         (metricMemInactive, getInt64TimeSeries proto m (now (n + 1)) (Inactive memInfo)),
         (metricMemWired, getInt64TimeSeries proto m (now (n + 2)) (Wired memInfo))])"

definition appendLinuxMetrics ::
  "(int \<Rightarrow> 'ts option) \<Rightarrow> ('r, 'ts, 'd) Monitor \<Rightarrow> (nat \<Rightarrow> int) \<Rightarrow> ('ts, 'd) timeSeries list \<Rightarrow>
     'd VirtualMemoryStat \<Rightarrow> ('ts, 'd) timeSeries list" where
  "appendLinuxMetrics proto m now metrics memInfo =
     (let n = length metrics in
      metrics @
        [(metricMemBuffered, getInt64TimeSeries proto m (now n) (Buffers memInfo)),
         (metricMemCached, getInt64TimeSeries proto m (now (n + 1)) (Cached memInfo - SReclaimable memInfo)),
         (metricMemSlabRecl, getInt64TimeSeries proto m (now (n + 2)) (SReclaimable memInfo)),
         (metricMemSlabUnrecl, getInt64TimeSeries proto m (now (n + 3)) (Slab memInfo - SReclaimable memInfo))])"

definition toPBMetrics ::
  "('r, 'ts, 'd) Monitor \<Rightarrow> ('ts, 'd) timeSeries list \<Rightarrow> ('r, 'ts, 'd) Metric list" where
  "toPBMetrics m tsMetrics =
     map (\<lambda>(metric, value). \<lparr>me_MetricDescriptor = Some metric, me_Resource = mo_resource m,
                            me_Timeseries = [value]\<rparr>) tsMetrics"

definition scrapeAndEmit ::
  "string \<Rightarrow> (int \<Rightarrow> 'ts option) \<Rightarrow> (nat \<Rightarrow> int) \<Rightarrow> 'd VirtualMemoryStat option \<Rightarrow>
     ('r, 'ts, 'd) Monitor \<Rightarrow> ('r, 'ts, 'd) Monitor" where
  "scrapeAndEmit goos proto now virtualMemory m =
     (case virtualMemory of
        None \<Rightarrow> m
      | Some memInfo \<Rightarrow>
          let metrics =
                [(metricMemUtilization, getDoubleTimeSeries proto m (now 0) (UsedPercent memInfo)),
                 (metricMemUsed, getInt64TimeSeries proto m (now 1) (Used memInfo))];
              metrics1 = (if goos = windowsOS then appendWindowsMetrics proto m now metrics memInfo else metrics);
              metrics2 = (if goos \<noteq> windowsOS then appendNonWindowsMetrics proto m now metrics1 memInfo else metrics1);
              metrics3 = (if goos = darwinOS then appendDarwinMetrics proto m now metrics2 memInfo else metrics2);
              metrics4 = (if goos = linuxOS then appendLinuxMetrics proto m now metrics3 memInfo else metrics3)
          in m\<lparr>mo_emitted := mo_emitted m @ [toPBMetrics m metrics4]\<rparr>)"

section \<open>The life of the receiver\<close>

definition mm_typeStr :: string where
  "mm_typeStr = ''memorymonitor''"

definition mm_Type :: string where
  "mm_Type = mm_typeStr"

definition mm_CustomUnmarshaler :: "'unmarshaler option" where
  "mm_CustomUnmarshaler = None"

text \<open>Of the embedded \<open>ReceiverSettings\<close> the code sets the type and the name.\<close>

record mmConfig =
  mm_TypeVal :: string
  mm_NameVal :: string
  mm_ScrapeInterval :: int

definition mm_defaultScrapeInterval :: int where
  "mm_defaultScrapeInterval = 10 * 1000000000"

definition mm_CreateDefaultConfig :: mmConfig where
  "mm_CreateDefaultConfig = \<lparr>mm_TypeVal = mm_typeStr, mm_NameVal = mm_typeStr, mm_ScrapeInterval = mm_defaultScrapeInterval\<rparr>"

record ('r, 'ts, 'd) mmReceiver =
  mr_stopOnce :: bool
  mr_startOnce :: bool
  mr_monitor :: "('r, 'ts, 'd) Monitor option"
  mr_scrapeInterval :: int

definition mm_CreateMetricsReceiver :: "mmConfig \<Rightarrow> ('r, 'ts, 'd) mmReceiver" where
  "mm_CreateMetricsReceiver c =
     \<lparr>mr_stopOnce = False, mr_startOnce = False, mr_monitor = None,
      mr_scrapeInterval = mm_ScrapeInterval c\<rparr>"

text \<open>\<open>NewTicker\<close> panics on an interval that is not positive; the channel has been made by then.\<close>

definition monitor_start :: "int \<Rightarrow> ('r, 'ts, 'd) Monitor \<Rightarrow> panic option \<times> ('r, 'ts, 'd) Monitor" where
  "monitor_start interval m =
     (let m1 = m\<lparr>mo_stopCh := Some False\<rparr>
      in if interval \<le> 0 then (Some NonPositiveTicker, m1) else (None, m1))"

text \<open>Closing a nil channel is a panic too, here that of a nil pointer.\<close>

definition monitor_stop :: "('r, 'ts, 'd) Monitor \<Rightarrow> panic + ('r, 'ts, 'd) Monitor" where
  "monitor_stop m =
     (case mo_stopCh m of
        None \<Rightarrow> Inl NilDereference
      | Some closed \<Rightarrow>
          (case close_signal closed of
             Inl p \<Rightarrow> Inl p
           | Inr closed' \<Rightarrow> Inr (m\<lparr>mo_stopCh := Some closed'\<rparr>)))"

text \<open>
  \<open>detectResource\<close> copies type and labels of what \<open>auto.Detect\<close> finds: an error, no resource, or one.
\<close>

record resource =
  rs_Type :: string
  rs_Labels :: "string \<Rightarrow> string option"

definition detectResource :: "('e + resource option) \<Rightarrow> 'e + resource option" where
  "detectResource detected =
     (case detected of
        Inl err \<Rightarrow> Inl err
      | Inr None \<Rightarrow> Inr None
      | Inr (Some res) \<Rightarrow> Inr (Some \<lparr>rs_Type = rs_Type res, rs_Labels = rs_Labels res\<rparr>))"

datatype 'e startResult = Started | DetectionFailed 'e | StartPanicked panic

definition mm_Start ::
  "'e + resource option \<Rightarrow> int \<Rightarrow> (resource, 'ts, 'd) mmReceiver \<Rightarrow>
     'e startResult \<times> (resource, 'ts, 'd) mmReceiver" where
  "mm_Start detected now r =
     (if mr_startOnce r then (Started, r)
      else
        let r1 = r\<lparr>mr_startOnce := True\<rparr> in
        (case detectResource detected of
           Inl err \<Rightarrow> (DetectionFailed err, r1)
         | Inr rsc \<Rightarrow>
             let m = \<lparr>mo_resource = rsc, mo_startTime = now, mo_stopCh = None, mo_emitted = []\<rparr> in
             (case monitor_start (mr_scrapeInterval r1) m of
                (Some p, m1) \<Rightarrow> (StartPanicked p, r1\<lparr>mr_monitor := Some m1\<rparr>)
              | (None, m1) \<Rightarrow> (Started, r1\<lparr>mr_monitor := Some m1\<rparr>))))"

definition mm_Shutdown :: "('r, 'ts, 'd) mmReceiver \<Rightarrow> panic option \<times> ('r, 'ts, 'd) mmReceiver" where
  "mm_Shutdown r =
     (if mr_stopOnce r then (None, r)
      else
        let r1 = r\<lparr>mr_stopOnce := True\<rparr> in
        (case mr_monitor r1 of
           None \<Rightarrow> (Some NilDereference, r1)
         | Some m \<Rightarrow>
             (case monitor_stop m of
                Inl p \<Rightarrow> (Some p, r1)
              | Inr m1 \<Rightarrow> (None, r1\<lparr>mr_monitor := Some m1\<rparr>))))"

section \<open>Lemmas\<close>

lemma int64_small: "unat w < 2 ^ 63 \<Longrightarrow> int64_of_uint64 w = int (unat w)"
proof -
  assume "unat w < 2 ^ 63"
  then have "int (unat w) < int (2 ^ 63)" by (simp only: of_nat_less_iff)
  then have u: "uint w < 2 ^ 63" by (simp only: of_nat_power of_nat_numeral uint_nat [symmetric])
  have "sint w = signed_take_bit 63 (uint w)" by (simp add: sint_uint)
  also have "\<dots> = uint w"
    by (rule signed_take_bit_int_eq_self) (use u uint_ge_0 [of w] in linarith)+
  finally show ?thesis by (simp add: int64_of_uint64_def)
qed

lemma int64_diff:
  assumes "unat a < 2 ^ 63" and "unat b < 2 ^ 63"
  shows "int64_of_uint64 (a - b) = int (unat a) - int (unat b)"
proof -
  have lt: "uint w < 2 ^ 63" if "unat w < 2 ^ 63" for w :: u64
  proof -
    from that have "int (unat w) < int (2 ^ 63)" by (simp only: of_nat_less_iff)
    then show ?thesis by (simp only: of_nat_power of_nat_numeral uint_nat [symmetric])
  qed
  note ab = lt [OF assms(1)] lt [OF assms(2)] uint_ge_0 [of a] uint_ge_0 [of b]
  have "sint (a - b) = signed_take_bit (64 - 1) (uint a - uint b)"
    by (simp only: word_sub_wi sint_sbintrunc' len_of_numeral_defs) simp
  also have "\<dots> = signed_take_bit 63 (uint a - uint b)" by simp
  also have "\<dots> = uint a - uint b"
    by (rule signed_take_bit_int_eq_self) (use ab in linarith)+
  finally show ?thesis by (simp add: int64_of_uint64_def)
qed

text \<open>The metric of a name, and the value of its one point.\<close>

definition metricNames :: "('r, 'ts, 'd) Metric list \<Rightarrow> string list" where
  "metricNames ms = map (\<lambda>me. case me_MetricDescriptor me of None \<Rightarrow> [] | Some d \<Rightarrow> md_Name d) ms"

definition emittedMetrics ::
  "string \<Rightarrow> (int \<Rightarrow> 'ts option) \<Rightarrow> (nat \<Rightarrow> int) \<Rightarrow> 'd VirtualMemoryStat \<Rightarrow> ('r, 'ts, 'd) Monitor \<Rightarrow>
     ('r, 'ts, 'd) Metric list" where
  "emittedMetrics goos proto now memInfo m = last (mo_emitted (scrapeAndEmit goos proto now (Some memInfo) m))"

lemma scrape_emits:
  "scrapeAndEmit goos proto now (Some memInfo) m =
     m\<lparr>mo_emitted := mo_emitted m @ [emittedMetrics goos proto now memInfo m]\<rparr>"
  by (simp add: emittedMetrics_def scrapeAndEmit_def Let_def)

lemmas scrape_defs =
  emittedMetrics_def scrapeAndEmit_def appendWindowsMetrics_def appendNonWindowsMetrics_def
  appendDarwinMetrics_def appendLinuxMetrics_def toPBMetrics_def getInt64TimeSeries_def
  getDoubleTimeSeries_def getTimeSeries_def windowsOS_def darwinOS_def linuxOS_def Let_def

lemma emitted_wellTyped:
  "\<forall>me \<in> set (emittedMetrics goos proto now memInfo m). wellTyped me \<and> me_Resource me = mo_resource m \<and>
     (\<exists>ts p. me_Timeseries me = [ts] \<and> ts_Points ts = [p] \<and>
        ts_StartTimestamp ts = proto (mo_startTime m)) \<and>
     (\<exists>d \<in> set allMetrics. me_MetricDescriptor me = Some d)"
  by (simp add: scrape_defs wellTyped_def allMetrics_def TimeToTimestamp_def split: option.splits)

lemma emitted_names:
  "metricNames (emittedMetrics goos proto now memInfo m) =
     [''memory.utilization'', ''memory.used''] @
     (if goos = ''windows'' then [''memory.available''] else [''memory.free'']) @
     (if goos = ''darwin'' then [''memory.active'', ''memory.inactive'', ''memory.wired''] else []) @
     (if goos = ''linux''
      then [''memory.buffered'', ''memory.cached'', ''memory.slab_reclaimable'', ''memory.slab_unreclaimable'']
      else [])"
  by (simp add: metricNames_def scrape_defs)

section \<open>Properties\<close>

text \<open>
  C35: what a scrape emits is well typed. On every operating system each metric is one of the
  descriptors of \<open>metrics.go\<close> with exactly one series, which starts when the monitor did and has
  exactly one point, whose value is of the kind the
  descriptor announces, and a label value for each label key; no name occurs
  twice, and which metrics there are depends on the operating system alone. A failed reading
  emits nothing.
\<close>

theorem scrape_wellTyped:
  "scrapeAndEmit goos proto now None m = m \<and>
   (\<exists>ms. scrapeAndEmit goos proto now (Some memInfo) m = m\<lparr>mo_emitted := mo_emitted m @ [ms]\<rparr> \<and>
      list_all (\<lambda>me. wellTyped me \<and> me_Resource me = mo_resource m \<and>
        (\<exists>ts p. me_Timeseries me = [ts] \<and> ts_Points ts = [p] \<and>
           ts_StartTimestamp ts = proto (mo_startTime m)) \<and> list_ex (\<lambda>d. me_MetricDescriptor me = Some d) allMetrics) ms \<and>
      distinct (metricNames ms) \<and>
      metricNames ms = [''memory.utilization'', ''memory.used''] @
        (if goos = ''windows'' then [''memory.available''] else [''memory.free'']) @
        (if goos = ''darwin'' then [''memory.active'', ''memory.inactive'', ''memory.wired''] else []) @
        (if goos = ''linux''
         then [''memory.buffered'', ''memory.cached'', ''memory.slab_reclaimable'', ''memory.slab_unreclaimable'']
         else []))"
proof (intro conjI exI)
  show "scrapeAndEmit goos proto now None m = m" by (simp add: scrapeAndEmit_def)
  show "scrapeAndEmit goos proto now (Some memInfo) m =
      m\<lparr>mo_emitted := mo_emitted m @ [emittedMetrics goos proto now memInfo m]\<rparr>"
    by (rule scrape_emits)
  show "list_all (\<lambda>me. wellTyped me \<and> me_Resource me = mo_resource m \<and>
        (\<exists>ts p. me_Timeseries me = [ts] \<and> ts_Points ts = [p] \<and>
           ts_StartTimestamp ts = proto (mo_startTime m)) \<and> list_ex (\<lambda>d. me_MetricDescriptor me = Some d) allMetrics)
      (emittedMetrics goos proto now memInfo m)"
    using emitted_wellTyped [of goos proto now memInfo m] by (auto simp: list_all_iff list_ex_iff)
  show "distinct (metricNames (emittedMetrics goos proto now memInfo m))"
    by (simp add: emitted_names)
qed (rule emitted_names)

text \<open>
  C36: the byte counts are exact. For readings below \<open>2 ^ 63\<close> each point of a scrape on Linux
  holds the reading as it is, and the two that are differences, the cache and the
  unreclaimable slab without the reclaimable slab, hold the true difference, which is negative
  when the second reading is the larger: the unsigned subtraction and the conversion to a signed
  number cancel out.
\<close>

theorem scrape_values_exact:
  assumes "unat (Used v) < 2 ^ 63" and "unat (Free v) < 2 ^ 63" and "unat (Buffers v) < 2 ^ 63"
    and "unat (Cached v) < 2 ^ 63" and "unat (SReclaimable v) < 2 ^ 63" and "unat (Slab v) < 2 ^ 63"
  shows "map (\<lambda>me. pt_Value (hd (ts_Points (hd (me_Timeseries me)))))
      (last (mo_emitted (scrapeAndEmit ''linux'' proto now (Some v) m))) =
    map Some [DoubleValue (UsedPercent v), Int64Value (int (unat (Used v))), Int64Value (int (unat (Free v))),
      Int64Value (int (unat (Buffers v))),
      Int64Value (int (unat (Cached v)) - int (unat (SReclaimable v))),
      Int64Value (int (unat (SReclaimable v))),
      Int64Value (int (unat (Slab v)) - int (unat (SReclaimable v)))]"
  using assms by (simp add: scrape_defs int64_small int64_diff)

theorem scrape_values_exact_witness:
  "\<exists>v :: unit VirtualMemoryStat. map (\<lambda>me. pt_Value (hd (ts_Points (hd (me_Timeseries me)))))
      (last (mo_emitted (scrapeAndEmit ''linux'' Some (\<lambda>_. 0) (Some v)
        \<lparr>mo_resource = None :: unit option, mo_startTime = 0, mo_stopCh = None, mo_emitted = []\<rparr>))) ! 6 =
    Some (Int64Value (- 2))"
proof -
  let ?v = "\<lparr>UsedPercent = (), Used = 50, Available = 0, Free = 10, Active = 0, Inactive = 0, Wired = 0,
    Buffers = 1, Cached = 20, SReclaimable = 5, Slab = 3\<rparr>"
  show ?thesis
    using scrape_values_exact [of ?v Some "\<lambda>_. 0" "\<lparr>mo_resource = None :: unit option, mo_startTime = 0,
        mo_stopCh = None, mo_emitted = []\<rparr>"]
    by (intro exI [of _ ?v]) simp
qed

text \<open>
  The life of the receiver. A start whose resource is detected and whose interval is positive
  runs the monitor, and shutting down then closes its channel once, however often it is called;
  a second start does nothing. But a start panics on an interval that is not positive, and
  shutting down panics when the receiver was never started or its resource could not be detected.
\<close>

lemma mm_lifecycle:
  "let r0 = mm_CreateMetricsReceiver c;
       (result, r1) = mm_Start detected now r0;
       (p, r2) = mm_Shutdown r1
   in (result = Started \<longleftrightarrow> (\<exists>rsc. detected = Inr rsc) \<and> 0 < mm_ScrapeInterval c) \<and>
      (result = StartPanicked NonPositiveTicker \<longleftrightarrow> (\<exists>rsc. detected = Inr rsc) \<and> mm_ScrapeInterval c \<le> 0) \<and>
      (p = (case detected of Inl err \<Rightarrow> Some NilDereference | Inr rsc \<Rightarrow> None)) \<and>
      map_option mo_stopCh (mr_monitor r2) = (case detected of Inl err \<Rightarrow> None | Inr rsc \<Rightarrow> Some (Some True)) \<and>
      mm_Start detected' now' r1 = (Started, r1) \<and> mm_Shutdown r2 = (None, r2) \<and>
      fst (mm_Shutdown r0) = Some NilDereference"
  by (simp add: mm_CreateMetricsReceiver_def mm_Start_def mm_Shutdown_def detectResource_def monitor_start_def
      monitor_stop_def close_signal_def Let_def split: sum.split option.split)

end
