(* ===== verification/SignalFx.thy ===== *)
theory SignalFx
  imports MemoryMonitor
begin

text \<open>
  The translation of OpenCensus metrics to SignalFx datapoints
  (\<open>translator/metric/signalfx/opencensus_to_signalfx.go\<close>). Numbers of the protocol that are absent
  read as zero, as the getters of the generated code do. \<open>fromProto\<close> stands for
  \<open>TimestampFromProto\<close>, which rejects times out of range.
\<close>

section \<open>Datapoints\<close>

datatype 'd dpValue = FloatValue 'd | IntValue int

text \<open>Of the metric types of the datapoint library the code names two.\<close>

datatype dpType = Counter | Gauge | OtherMetricType

text \<open>A nil value and a zero time are \<open>None\<close>.\<close>

record ('t, 'd) Datapoint =
  dp_Metric :: string
  dp_Timestamp :: "'t option"
  dp_Value :: "'d dpValue option"
  dp_MetricType :: dpType
  dp_Dimensions :: "(string \<times> string) list"

record ('n, 'r, 'ts, 'd) MetricsData =
  mda_Node :: "'n option"
  mda_Resource :: "'r option"
  mda_Metrics :: "('r, 'ts, 'd) Metric list"

section \<open>Translation\<close>

fun GetInt64Value :: "'d PointValue option \<Rightarrow> int" where
  "GetInt64Value (Some (Int64Value n)) = n"
| "GetInt64Value _ = 0"

fun GetDoubleValue :: "'d :: zero PointValue option \<Rightarrow> 'd" where
  "GetDoubleValue (Some (DoubleValue d)) = d"
| "GetDoubleValue _ = 0"

text \<open>
  \<open>unset\<close> is the zero value of the library's metric type, which a datapoint keeps when the second
  switch sets none.
\<close>

definition datapointOf ::
  "('ts \<Rightarrow> 't option) \<Rightarrow> dpType \<Rightarrow> MetricDescriptor \<Rightarrow> ('ts, 'd :: zero) Point \<Rightarrow> ('t, 'd) Datapoint" where
  "datapointOf fromProto unset descriptor pt =
     \<lparr>dp_Metric = md_Name descriptor,
      dp_Timestamp = (case pt_Timestamp pt of None \<Rightarrow> None | Some pts \<Rightarrow> fromProto pts),
      dp_Value =
        (case md_Type descriptor of
           CUMULATIVE_DOUBLE \<Rightarrow> Some (FloatValue (GetDoubleValue (pt_Value pt)))
         | GAUGE_DOUBLE \<Rightarrow> Some (FloatValue (GetDoubleValue (pt_Value pt)))
         | CUMULATIVE_INT64 \<Rightarrow> Some (IntValue (GetInt64Value (pt_Value pt)))
         | GAUGE_INT64 \<Rightarrow> Some (IntValue (GetInt64Value (pt_Value pt)))
         | _ \<Rightarrow> None),
      dp_MetricType =
        (case md_Type descriptor of
           CUMULATIVE_DOUBLE \<Rightarrow> Counter
         | CUMULATIVE_INT64 \<Rightarrow> Counter
         | GAUGE_DOUBLE \<Rightarrow> Gauge
         | GAUGE_INT64 \<Rightarrow> Gauge
         | _ \<Rightarrow> unset),
      dp_Dimensions = [(''translator'', ''otel'')]\<rparr>"

text \<open>The two loops over the series of a metric and the points of a series.\<close>

fun pointLoop ::
  "('ts \<Rightarrow> 't option) \<Rightarrow> dpType \<Rightarrow> MetricDescriptor \<Rightarrow> ('ts, 'd :: zero) Point list \<Rightarrow> ('t, 'd) Datapoint list \<Rightarrow>
     ('t, 'd) Datapoint list" where
  "pointLoop fromProto unset descriptor [] dps = dps"
| "pointLoop fromProto unset descriptor (pt # pts) dps =
     pointLoop fromProto unset descriptor pts (dps @ [datapointOf fromProto unset descriptor pt])"

fun seriesLoop ::
  "('ts \<Rightarrow> 't option) \<Rightarrow> dpType \<Rightarrow> MetricDescriptor \<Rightarrow> ('ts, 'd :: zero) TimeSeries list \<Rightarrow> ('t, 'd) Datapoint list \<Rightarrow>
     ('t, 'd) Datapoint list" where
  "seriesLoop fromProto unset descriptor [] dps = dps"
| "seriesLoop fromProto unset descriptor (ts # tss) dps =
     seriesLoop fromProto unset descriptor tss (pointLoop fromProto unset descriptor (ts_Points ts) dps)"

definition translateAndAppend ::
  "('ts \<Rightarrow> 't option) \<Rightarrow> dpType \<Rightarrow> ('t, 'd :: zero) Datapoint list \<Rightarrow> 'r option \<Rightarrow> 'n option \<Rightarrow>
     ('r, 'ts, 'd) Metric \<Rightarrow> ('t, 'd) Datapoint list" where
  "translateAndAppend fromProto unset dps resource node metric =
     (case me_MetricDescriptor metric of
        None \<Rightarrow> dps
      | Some descriptor \<Rightarrow> seriesLoop fromProto unset descriptor (me_Timeseries metric) dps)"

fun metricLoop ::
  "('ts \<Rightarrow> 't option) \<Rightarrow> dpType \<Rightarrow> 'r option \<Rightarrow> 'n option \<Rightarrow> ('r, 'ts, 'd :: zero) Metric list \<Rightarrow>
     ('t, 'd) Datapoint list \<Rightarrow> ('t, 'd) Datapoint list" where
  "metricLoop fromProto unset resource node [] dps = dps"
| "metricLoop fromProto unset resource node (m # ms) dps =
     metricLoop fromProto unset resource node ms (translateAndAppend fromProto unset dps resource node m)"

definition OCProtoToSignalFx ::
  "('ts \<Rightarrow> 't option) \<Rightarrow> dpType \<Rightarrow> ('n, 'r, 'ts, 'd :: zero) MetricsData \<Rightarrow> ('t, 'd) Datapoint list" where
  "OCProtoToSignalFx fromProto unset md = metricLoop fromProto unset (mda_Resource md) (mda_Node md) (mda_Metrics md) []"

section \<open>What a translation is\<close>

text \<open>The points of a metric with its descriptor; a metric with a nil descriptor has none to translate.\<close>

definition metricPoints :: "('r, 'ts, 'd) Metric \<Rightarrow> (MetricDescriptor \<times> ('ts, 'd) Point) list" where
  "metricPoints m =
     (case me_MetricDescriptor m of
        None \<Rightarrow> []
      | Some d \<Rightarrow> map (Pair d) (concat (map ts_Points (me_Timeseries m))))"

lemma pointLoop_eq: "pointLoop f u d pts dps = dps @ map (datapointOf f u d) pts"
  by (induction pts arbitrary: dps) simp_all

lemma seriesLoop_eq: "seriesLoop f u d tss dps = dps @ map (datapointOf f u d) (concat (map ts_Points tss))"
  by (induction tss arbitrary: dps) (simp_all add: pointLoop_eq)

lemma metricLoop_eq:
  "metricLoop f u r n ms dps = dps @ map (\<lambda>(d, p). datapointOf f u d p) (concat (map metricPoints ms))"
  by (induction ms arbitrary: dps)
    (simp_all add: translateAndAppend_def metricPoints_def seriesLoop_eq comp_def split: option.splits)

lemma OCProtoToSignalFx_eq:
  "OCProtoToSignalFx f u md = map (\<lambda>(d, p). datapointOf f u d p) (concat (map metricPoints (mda_Metrics md)))"
  by (simp add: OCProtoToSignalFx_def metricLoop_eq)

text \<open>The value of a point as the protocol carries it, and the zero of a type.\<close>

fun carriedValue :: "'d PointValue option \<Rightarrow> 'd dpValue option" where
  "carriedValue (Some (Int64Value n)) = Some (IntValue n)"
| "carriedValue (Some (DoubleValue d)) = Some (FloatValue d)"
| "carriedValue _ = None"

definition zeroValue :: "MetricType \<Rightarrow> 'd :: zero dpValue option" where
  "zeroValue t =
     (if t \<in> {GAUGE_INT64, CUMULATIVE_INT64} then Some (IntValue 0)
      else if t \<in> {GAUGE_DOUBLE, CUMULATIVE_DOUBLE} then Some (FloatValue 0)
      else None)"

definition kindOf :: "dpType \<Rightarrow> MetricType \<Rightarrow> dpType" where
  "kindOf u t =
     (if t \<in> {CUMULATIVE_INT64, CUMULATIVE_DOUBLE} then Counter
      else if t \<in> {GAUGE_INT64, GAUGE_DOUBLE} then Gauge
      else u)"

lemma datapoint_value:
  "dp_Value (datapointOf f u d p) =
     (if valueOfType (md_Type d) (pt_Value p) then carriedValue (pt_Value p) else zeroValue (md_Type d))"
  by (cases "(md_Type d, pt_Value p)" rule: valueOfType.cases)
    (simp_all add: datapointOf_def zeroValue_def split: MetricType.split)

lemma datapoint_kind: "dp_MetricType (datapointOf f u d p) = kindOf u (md_Type d)"
  by (cases "md_Type d") (simp_all add: datapointOf_def kindOf_def)

lemma length_metricPoints:
  "length (metricPoints m) =
     (if me_MetricDescriptor m = None then 0 else \<Sum>ts\<leftarrow>me_Timeseries m. length (ts_Points ts))"
  by (simp add: metricPoints_def length_concat comp_def split: option.split)

section \<open>Properties\<close>

text \<open>
  C37: the translation keeps the points and their values, whatever the batch. There is one
  datapoint for each point of each metric, in the order of the batch, named after its metric, but
  for the points of a metric with a nil descriptor, which are left out; nothing else is. When the
  point holds a value of the kind its descriptor announces, that number is the value of the
  datapoint exactly, and points of distributions and summaries become datapoints without a value; a
  point that holds another kind, or nothing, reads as zero. The datapoint is a counter or a gauge as
  the descriptor says, and of the unset type when it says neither.
\<close>

theorem translation_keeps_values:
  "map (\<lambda>dp. (dp_Metric dp, dp_Value dp, dp_MetricType dp)) (OCProtoToSignalFx f u md) =
    map (\<lambda>(d, p). (md_Name d,
        if valueOfType (md_Type d) (pt_Value p) then carriedValue (pt_Value p) else zeroValue (md_Type d),
        kindOf u (md_Type d)))
      (concat (map metricPoints (mda_Metrics md))) \<and>
    length (OCProtoToSignalFx f u md) =
      (\<Sum>m\<leftarrow>mda_Metrics md.
         if me_MetricDescriptor m = None then 0 else \<Sum>ts\<leftarrow>me_Timeseries m. length (ts_Points ts))"
proof
  show "map (\<lambda>dp. (dp_Metric dp, dp_Value dp, dp_MetricType dp)) (OCProtoToSignalFx f u md) =
    map (\<lambda>(d, p). (md_Name d,
        if valueOfType (md_Type d) (pt_Value p) then carriedValue (pt_Value p) else zeroValue (md_Type d),
        kindOf u (md_Type d)))
      (concat (map metricPoints (mda_Metrics md)))"
    unfolding OCProtoToSignalFx_eq map_map
    by (intro map_cong refl) (simp add: split_beta datapoint_value datapoint_kind, simp add: datapointOf_def)
  show "length (OCProtoToSignalFx f u md) =
      (\<Sum>m\<leftarrow>mda_Metrics md.
         if me_MetricDescriptor m = None then 0 else \<Sum>ts\<leftarrow>me_Timeseries m. length (ts_Points ts))"
    by (simp only: OCProtoToSignalFx_eq length_map length_concat map_map comp_def length_metricPoints)
qed

text \<open>
  A scrape on Linux, translated: seven gauges with the readings. In a batch with a metric of no
  descriptor, a gauge with a point of the wrong kind and a distribution, the first is left out, the
  second reads as zero and the third has no value.
\<close>

definition sampleStat :: "int VirtualMemoryStat" where
  "sampleStat = \<lparr>UsedPercent = 25, Used = 50, Available = 0, Free = 10, Active = 0, Inactive = 0, Wired = 0,
     Buffers = 1, Cached = 20, SReclaimable = 5, Slab = 8\<rparr>"

definition sampleScrape :: "(unit, unit, int, int) MetricsData" where
  "sampleScrape = \<lparr>mda_Node = None, mda_Resource = None,
     mda_Metrics = emittedMetrics ''linux'' Some (\<lambda>_. 0) sampleStat
       \<lparr>mo_resource = None, mo_startTime = 0, mo_stopCh = None, mo_emitted = []\<rparr>\<rparr>"

definition sampleSeries :: "int PointValue \<Rightarrow> (int, int) TimeSeries" where
  "sampleSeries v = \<lparr>ts_StartTimestamp = None, ts_LabelValues = [],
     ts_Points = [\<lparr>pt_Timestamp = None, pt_Value = Some v\<rparr>]\<rparr>"

definition sampleMixed :: "(unit, unit, int, int) MetricsData" where
  "sampleMixed = \<lparr>mda_Node = None, mda_Resource = None,
     mda_Metrics =
       [\<lparr>me_MetricDescriptor = None, me_Resource = None, me_Timeseries = [sampleSeries (Int64Value 7)]\<rparr>,
        \<lparr>me_MetricDescriptor = Some (metricMemUsed), me_Resource = None,
         me_Timeseries = [sampleSeries (DoubleValue 7), sampleSeries (Int64Value 8)]\<rparr>,
        \<lparr>me_MetricDescriptor = Some (metricMemUsed\<lparr>md_Type := GAUGE_DISTRIBUTION\<rparr>), me_Resource = None,
         me_Timeseries = [sampleSeries OtherValue]\<rparr>]\<rparr>"

theorem translation_keeps_values_witness:
  "map (\<lambda>dp. (dp_Metric dp, dp_Value dp, dp_MetricType dp)) (OCProtoToSignalFx Some Gauge sampleScrape) ! 5 =
     (''memory.slab_reclaimable'', Some (IntValue 5), Gauge) \<and>
   map (\<lambda>dp. (dp_Metric dp, dp_Value dp, dp_MetricType dp)) (OCProtoToSignalFx Some Counter sampleMixed) =
     [(''memory.used'', Some (IntValue 0), Gauge), (''memory.used'', Some (IntValue 8), Gauge),
      (''memory.used'', None, Counter)]"
proof
  have point: "concat (map metricPoints (mda_Metrics sampleScrape)) ! 5 =
      (metricMemSlabRecl, \<lparr>pt_Timestamp = Some 0, pt_Value = Some (Int64Value 5)\<rparr>)"
    and "length (concat (map metricPoints (mda_Metrics sampleScrape))) = 7"
    by (simp_all add: sampleScrape_def scrape_defs metricPoints_def sampleStat_def TimeToTimestamp_def
        int64_small)
  then show "map (\<lambda>dp. (dp_Metric dp, dp_Value dp, dp_MetricType dp)) (OCProtoToSignalFx Some Gauge sampleScrape) ! 5 =
      (''memory.slab_reclaimable'', Some (IntValue 5), Gauge)"
    unfolding conjunct1 [OF translation_keeps_values]
    by (subst nth_map) (simp_all add: kindOf_def)
  show "map (\<lambda>dp. (dp_Metric dp, dp_Value dp, dp_MetricType dp)) (OCProtoToSignalFx Some Counter sampleMixed) =
     [(''memory.used'', Some (IntValue 0), Gauge), (''memory.used'', Some (IntValue 8), Gauge),
      (''memory.used'', None, Counter)]"
    unfolding conjunct1 [OF translation_keeps_values]
    by (simp add: sampleMixed_def sampleSeries_def metricPoints_def kindOf_def zeroValue_def)
qed

end
