(* ===== verification/OCExporter.thy ===== *)
theory OCExporter
  imports Prelude
begin

text \<open>
  The factory of the OpenCensus exporter (\<open>exporter/opencensusexporter\<close>), which wraps the factory of the
  same name of the OpenTelemetry collector. That factory is a parameter: its default configuration,
  the agent options it derives from a configuration, and its exporter constructor. Its configurations
  are of the type \<open>'u\<close>, its options of the type \<open>'o\<close>.
\<close>

record 'u ocExporterConfig =
  oe_Config :: 'u
  oe_UseUnaryExporter :: bool
  oe_UnaryExporterTimeout :: int

datatype 'o agentOption =
    Upstream 'o
  | WithUnaryBatchExporter int

definition oe_Type :: string where
  "oe_Type = ''opencensus''"

definition oe_CreateDefaultConfig :: "'u \<Rightarrow> 'u ocExporterConfig" where
  "oe_CreateDefaultConfig upstreamDefault =
     \<lparr>oe_Config = upstreamDefault, oe_UseUnaryExporter = True, oe_UnaryExporterTimeout = 0\<rparr>"

definition oe_CreateTraceExporter ::
  "('u \<Rightarrow> 'e + 'o list) \<Rightarrow> ('u \<Rightarrow> 'o agentOption list \<Rightarrow> 'e + 'x) \<Rightarrow> 'u ocExporterConfig \<Rightarrow> 'e + 'x" where
  "oe_CreateTraceExporter agentOptions newTraceExporter ocac =
     (case agentOptions (oe_Config ocac) of
        Inl e \<Rightarrow> Inl e
      | Inr opts \<Rightarrow>
          let opts = map Upstream opts;
              opts = (if oe_UseUnaryExporter ocac
                      then opts @ [WithUnaryBatchExporter (oe_UnaryExporterTimeout ocac)] else opts)
          in newTraceExporter (oe_Config ocac) opts)"

text \<open>
  \<open>CreateMetricsExporter\<close> hands the whole configuration, this factory's own type, to the wrapped factory,
  which can use a configuration of its own type only. \<open>configmodels.Exporter\<close> is an interface: a value of it
  is a configuration of either type here.
\<close>

datatype 'u exporterConfig = Wrapped 'u | Own "'u ocExporterConfig"

definition oe_CreateMetricsExporter :: "('u exporterConfig \<Rightarrow> 'e + 'm) \<Rightarrow> 'u exporterConfig \<Rightarrow> 'e + 'm" where
  "oe_CreateMetricsExporter upstream config = upstream config"

text \<open>
  An exporter that reads its options in order and so lets the last one win exports in batches of unary
  calls exactly when the setting says so, whatever options the configuration leads to.
\<close>

definition unaryTimeout :: "'o agentOption list \<Rightarrow> int option" where
  "unaryTimeout opts =
     fold (\<lambda>opt timeout. case opt of Upstream _ \<Rightarrow> timeout | WithUnaryBatchExporter t \<Rightarrow> Some t) opts None"

lemma unaryTimeout_upstream: "unaryTimeout (map Upstream opts) = None"
  by (induction opts) (simp_all add: unaryTimeout_def)

lemma trace_exporter_unary:
  assumes "agentOptions (oe_Config ocac) = Inr opts"
  shows "oe_CreateTraceExporter agentOptions (\<lambda>_ all. Inr (unaryTimeout all)) ocac =
         Inr (if oe_UseUnaryExporter ocac then Some (oe_UnaryExporterTimeout ocac) else None)"
  using assms unaryTimeout_upstream [of opts]
  by (simp add: oe_CreateTraceExporter_def Let_def unaryTimeout_def)

text \<open>The default configuration exports by unary calls without a time limit.\<close>

lemma default_exporter_unary:
  assumes "agentOptions upstreamDefault = Inr opts"
  shows "oe_CreateTraceExporter agentOptions (\<lambda>_ all. Inr (unaryTimeout all)) (oe_CreateDefaultConfig upstreamDefault) =
         Inr (Some 0)"
  using assms trace_exporter_unary [of agentOptions "oe_CreateDefaultConfig upstreamDefault" opts]
  by (simp add: oe_CreateDefaultConfig_def)

end
