(* ===== verification/Telemetry.thy ===== *)
theory Telemetry
  imports MD5 "HOL-Library.AList" "HOL-Library.Multiset"
begin

text \<open>
  The telemetry extension (\<open>extension/telemetryextension\<close>): how it finds its settings on the
  command line, how it is made, what each turn of its goroutine posts; and the version the
  collector reports (\<open>internal/version\<close>).

  The process environment, files, the scrape and the posting of requests are parameters. An absent
  time is the zero time, which is longer ago than any interval.
\<close>

section \<open>Version\<close>

definition Version :: string where
  "Version = ''latest''"

definition GitHash :: string where
  "GitHash = ''<NOT PROPERLY GENERATED>''"

text \<open>The verb \<open>%*s\<close> with a negative width pads on the right.\<close>

definition padRight :: "nat \<Rightarrow> string \<Rightarrow> string" where
  "padRight width s = s @ replicate (width - length s) CHR '' ''"

definition maxAlignment :: "(string \<times> string) list \<Rightarrow> nat" where
  "maxAlignment rows = fold (\<lambda>row m. if length (fst row) > m then length (fst row) else m) rows 0"

definition version_Info :: "string \<Rightarrow> string \<Rightarrow> string \<Rightarrow> string" where
  "version_Info goversion goos goarch =
     (let rows = [(''Version'', Version), (''GitHash'', GitHash), (''Goversion'', goversion),
                  (''OS'', goos), (''Architecture'', goarch)];
          width = maxAlignment rows
      in concat (map (\<lambda>row. padRight width (fst row) @ '' '' @ snd row @ [CHR 0x0A]) rows))"

section \<open>The command line\<close>

definition configFileFlag :: string where
  "configFileFlag = ''--config''"

definition metricsPortFlag :: string where
  "metricsPortFlag = ''--metrics-port''"

definition startsWith :: "string \<Rightarrow> string \<Rightarrow> bool" where
  "startsWith flag arg \<longleftrightarrow> take (length flag) arg = flag"

fun splitOn :: "char \<Rightarrow> string \<Rightarrow> string list" where
  "splitOn sep [] = [[]]"
| "splitOn sep (x # xs) =
     (if x = sep then [] # splitOn sep xs
      else (case splitOn sep xs of [] \<Rightarrow> [[x]] | p # ps \<Rightarrow> (x # p) # ps))"

text \<open>An index beyond the end of a slice is a panic.\<close>

definition parseSingleFlag :: "nat \<Rightarrow> string \<Rightarrow> string list \<Rightarrow> panic + string" where
  "parseSingleFlag i flag args =
     (if length (args ! i) = length flag
      then (if i + 1 < length args then Inr (args ! (i + 1)) else Inl IndexOutOfRange)
      else (let parts = splitOn CHR ''='' (args ! i)
            in if 1 < length parts then Inr (parts ! 1) else Inl IndexOutOfRange))"

fun argLoop :: "string list \<Rightarrow> nat \<Rightarrow> string list \<Rightarrow> string \<times> string \<Rightarrow> panic + string \<times> string" where
  "argLoop args i [] found = Inr found"
| "argLoop args i (arg # rest) (metricsPort, configFile) =
     (if startsWith metricsPortFlag arg
      then (case parseSingleFlag i metricsPortFlag args of
              Inl p \<Rightarrow> Inl p
            | Inr v \<Rightarrow> argLoop args (Suc i) rest (v, configFile))
      else if startsWith configFileFlag arg
      then (case parseSingleFlag i configFileFlag args of
              Inl p \<Rightarrow> Inl p
            | Inr v \<Rightarrow> argLoop args (Suc i) rest (metricsPort, v))
      else argLoop args (Suc i) rest (metricsPort, configFile))"

definition parseArgs :: "string list \<Rightarrow> panic + string \<times> string" where
  "parseArgs setOfArgs = argLoop setOfArgs 0 setOfArgs ([], [])"

section \<open>Making the extension\<close>

definition contentEncodingHeader :: string where "contentEncodingHeader = ''Content-Encoding''"
definition contentEncodingGZIP :: string where "contentEncodingGZIP = ''gzip''"
definition instanceGitHashHeader :: string where "instanceGitHashHeader = ''X-Instance-GitSha''"
definition instanceUUIDHeader :: string where "instanceUUIDHeader = ''X-Instance-Uuid''"
definition instanceVersionHeader :: string where "instanceVersionHeader = ''X-Instance-Version''"
definition telemetryDataHeader :: string where "telemetryDataHeader = ''X-Telemetry-Data-Type''"

definition second :: int where
  "second = 1000000000"

definition defaultMinIntervalToPostConfig :: int where
  "defaultMinIntervalToPostConfig = 180 * second"

definition defaultScrapeInterval :: int where
  "defaultScrapeInterval = 10 * second"

definition te_typeStr :: string where
  "te_typeStr = ''telemetry''"

definition te_Type :: string where
  "te_Type = te_typeStr"

text \<open>Of the embedded \<open>ExtensionSettings\<close> the code sets the type and the name.\<close>

record teConfig =
  te_TypeVal :: string
  te_NameVal :: string
  te_Endpoint :: string
  te_Headers :: "(string \<times> string) list option"
  te_ScrapeInterval :: int

definition te_CreateDefaultConfig :: teConfig where
  "te_CreateDefaultConfig =
     \<lparr>te_TypeVal = te_typeStr, te_NameVal = te_typeStr, te_Endpoint = [], te_Headers = None,
      te_ScrapeInterval = 0\<rparr>"

text \<open>
  The world the extension is made in: arguments, \<open>http.NewRequest\<close>, the random UUID, the two calls of the
  \<open>gzip.Writer\<close> (what \<open>Write\<close> leaves pending, what \<open>Close\<close> makes of it), the environment, and the files.
\<close>

record host =
  h_args :: "string list"
  h_validURL :: "string \<Rightarrow> bool"
  h_uuid :: "string option"
  h_gzipWrite :: "bytes \<Rightarrow> bytes option"
  h_gzipClose :: "bytes \<Rightarrow> bytes option"
  h_getenv :: "string \<Rightarrow> string"
  h_goos :: string
  h_goarch :: string
  h_readFile :: "string \<Rightarrow> bytes option"

text \<open>\<open>gzipBytes\<close>: absent when the writer fails; after a failed \<open>Write\<close> the result of \<open>Close\<close> is not looked at.\<close>

definition gzipBytes :: "(bytes \<Rightarrow> bytes option) \<Rightarrow> (bytes \<Rightarrow> bytes option) \<Rightarrow> bytes \<Rightarrow> bytes option" where
  "gzipBytes write close buf =
     (case write buf of
        None \<Rightarrow> None
      | Some pending \<Rightarrow> (case close pending of None \<Rightarrow> None | Some zipped \<Rightarrow> Some zipped))"

definition h_gzip :: "host \<Rightarrow> bytes \<Rightarrow> bytes option" where
  "h_gzip h = gzipBytes (h_gzipWrite h) (h_gzipClose h)"

text \<open>A request given to the HTTP client: its headers, each with its values, and its body.\<close>

record post =
  po_header :: "string \<Rightarrow> string list"
  po_body :: bytes

record telemetryExtension =
  te_sourceURL :: string
  te_goEnvBytes :: bytes
  te_configBytes :: bytes
  te_lastCfgPostTime :: "int option"
  te_uuidStr :: string
  te_cfg :: teConfig
  te_done :: bool
  te_posts :: "post list"

datatype teError =
    MissingEndpoint
  | MissingConfigFile
  | InvalidURL
  | NoUUID
  | GzipFailed
  | ReadFailed

definition captureGoEnvBytes :: "host \<Rightarrow> bytes" where
  "captureGoEnvBytes h =
     bytes_of_string
       (concat
          [''GOARCH='' @ h_goarch h @ [CHR 0x0A], ''GODEBUG='' @ h_getenv h ''GODEBUG'' @ [CHR 0x0A],
           ''GOGC='' @ h_getenv h ''GOGC'' @ [CHR 0x0A],
           ''GOMAXPROCS='' @ h_getenv h ''GOMAXPROCS'' @ [CHR 0x0A],
           ''GOOS='' @ h_goos h @ [CHR 0x0A],
           ''GOTRACEBACK='' @ h_getenv h ''GOTRACEBACK'' @ [CHR 0x0A]])"

text \<open>The map of headers is an association list, in the order in which \<open>range\<close> visits it.\<close>

definition instanceHeaders :: "string \<Rightarrow> (string \<times> string) list option \<Rightarrow> (string \<times> string) list" where
  "instanceHeaders uuidStr headers =
     AList.update contentEncodingHeader contentEncodingGZIP
       (AList.update instanceVersionHeader Version
         (AList.update instanceUUIDHeader uuidStr
           (AList.update instanceGitHashHeader GitHash
             (case headers of None \<Rightarrow> [] | Some m \<Rightarrow> m))))"

definition newTelemetryExtension :: "host \<Rightarrow> teConfig \<Rightarrow> panic + teError + telemetryExtension" where
  "newTelemetryExtension h config =
     (case parseArgs (h_args h) of
        Inl p \<Rightarrow> Inl p
      | Inr (metricsPort, configFile) \<Rightarrow>
          if configFile = [] then Inr (Inl MissingConfigFile)
          else if \<not> h_validURL h (te_Endpoint config) then Inr (Inl InvalidURL)
          else
            let port = (if metricsPort = [] then ''8888'' else metricsPort);
                sourceURL = ''http://localhost:'' @ port @ ''/metrics''
            in if \<not> h_validURL h sourceURL then Inr (Inl InvalidURL)
               else
                 (case h_uuid h of
                    None \<Rightarrow> Inr (Inl NoUUID)
                  | Some uuidStr \<Rightarrow>
                      let cfg = config\<lparr>te_Headers := Some (instanceHeaders uuidStr (te_Headers config))\<rparr> in
                      (case h_gzip h (captureGoEnvBytes h) of
                         None \<Rightarrow> Inr (Inl GzipFailed)
                       | Some goEnvBytes \<Rightarrow>
                           (case h_readFile h configFile of
                              None \<Rightarrow> Inr (Inl ReadFailed)
                            | Some yamlFile \<Rightarrow>
                                (case h_gzip h yamlFile of
                                   None \<Rightarrow> Inr (Inl GzipFailed)
                                 | Some svcConfigGzipBytes \<Rightarrow>
                                     Inr (Inr
                                       \<lparr>te_sourceURL = sourceURL, te_goEnvBytes = goEnvBytes,
                                        te_configBytes = svcConfigGzipBytes, te_lastCfgPostTime = None,
                                        te_uuidStr = uuidStr, te_cfg = cfg, te_done = False,
                                        te_posts = []\<rparr>))))))"

definition CreateExtension :: "host \<Rightarrow> teConfig \<Rightarrow> panic + teError + telemetryExtension" where
  "CreateExtension h oCfg =
     (if te_Endpoint oCfg = [] then Inr (Inl MissingEndpoint)
      else newTelemetryExtension h
             (if te_ScrapeInterval oCfg = 0 then oCfg\<lparr>te_ScrapeInterval := defaultScrapeInterval\<rparr> else oCfg))"

section \<open>Running it\<close>

text \<open>\<open>Start\<close> makes a ticker, which panics on an interval that is not positive.\<close>

definition te_Start :: "telemetryExtension \<Rightarrow> panic option" where
  "te_Start te = (if te_ScrapeInterval (te_cfg te) \<le> 0 then Some NonPositiveTicker else None)"

definition te_Shutdown :: "telemetryExtension \<Rightarrow> panic + telemetryExtension" where
  "te_Shutdown te =
     (case close_signal (te_done te) of
        Inl p \<Rightarrow> Inl p
      | Inr closed \<Rightarrow> Inr (te\<lparr>te_done := closed\<rparr>))"

text \<open>
  \<open>Header.Add\<close> stores a value under the canonical form of its key: the first letter and each letter
  after a hyphen in upper case, the others in lower case. A key that is no token is kept.
\<close>

definition upperChar :: "char \<Rightarrow> char" where
  "upperChar c = (let n = of_char c :: nat in if 97 \<le> n \<and> n \<le> 122 then char_of (n - 32) else c)"

definition tokenChar :: "char \<Rightarrow> bool" where
  "tokenChar c \<longleftrightarrow>
     (let n = of_char c :: nat
      in 48 \<le> n \<and> n \<le> 57 \<or> 65 \<le> n \<and> n \<le> 90 \<or> 97 \<le> n \<and> n \<le> 122) \<or>
     c \<in> set ''!#$%&*+-.^_|~'' \<or> c = CHR 0x27 \<or> c = CHR 0x60"

fun canonLoop :: "bool \<Rightarrow> string \<Rightarrow> string" where
  "canonLoop upper [] = []"
| "canonLoop upper (c # cs) = (if upper then upperChar c else lowerChar c) # canonLoop (c = CHR ''-'') cs"

definition canonicalKey :: "string \<Rightarrow> string" where
  "canonicalKey k = (if list_all tokenChar k then canonLoop True k else k)"

definition header_Add :: "string \<Rightarrow> string \<Rightarrow> (string \<Rightarrow> string list) \<Rightarrow> string \<Rightarrow> string list" where
  "header_Add k v header = header(canonicalKey k := header (canonicalKey k) @ [v])"

text \<open>\<open>dispatch\<close>: the answer to the request is only logged.\<close>

definition dispatch :: "host \<Rightarrow> bytes \<Rightarrow> string \<Rightarrow> telemetryExtension \<Rightarrow> telemetryExtension" where
  "dispatch h body telemetryData te =
     (if \<not> h_validURL h (te_Endpoint (te_cfg te)) then te
      else
        let header = fold (\<lambda>(k, v). header_Add k v)
                       (case te_Headers (te_cfg te) of None \<Rightarrow> [] | Some m \<Rightarrow> m) (\<lambda>_. []);
            header = header_Add telemetryDataHeader telemetryData header
        in te\<lparr>te_posts := te_posts te @ [\<lparr>po_header = header, po_body = body\<rparr>]\<rparr>)"

text \<open>\<open>scraped\<close> is the body of the answer to the scrape, if there was one that could be read.\<close>

definition getAndPostMetrics :: "host \<Rightarrow> bytes option \<Rightarrow> telemetryExtension \<Rightarrow> telemetryExtension" where
  "getAndPostMetrics h scraped te =
     (case scraped of
        None \<Rightarrow> te
      | Some body \<Rightarrow> (case h_gzip h body of None \<Rightarrow> te | Some zipped \<Rightarrow> dispatch h zipped ''metrics'' te))"

text \<open>\<open>now\<close> is the time of the check and \<open>later\<close> that of the assignment at the end.\<close>

definition collectAndPostTelemetry ::
  "host \<Rightarrow> bytes option \<Rightarrow> int \<Rightarrow> int \<Rightarrow> telemetryExtension \<Rightarrow> telemetryExtension" where
  "collectAndPostTelemetry h scraped now later te =
     (let te1 = getAndPostMetrics h scraped te;
          due = (case te_lastCfgPostTime te1 of
                   None \<Rightarrow> True
                 | Some t \<Rightarrow> now - t > defaultMinIntervalToPostConfig)
      in if due
         then (dispatch h (te_configBytes te1) ''config'' (dispatch h (te_goEnvBytes te1) ''goenv'' te1))
                \<lparr>te_lastCfgPostTime := Some later\<rparr>
         else te1)"

text \<open>The turns of the goroutine: for each tick the scrape and the two times.\<close>

fun te_run :: "host \<Rightarrow> (bytes option \<times> int \<times> int) list \<Rightarrow> telemetryExtension \<Rightarrow> telemetryExtension" where
  "te_run h [] te = te"
| "te_run h ((scraped, now, later) # ticks) te =
     te_run h ticks (collectAndPostTelemetry h scraped now later te)"

section \<open>The version text\<close>

lemma maxAlignment_ge: "row \<in> set rows \<Longrightarrow> length (fst row) \<le> maxAlignment rows"
proof -
  have "(\<forall>row\<in>set rows. length (fst row) \<le> fold (\<lambda>row m. if length (fst row) > m then length (fst row) else m) rows m)
      \<and> m \<le> fold (\<lambda>row m. if length (fst row) > m then length (fst row) else m) rows m"
    for m :: nat and rows :: "(string \<times> string) list"
  proof (induction rows arbitrary: m)
    case (Cons a rows)
    let ?m = "if length (fst a) > m then length (fst a) else m"
    have "m \<le> ?m" "length (fst a) \<le> ?m"
      by simp_all
    with Cons.IH [of ?m] show ?case
      by (simp del: if_split_asm split del: if_split)
  qed simp
  then show "row \<in> set rows \<Longrightarrow> ?thesis"
    by (simp add: maxAlignment_def)
qed

text \<open>The values of the version text start in one column.\<close>

lemma version_Info_aligned:
  "row \<in> set rows \<Longrightarrow> length (padRight (maxAlignment rows) (fst row)) = maxAlignment rows"
  using maxAlignment_ge [of row rows] by (simp add: padRight_def)

section \<open>Reading the command line\<close>

text \<open>The arguments the collector is started with: the two flags in their two forms, and others.\<close>

datatype cliArg =
    PortEq string
  | PortSep string
  | ConfigEq string
  | ConfigSep string
  | OtherArg string

fun cli_render :: "cliArg \<Rightarrow> string list" where
  "cli_render (PortEq v) = [metricsPortFlag @ ''='' @ v]"
| "cli_render (PortSep v) = [metricsPortFlag, v]"
| "cli_render (ConfigEq v) = [configFileFlag @ ''='' @ v]"
| "cli_render (ConfigSep v) = [configFileFlag, v]"
| "cli_render (OtherArg a) = [a]"

definition cli_free :: "string \<Rightarrow> bool" where
  "cli_free a \<longleftrightarrow> \<not> startsWith metricsPortFlag a \<and> \<not> startsWith configFileFlag a"

fun cli_valid :: "cliArg \<Rightarrow> bool" where
  "cli_valid (PortEq v) \<longleftrightarrow> CHR ''='' \<notin> set v"
| "cli_valid (PortSep v) \<longleftrightarrow> cli_free v"
| "cli_valid (ConfigEq v) \<longleftrightarrow> CHR ''='' \<notin> set v"
| "cli_valid (ConfigSep v) \<longleftrightarrow> cli_free v"
| "cli_valid (OtherArg a) \<longleftrightarrow> cli_free a"

fun cli_ports :: "cliArg \<Rightarrow> string list" where
  "cli_ports (PortEq v) = [v]"
| "cli_ports (PortSep v) = [v]"
| "cli_ports _ = []"

fun cli_configs :: "cliArg \<Rightarrow> string list" where
  "cli_configs (ConfigEq v) = [v]"
| "cli_configs (ConfigSep v) = [v]"
| "cli_configs _ = []"

lemma splitOn_none: "sep \<notin> set v \<Longrightarrow> splitOn sep v = [v]"
  by (induction v) auto

lemma splitOn_first: "sep \<notin> set a \<Longrightarrow> splitOn sep (a @ sep # v) = a # splitOn sep v"
  by (induction a) auto

lemma parseSingleFlag_eq:
  "CHR ''='' \<notin> set flag \<Longrightarrow> CHR ''='' \<notin> set v \<Longrightarrow>
   parseSingleFlag (length pre) flag (pre @ (flag @ CHR ''='' # v) # rest) = Inr v"
  by (simp add: parseSingleFlag_def splitOn_first splitOn_none)

lemma parseSingleFlag_sep:
  "parseSingleFlag (length pre) flag (pre @ flag # v # rest) = Inr v"
  by (simp add: parseSingleFlag_def nth_append)

lemmas cli_flags = metricsPortFlag_def configFileFlag_def startsWith_def

lemma argLoop_port:
  "startsWith metricsPortFlag arg \<Longrightarrow> parseSingleFlag i metricsPortFlag args = Inr v \<Longrightarrow>
   argLoop args i (arg # rest) (p, c) = argLoop args (Suc i) rest (v, c)"
  by simp

lemma startsWith_both:
  "startsWith f arg \<Longrightarrow> startsWith g arg \<Longrightarrow> length f \<le> length g \<Longrightarrow> take (length f) g = f"
  by (metis min.absorb1 startsWith_def take_take)

lemma argLoop_config:
  "startsWith configFileFlag arg \<Longrightarrow> parseSingleFlag i configFileFlag args = Inr v \<Longrightarrow>
   argLoop args i (arg # rest) (p, c) = argLoop args (Suc i) rest (p, v)"
proof -
  assume "startsWith configFileFlag arg"
  then have "\<not> startsWith metricsPortFlag arg"
    using startsWith_both [of configFileFlag arg metricsPortFlag] by (auto simp: cli_flags)
  moreover assume "parseSingleFlag i configFileFlag args = Inr v" "startsWith configFileFlag arg"
  ultimately show ?thesis
    by simp
qed

lemma argLoop_free: "cli_free arg \<Longrightarrow> argLoop args i (arg # rest) pc = argLoop args (Suc i) rest pc"
  by (cases pc) (simp add: cli_free_def)

lemma argLoop_arg:
  assumes "cli_valid a"
  shows "argLoop (pre @ cli_render a @ rest) (length pre) (cli_render a @ rest) (p, c) =
         argLoop (pre @ cli_render a @ rest) (length (pre @ cli_render a)) rest
           (last (p # cli_ports a), last (c # cli_configs a))"
proof (cases a)
  case (PortEq v)
  have "startsWith metricsPortFlag (metricsPortFlag @ CHR ''='' # v)"
    by (simp add: startsWith_def)
  moreover have "CHR ''='' \<notin> set metricsPortFlag"
    by (simp add: metricsPortFlag_def)
  ultimately show ?thesis
    using PortEq assms parseSingleFlag_eq [of metricsPortFlag v pre rest] by simp
next
  case (PortSep v)
  have "startsWith metricsPortFlag metricsPortFlag"
    by (simp add: startsWith_def)
  then show ?thesis
    using PortSep assms parseSingleFlag_sep [of pre metricsPortFlag v rest]
    by (simp add: argLoop_free del: argLoop.simps add: argLoop_port)
next
  case (ConfigEq v)
  have "startsWith configFileFlag (configFileFlag @ CHR ''='' # v)"
    by (simp add: startsWith_def)
  moreover have "CHR ''='' \<notin> set configFileFlag"
    by (simp add: configFileFlag_def)
  ultimately show ?thesis
    using ConfigEq assms parseSingleFlag_eq [of configFileFlag v pre rest]
    by (simp del: argLoop.simps add: argLoop_config)
next
  case (ConfigSep v)
  have "startsWith configFileFlag configFileFlag"
    by (simp add: startsWith_def)
  then show ?thesis
    using ConfigSep assms parseSingleFlag_sep [of pre configFileFlag v rest]
    by (simp add: argLoop_free del: argLoop.simps add: argLoop_config)
next
  case (OtherArg x)
  then show ?thesis
    using assms by (simp add: argLoop_free del: argLoop.simps)
qed

lemma last_Cons_append: "last (last (x # xs) # ys) = last (x # xs @ ys)"
  by (cases ys) (simp_all add: last_append)

lemma argLoop_rendered:
  "list_all cli_valid as \<Longrightarrow>
   argLoop (pre @ concat (map cli_render as)) (length pre) (concat (map cli_render as)) (p, c) =
   Inr (last (p # concat (map cli_ports as)), last (c # concat (map cli_configs as)))"
proof (induction as arbitrary: pre p c)
  case (Cons a as)
  have "argLoop (pre @ concat (map cli_render (a # as))) (length pre) (concat (map cli_render (a # as))) (p, c) =
        argLoop ((pre @ cli_render a) @ concat (map cli_render as)) (length (pre @ cli_render a))
          (concat (map cli_render as)) (last (p # cli_ports a), last (c # cli_configs a))"
    using argLoop_arg [of a pre "concat (map cli_render as)" p c] Cons.prems by simp
  also have "\<dots> = Inr (last (last (p # cli_ports a) # concat (map cli_ports as)),
                      last (last (c # cli_configs a) # concat (map cli_configs as)))"
    using Cons by (intro Cons.IH) simp
  finally show ?case
    by (simp only: last_Cons_append list.map concat.simps)
qed simp

text \<open>
  Any list of arguments. The value that the argument at \<open>i\<close> gives to a flag it begins with: the
  next argument if it is the flag itself, otherwise the text after its first \<open>=\<close> up to the next one.
\<close>

definition flagValue :: "string \<Rightarrow> string list \<Rightarrow> nat \<Rightarrow> string option" where
  "flagValue flag args i =
     (if args ! i = flag then (if i + 1 < length args then Some (args ! (i + 1)) else None)
      else (case dropWhile (\<lambda>c. c \<noteq> CHR ''='') (args ! i) of
              [] \<Rightarrow> None
            | _ # v \<Rightarrow> Some (takeWhile (\<lambda>c. c \<noteq> CHR ''='') v)))"

definition flagValuesFrom :: "nat \<Rightarrow> string \<Rightarrow> string list \<Rightarrow> string option list" where
  "flagValuesFrom i flag args =
     map (flagValue flag args) (filter (\<lambda>i. startsWith flag (args ! i)) [i..<length args])"

definition flagValues :: "string \<Rightarrow> string list \<Rightarrow> string option list" where
  "flagValues = flagValuesFrom 0"

lemma splitOn_eq:
  "splitOn sep xs =
     takeWhile (\<lambda>c. c \<noteq> sep) xs # (case dropWhile (\<lambda>c. c \<noteq> sep) xs of [] \<Rightarrow> [] | _ # v \<Rightarrow> splitOn sep v)"
  by (induction xs) (auto split: list.split)

lemma parseSingleFlag_value:
  assumes "startsWith flag (args ! i)"
  shows "parseSingleFlag i flag args =
    (case flagValue flag args i of None \<Rightarrow> Inl IndexOutOfRange | Some v \<Rightarrow> Inr v)"
proof -
  have "length (args ! i) = length flag \<longleftrightarrow> args ! i = flag"
    using assms by (auto simp: startsWith_def)
  moreover have "splitOn sep v ! 0 = takeWhile (\<lambda>c. c \<noteq> sep) v" "splitOn sep v \<noteq> []" for sep v
    by (subst splitOn_eq, simp)+
  ultimately show ?thesis
    unfolding parseSingleFlag_def flagValue_def Let_def
    by (subst (1 2) splitOn_eq)
      (cases "dropWhile (\<lambda>c. c \<noteq> CHR ''='') (args ! i)"; simp only: list.case; simp)
qed

lemma flagValuesFrom_step:
  "i < length args \<Longrightarrow> flagValuesFrom i flag args =
     (if startsWith flag (args ! i) then [flagValue flag args i] else []) @ flagValuesFrom (Suc i) flag args"
  by (simp add: flagValuesFrom_def upt_conv_Cons)

lemma argLoop_any:
  "i \<le> length args \<Longrightarrow>
   argLoop args i (drop i args) (p, c) =
     (if None \<in> set (flagValuesFrom i metricsPortFlag args @ flagValuesFrom i configFileFlag args)
      then Inl IndexOutOfRange
      else Inr (the (last (Some p # flagValuesFrom i metricsPortFlag args)),
                the (last (Some c # flagValuesFrom i configFileFlag args))))"
proof (induction "length args - i" arbitrary: i p c)
  case 0
  then show ?case by (simp add: flagValuesFrom_def)
next
  case (Suc n)
  then have i: "i < length args" "n = length args - Suc i" "Suc i \<le> length args" by simp_all
  have both: "\<not> (startsWith metricsPortFlag (args ! i) \<and> startsWith configFileFlag (args ! i))"
    using startsWith_both [of configFileFlag "args ! i" metricsPortFlag] by (auto simp: cli_flags)
  note IH = Suc.hyps(1) [OF i(2,3)]
  show ?case
  proof (cases "startsWith metricsPortFlag (args ! i)")
    case True
    then show ?thesis
      using both by (cases "flagValue metricsPortFlag args i")
        (simp_all add: Cons_nth_drop_Suc [OF i(1), symmetric] IH parseSingleFlag_value
          flagValuesFrom_step [OF i(1)])
  next
    case False
    then show ?thesis
      by (cases "flagValue configFileFlag args i")
        (simp_all add: Cons_nth_drop_Suc [OF i(1), symmetric] IH parseSingleFlag_value
          flagValuesFrom_step [OF i(1)])
  qed
qed

lemma parseArgs_any:
  "parseArgs args =
     (if None \<in> set (flagValues metricsPortFlag args @ flagValues configFileFlag args)
      then Inl IndexOutOfRange
      else Inr (the (last (Some [] # flagValues metricsPortFlag args)),
                the (last (Some [] # flagValues configFileFlag args))))"
  using argLoop_any [of 0 args "[]" "[]"] by (simp add: parseArgs_def flagValues_def)

text \<open>What \<open>parseArgs\<close> does on a value that has a \<open>=\<close>, on a longer flag, and on a flag that ends the line.\<close>

lemma parseArgs_limits:
  "parseArgs [''--config=a=b''] = Inr ([], ''a'')"
  "parseArgs [''--configuration=x''] = Inr ([], ''x'')"
  "parseArgs [''--config''] = Inl IndexOutOfRange"
  "parseArgs [''--metrics-ports''] = Inl IndexOutOfRange"
  by (simp_all add: parseArgs_def cli_flags parseSingleFlag_def)

text \<open>
  C38: The command line is read back. On any arguments \<open>parseArgs\<close> panics exactly when one of
  them begins with a flag and gives it no value (it is the flag and the last argument, or longer than the
  flag and has no \<open>=\<close>); otherwise it returns the last value given to each flag, or the empty string
  where there is none. The value is the next argument, or the text between the first \<open>=\<close> and the
  next one or the end, so that \<open>--config=a=b\<close> gives \<open>a\<close>, and a longer argument that begins
  with a flag counts as that flag. So arguments written as the two flags in the forms \<open>flag=value\<close> and
  \<open>flag value\<close>, between others, are read back when no value after \<open>=\<close> holds a further
  \<open>=\<close> and no separate value or other argument begins with a flag.
\<close>
theorem parseArgs_roundtrip:
  "parseArgs args =
     (if None \<in> set (flagValues metricsPortFlag args @ flagValues configFileFlag args)
      then Inl IndexOutOfRange
      else Inr (the (last (Some [] # flagValues metricsPortFlag args)),
                the (last (Some [] # flagValues configFileFlag args)))) \<and>
   (list_all cli_valid as \<longrightarrow>
      parseArgs (concat (map cli_render as)) =
        Inr (last ([] # concat (map cli_ports as)), last ([] # concat (map cli_configs as))))"
  using argLoop_rendered [of as "[]" "[]" "[]"] parseArgs_any [of args]
  by (simp add: parseArgs_def)

lemma parseArgs_roundtrip_witness:
  "parseArgs [''--log-level'', ''DEBUG'', ''--config'', ''/etc/c.yaml'', ''--metrics-port=9999'', ''--metrics-port'', ''1''] =
   Inr (''1'', ''/etc/c.yaml'') \<and>
   parseArgs [''--config=a=b'', ''--metrics-port'', ''--config=c''] = Inr (''--config=c'', ''c'')"
proof
  show "parseArgs [''--log-level'', ''DEBUG'', ''--config'', ''/etc/c.yaml'', ''--metrics-port=9999'', ''--metrics-port'', ''1''] =
     Inr (''1'', ''/etc/c.yaml'')"
    using parseArgs_roundtrip [of "[]" "[OtherArg ''--log-level'', OtherArg ''DEBUG'', ConfigSep ''/etc/c.yaml'', PortEq ''9999'', PortSep ''1'']"]
    by (simp add: cli_free_def cli_flags)
  show "parseArgs [''--config=a=b'', ''--metrics-port'', ''--config=c''] = Inr (''--config=c'', ''c'')"
    using conjunct1 [OF parseArgs_roundtrip [of "[''--config=a=b'', ''--metrics-port'', ''--config=c'']" "[]"]]
    by (simp add: flagValues_def flagValuesFrom_def flagValue_def cli_flags upt_conv_Cons)
qed

section \<open>What is posted\<close>

definition kindOf :: "post \<Rightarrow> string" where
  "kindOf p = last (po_header p telemetryDataHeader)"

definition kindCount :: "string \<Rightarrow> telemetryExtension \<Rightarrow> nat" where
  "kindCount k te = length (filter (\<lambda>p. kindOf p = k) (te_posts te))"

text \<open>The part of a telemetry extension that its turns leave alone.\<close>

definition te_static :: "telemetryExtension \<Rightarrow> string \<times> bytes \<times> bytes \<times> string \<times> teConfig" where
  "te_static te = (te_sourceURL te, te_goEnvBytes te, te_configBytes te, te_uuidStr te, te_cfg te)"

lemma canonicalKey_data: "canonicalKey telemetryDataHeader = telemetryDataHeader"
  by code_simp

lemma te_static_dispatch [simp]: "te_static (dispatch h b d te) = te_static te"
  by (simp add: dispatch_def te_static_def Let_def)

lemma lastCfg_dispatch [simp]: "te_lastCfgPostTime (dispatch h b d te) = te_lastCfgPostTime te"
  by (simp add: dispatch_def Let_def)

lemma kindCount_dispatch:
  "h_validURL h (te_Endpoint (te_cfg te)) \<Longrightarrow>
   kindCount k (dispatch h b d te) = kindCount k te + (if d = k then 1 else 0)"
  by (simp add: dispatch_def kindCount_def kindOf_def header_Add_def canonicalKey_data Let_def)

lemma kindCount_time [simp]: "kindCount k (te\<lparr>te_lastCfgPostTime := t\<rparr>) = kindCount k te"
  by (simp add: kindCount_def)

lemma te_static_time [simp]: "te_static (te\<lparr>te_lastCfgPostTime := t\<rparr>) = te_static te"
  by (simp add: te_static_def)

lemma te_static_cfg: "te_static te = te_static te' \<Longrightarrow> te_cfg te = te_cfg te'"
  by (simp add: te_static_def)

lemma getAndPostMetrics_static [simp]:
  "te_static (getAndPostMetrics h scraped te) = te_static te"
  "te_lastCfgPostTime (getAndPostMetrics h scraped te) = te_lastCfgPostTime te"
  by (simp_all add: getAndPostMetrics_def split: option.split)

lemma collect_static [simp]:
  "te_static (collectAndPostTelemetry h scraped now later te) = te_static te"
  by (simp add: collectAndPostTelemetry_def Let_def)

lemma te_run_static [simp]: "te_static (te_run h ticks te) = te_static te"
  by (induction h ticks te rule: te_run.induct) auto

lemma te_run_append: "te_run h (ticks @ ticks') te = te_run h ticks' (te_run h ticks te)"
  by (induction h ticks te rule: te_run.induct) auto

definition scrapeOk :: "host \<Rightarrow> bytes option \<Rightarrow> bool" where
  "scrapeOk h scraped = (case scraped of None \<Rightarrow> False | Some body \<Rightarrow> h_gzip h body \<noteq> None)"

definition cfgDue :: "int option \<Rightarrow> int \<Rightarrow> bool" where
  "cfgDue lastTime now = (case lastTime of None \<Rightarrow> True | Some t \<Rightarrow> now - t > defaultMinIntervalToPostConfig)"

lemma cfg_getAndPostMetrics [simp]: "te_cfg (getAndPostMetrics h scraped te) = te_cfg te"
  by (rule te_static_cfg) simp

lemma cfg_dispatch [simp]: "te_cfg (dispatch h b d te) = te_cfg te"
  by (rule te_static_cfg) simp

lemma kindCount_metrics:
  assumes "h_validURL h (te_Endpoint (te_cfg te))"
  shows "kindCount k (getAndPostMetrics h scraped te) =
         kindCount k te + (if scrapeOk h scraped \<and> k = ''metrics'' then 1 else 0)"
  using assms by (auto simp: getAndPostMetrics_def scrapeOk_def kindCount_dispatch split: option.split)

text \<open>One turn: what it posts, and when it was last due.\<close>

lemma collect_effect:
  fixes scraped now later
  assumes "h_validURL h (te_Endpoint (te_cfg te))"
  defines "te' \<equiv> collectAndPostTelemetry h scraped now later te"
  shows "kindCount ''metrics'' te' = kindCount ''metrics'' te + (if scrapeOk h scraped then 1 else 0)"
    and "kindCount ''config'' te' = kindCount ''config'' te + (if cfgDue (te_lastCfgPostTime te) now then 1 else 0)"
    and "kindCount ''goenv'' te' = kindCount ''goenv'' te + (if cfgDue (te_lastCfgPostTime te) now then 1 else 0)"
    and "te_lastCfgPostTime te' = (if cfgDue (te_lastCfgPostTime te) now then Some later else te_lastCfgPostTime te)"
  using assms(1)
  by (simp_all add: te'_def collectAndPostTelemetry_def Let_def kindCount_dispatch kindCount_metrics
      cfgDue_def split: option.split)

subsection \<open>Its headers\<close>

text \<open>
  The headers the extension sets itself, in the configuration and, with \<open>Header.Add\<close>, in a request;
  and the configured values that are sent under a name, those of the keys that the extension does not
  overwrite.
\<close>

definition te_reserved :: "string list" where
  "te_reserved = [instanceGitHashHeader, instanceUUIDHeader, instanceVersionHeader, contentEncodingHeader]"

definition configuredHeaders :: "teConfig \<Rightarrow> (string \<times> string) list" where
  "configuredHeaders cfg = (case te_Headers cfg of None \<Rightarrow> [] | Some m \<Rightarrow> m)"

definition configuredUnder :: "teConfig \<Rightarrow> string \<Rightarrow> string list" where
  "configuredUnder cfg name =
     map snd (filter (\<lambda>kv. canonicalKey (fst kv) = name \<and> fst kv \<notin> set te_reserved) (configuredHeaders cfg))"

lemma fold_header_Add:
  "fold (\<lambda>(k, v). header_Add k v) hs header key =
   header key @ map snd (filter (\<lambda>kv. canonicalKey (fst kv) = key) hs)"
  by (induction hs arbitrary: header) (auto simp: header_Add_def)

lemma filter_key:
  "distinct (map fst hs) \<Longrightarrow> map_of hs k = Some v \<Longrightarrow> filter (\<lambda>kv. fst kv = k) hs = [(k, v)]"
  by (induction hs) (auto simp: filter_empty_conv image_iff split: if_splits)

lemma filter_update_other:
  "(\<And>w. \<not> P (k, w)) \<Longrightarrow> filter P (AList.update k v al) = filter P al"
  by (induction al) auto

lemma canonicalKey_reserved:
  "distinct (map canonicalKey (telemetryDataHeader # te_reserved))"
  by code_simp

lemma canonicalKey_reserved_iff:
  "k \<in> set te_reserved \<Longrightarrow> k' \<in> set te_reserved \<Longrightarrow> canonicalKey k = canonicalKey k' \<longleftrightarrow> k = k'"
  using canonicalKey_reserved by (auto simp: distinct_map dest: inj_onD)

lemma instanceHeaders_distinct:
  "distinct (map fst (case hs of None \<Rightarrow> [] | Some m \<Rightarrow> m)) \<Longrightarrow> distinct (map fst (instanceHeaders u hs))"
  by (simp add: instanceHeaders_def distinct_update)

lemma instanceHeaders_values:
  "map_of (instanceHeaders u hs) instanceGitHashHeader = Some GitHash"
  "map_of (instanceHeaders u hs) instanceUUIDHeader = Some u"
  "map_of (instanceHeaders u hs) instanceVersionHeader = Some Version"
  "map_of (instanceHeaders u hs) contentEncodingHeader = Some contentEncodingGZIP"
  by (simp_all add: instanceHeaders_def AList.update_conv' instanceGitHashHeader_def
      instanceUUIDHeader_def instanceVersionHeader_def contentEncodingHeader_def)

lemma instanceHeaders_others:
  "filter (\<lambda>kv. canonicalKey (fst kv) = name \<and> fst kv \<notin> set te_reserved) (instanceHeaders u (te_Headers cfg)) =
   filter (\<lambda>kv. canonicalKey (fst kv) = name \<and> fst kv \<notin> set te_reserved) (configuredHeaders cfg)"
  by (simp add: instanceHeaders_def filter_update_other te_reserved_def configuredHeaders_def)

lemma mset_filter_parts:
  "mset (map snd (filter P al)) =
   mset (map snd (filter (\<lambda>x. P x \<and> fst x \<in> A) al)) + mset (map snd (filter (\<lambda>x. P x \<and> fst x \<notin> A) al))"
  by (induction al) simp_all

lemma reserved_header_sent:
  assumes "distinct (map fst (configuredHeaders cfg))" "k \<in> set te_reserved"
    and "map_of (instanceHeaders u (te_Headers cfg)) k = Some v"
  shows "mset (map snd (filter (\<lambda>kv. canonicalKey (fst kv) = canonicalKey k) (instanceHeaders u (te_Headers cfg)))) =
    add_mset v (mset (configuredUnder cfg (canonicalKey k)))"
proof -
  let ?hs = "instanceHeaders u (te_Headers cfg)"
  have "filter (\<lambda>kv. canonicalKey (fst kv) = canonicalKey k \<and> fst kv \<in> set te_reserved) ?hs =
      filter (\<lambda>kv. fst kv = k) ?hs"
    using canonicalKey_reserved_iff [OF _ assms(2)] assms(2) by (metis (lifting))
  also have "\<dots> = [(k, v)]"
    using assms(1,3) by (intro filter_key instanceHeaders_distinct) (simp_all add: configuredHeaders_def)
  finally show ?thesis
    using mset_filter_parts [of "\<lambda>kv. canonicalKey (fst kv) = canonicalKey k" ?hs "set te_reserved"]
    by (simp add: instanceHeaders_others configuredUnder_def)
qed

lemma other_header_sent:
  assumes "name \<notin> canonicalKey ` set te_reserved"
  shows "map snd (filter (\<lambda>kv. canonicalKey (fst kv) = name) (instanceHeaders u (te_Headers cfg))) =
    configuredUnder cfg name"
proof -
  have "filter (\<lambda>kv. canonicalKey (fst kv) = name) (instanceHeaders u (te_Headers cfg)) =
      filter (\<lambda>kv. canonicalKey (fst kv) = name \<and> fst kv \<notin> set te_reserved) (instanceHeaders u (te_Headers cfg))"
    using assms by (intro filter_cong) auto
  then show ?thesis by (simp add: instanceHeaders_others configuredUnder_def)
qed

text \<open>What a post of the extension that was made from \<open>cfg\<close> on \<open>h\<close> looks like.\<close>

definition te_postOk :: "host \<Rightarrow> teConfig \<Rightarrow> post \<Rightarrow> bool" where
  "te_postOk h cfg p \<longleftrightarrow>
     list_all (\<lambda>(name, own). mset (po_header p name) = add_mset own (mset (configuredUnder cfg name)))
       [(''Content-Encoding'', ''gzip''), (''X-Instance-Uuid'', the (h_uuid h)),
        (''X-Instance-Version'', Version), (''X-Instance-Gitsha'', GitHash)] \<and>
     (\<exists>kind \<in> {''metrics'', ''goenv'', ''config''}.
        po_header p ''X-Telemetry-Data-Type'' = configuredUnder cfg ''X-Telemetry-Data-Type'' @ [kind]) \<and>
     (\<forall>name. name \<notin> {''Content-Encoding'', ''X-Instance-Uuid'', ''X-Instance-Version'', ''X-Instance-Gitsha'',
                     ''X-Telemetry-Data-Type''} \<longrightarrow>
        po_header p name = configuredUnder cfg name) \<and>
     (\<exists>raw. h_gzip h raw = Some (po_body p))"

lemma CreateExtension_cases:
  assumes "CreateExtension h cfg = Inr (Inr te)"
  obtains port cfile yaml where
    "te_Endpoint cfg \<noteq> []" "parseArgs (h_args h) = Inr (port, cfile)" "cfile \<noteq> []"
    "h_validURL h (te_Endpoint cfg)" "h_readFile h cfile = Some yaml"
    "te_sourceURL te = ''http://localhost:'' @ (if port = [] then ''8888'' else port) @ ''/metrics''"
    "h_uuid h = Some (te_uuidStr te)" "h_gzip h (captureGoEnvBytes h) = Some (te_goEnvBytes te)"
    "h_gzip h yaml = Some (te_configBytes te)" "te_lastCfgPostTime te = None"
    "\<not> te_done te" "te_posts te = []"
    "te_cfg te = cfg\<lparr>te_ScrapeInterval := (if te_ScrapeInterval cfg = 0 then defaultScrapeInterval else te_ScrapeInterval cfg),
                    te_Headers := Some (instanceHeaders (te_uuidStr te) (te_Headers cfg))\<rparr>"
  using assms
  by (cases cfg)
    (auto simp: CreateExtension_def newTelemetryExtension_def Let_def split: if_splits sum.splits option.splits prod.splits)

lemma dispatch_posts:
  "te_posts (dispatch h b d te) = te_posts te \<or>
   te_posts (dispatch h b d te) =
     te_posts te @ [\<lparr>po_header = header_Add telemetryDataHeader d
                                (fold (\<lambda>(k, v). header_Add k v)
                                   (case te_Headers (te_cfg te) of None \<Rightarrow> [] | Some m \<Rightarrow> m) (\<lambda>_. [])),
                     po_body = b\<rparr>]"
  by (simp add: dispatch_def Let_def)

text \<open>Every post made while a step of the extension runs is in order.\<close>

definition te_made :: "host \<Rightarrow> teConfig \<Rightarrow> telemetryExtension \<Rightarrow> bool" where
  "te_made h cfg te \<longleftrightarrow>
     distinct (map fst (configuredHeaders cfg)) \<and>
     te_Headers (te_cfg te) = Some (instanceHeaders (the (h_uuid h)) (te_Headers cfg)) \<and>
     (\<exists>raw. h_gzip h raw = Some (te_goEnvBytes te)) \<and>
     (\<exists>raw. h_gzip h raw = Some (te_configBytes te)) \<and>
     list_all (te_postOk h cfg) (te_posts te)"

lemma canonicalKey_values:
  "canonicalKey instanceGitHashHeader = ''X-Instance-Gitsha''"
  "canonicalKey instanceUUIDHeader = ''X-Instance-Uuid''"
  "canonicalKey instanceVersionHeader = ''X-Instance-Version''"
  "canonicalKey contentEncodingHeader = ''Content-Encoding''"
  by code_simp+

lemma te_postOk_dispatch:
  assumes "distinct (map fst (configuredHeaders cfg))" "d \<in> {''metrics'', ''goenv'', ''config''}"
    and "h_gzip h raw = Some b"
  shows "te_postOk h cfg
           \<lparr>po_header = header_Add telemetryDataHeader d
              (fold (\<lambda>(k, v). header_Add k v) (instanceHeaders (the (h_uuid h)) (te_Headers cfg)) (\<lambda>_. [])),
            po_body = b\<rparr>"
    (is "te_postOk h cfg \<lparr>po_header = ?header, po_body = b\<rparr>")
proof -
  have header: "?header name =
      map snd (filter (\<lambda>kv. canonicalKey (fst kv) = name) (instanceHeaders (the (h_uuid h)) (te_Headers cfg))) @
      (if name = telemetryDataHeader then [d] else [])" for name
    by (simp add: header_Add_def canonicalKey_data fold_header_Add)
  have own: "mset (?header (canonicalKey k)) = add_mset v (mset (configuredUnder cfg (canonicalKey k)))"
    if "k \<in> set te_reserved" "map_of (instanceHeaders (the (h_uuid h)) (te_Headers cfg)) k = Some v" for k v
  proof -
    have "canonicalKey k \<noteq> telemetryDataHeader"
      using that(1) canonicalKey_reserved by (auto simp: canonicalKey_data image_iff)
    then show ?thesis using reserved_header_sent [OF assms(1) that] by (simp add: header)
  qed
  have reserved: "instanceGitHashHeader \<in> set te_reserved" "instanceUUIDHeader \<in> set te_reserved"
    "instanceVersionHeader \<in> set te_reserved" "contentEncodingHeader \<in> set te_reserved"
    by (simp_all add: te_reserved_def)
  have names: "canonicalKey ` set te_reserved =
      {''X-Instance-Gitsha'', ''X-Instance-Uuid'', ''X-Instance-Version'', ''Content-Encoding''}"
    by (simp add: te_reserved_def canonicalKey_values)
  have others: "?header name = configuredUnder cfg name @ (if name = telemetryDataHeader then [d] else [])"
    if "name \<notin> canonicalKey ` set te_reserved" for name
    using other_header_sent [OF that] by (simp add: header)
  show ?thesis
    unfolding te_postOk_def post.simps
  proof (intro conjI)
    show "list_all (\<lambda>(name, own). mset (?header name) = add_mset own (mset (configuredUnder cfg name)))
       [(''Content-Encoding'', ''gzip''), (''X-Instance-Uuid'', the (h_uuid h)),
        (''X-Instance-Version'', Version), (''X-Instance-Gitsha'', GitHash)]"
      using own [OF reserved(1) instanceHeaders_values(1)] own [OF reserved(2) instanceHeaders_values(2)]
        own [OF reserved(3) instanceHeaders_values(3)] own [OF reserved(4) instanceHeaders_values(4)]
      by (simp only: canonicalKey_values contentEncodingGZIP_def list.pred_inject prod.case simp_thms)
    have "?header ''X-Telemetry-Data-Type'' = configuredUnder cfg ''X-Telemetry-Data-Type'' @ [d]"
      by (subst others) (simp_all add: names telemetryDataHeader_def)
    with assms(2) show "\<exists>kind \<in> {''metrics'', ''goenv'', ''config''}.
        ?header ''X-Telemetry-Data-Type'' = configuredUnder cfg ''X-Telemetry-Data-Type'' @ [kind]"
      by blast
    show "\<forall>name. name \<notin> {''Content-Encoding'', ''X-Instance-Uuid'', ''X-Instance-Version'', ''X-Instance-Gitsha'',
        ''X-Telemetry-Data-Type''} \<longrightarrow> ?header name = configuredUnder cfg name"
    proof (intro allI impI)
      fix name :: string
      assume "name \<notin> {''Content-Encoding'', ''X-Instance-Uuid'', ''X-Instance-Version'', ''X-Instance-Gitsha'',
        ''X-Telemetry-Data-Type''}"
      then show "?header name = configuredUnder cfg name"
        by (subst others) (simp_all add: names telemetryDataHeader_def)
    qed
    show "\<exists>raw. h_gzip h raw = Some b" using assms(3) by blast
  qed
qed

lemma te_made_dispatch:
  assumes "te_made h cfg te" "d \<in> {''metrics'', ''goenv'', ''config''}" "h_gzip h raw = Some b"
  shows "te_made h cfg (dispatch h b d te)"
proof -
  have "te_static (dispatch h b d te) = te_static te"
    by simp
  then show ?thesis
    using assms dispatch_posts [of h b d te] te_postOk_dispatch [of cfg d h raw b]
    by (auto simp: te_made_def te_static_def)
qed

lemma te_made_time: "te_made h cfg te \<Longrightarrow> te_made h cfg (te\<lparr>te_lastCfgPostTime := t\<rparr>)"
  by (simp add: te_made_def)

lemma te_made_collect:
  assumes "te_made h cfg te"
  shows "te_made h cfg (collectAndPostTelemetry h scraped now later te)"
proof -
  define te1 where "te1 = getAndPostMetrics h scraped te"
  have made: "te_made h cfg te1"
    using assms by (auto simp: te1_def getAndPostMetrics_def intro: te_made_dispatch split: option.split)
  then obtain r1 r2 where raw: "h_gzip h r1 = Some (te_goEnvBytes te1)" "h_gzip h r2 = Some (te_configBytes te1)"
    by (auto simp: te_made_def)
  have "te_made h cfg (dispatch h (te_configBytes te1) ''config'' (dispatch h (te_goEnvBytes te1) ''goenv'' te1))"
    by (intro te_made_dispatch [OF _ _ raw(2)] te_made_dispatch [OF made _ raw(1)]) simp_all
  then show ?thesis
    using made te_made_time by (auto simp: collectAndPostTelemetry_def te1_def [symmetric] Let_def)
qed

lemma te_made_run: "te_made h cfg te \<Longrightarrow> te_made h cfg (te_run h ticks te)"
  by (induction h ticks te rule: te_run.induct) (simp_all add: te_made_collect)

lemma te_made_create:
  assumes "CreateExtension h cfg = Inr (Inr te)" "distinct (map fst (configuredHeaders cfg))"
  shows "te_made h cfg te"
  using assms(1) by (rule CreateExtension_cases) (use assms(2) in \<open>auto simp: te_made_def\<close>)

text \<open>A host and a configuration for the instances below; this \<open>gzip\<close> puts a mark before the bytes.\<close>

definition demo_host :: host where
  "demo_host =
     \<lparr>h_args = [''--config=c.yaml''], h_validURL = (\<lambda>_. True), h_uuid = Some ''4f'',
      h_gzipWrite = (\<lambda>b. Some (31 # b)), h_gzipClose = Some, h_getenv = (\<lambda>_. []), h_goos = ''linux'', h_goarch = ''amd64'',
      h_readFile = (\<lambda>_. Some [1])\<rparr>"

definition demo_config :: teConfig where
  "demo_config = \<lparr>te_TypeVal = te_typeStr, te_NameVal = ''telemetry/demo'', te_Endpoint = ''http://t'', te_Headers = Some [(''x-token'', ''s''), (''x-instance-uuid'', ''mine'')], te_ScrapeInterval = 0\<rparr>"

text \<open>
  C39: What the extension posts. Every request it posts, in any sequence of turns, carries, under
  each name it sets itself (the encoding \<open>gzip\<close>, the instance's UUID, the version and, under the
  canonical name \<open>X-Instance-Gitsha\<close>, the git hash), its own value once and beside it only the values
  of configured headers with another spelling of that name, which \<open>Header.Add\<close> puts under the same
  name: exactly once, then, when no such spelling is configured. The data type header ends with
  \<open>metrics\<close>, \<open>goenv\<close> or \<open>config\<close>, after what was configured under its name, the other
  configured headers are sent as they are, and the body is the output of \<open>gzip\<close>. The keys of the
  configuration are distinct, as those of a map are.
\<close>
theorem telemetry_posts_wellformed:
  assumes "CreateExtension h cfg = Inr (Inr te)" "distinct (map fst (configuredHeaders cfg))"
    and "p \<in> set (te_posts (te_run h ticks te))"
  shows "te_postOk h cfg p"
  using te_made_run [OF te_made_create [OF assms(1,2)], of ticks] assms(3)
  by (simp add: te_made_def list_all_iff)

text \<open>
  The demonstration configuration has a header of its own and \<open>x-instance-uuid\<close> in lower case: the
  UUID is sent twice, every other header once.
\<close>

lemma demo_configured:
  "distinct (map fst (configuredHeaders demo_config))"
  "configuredUnder demo_config ''X-Instance-Uuid'' = [''mine'']"
  "configuredUnder demo_config ''Content-Encoding'' = []"
  "configuredUnder demo_config ''X-Token'' = [''s'']"
  by code_simp+

lemma telemetry_posts_wellformed_witness:
  "let te = projr (projr (CreateExtension demo_host demo_config));
       p = te_posts (te_run demo_host [(Some [7], 5, 6)] te) ! 0
   in po_body p = [31, 7] \<and> mset (po_header p ''X-Instance-Uuid'') = {#''4f'', ''mine''#} \<and>
      mset (po_header p ''Content-Encoding'') = {#''gzip''#} \<and> po_header p ''X-Token'' = [''s'']"
proof -
  define te where "te = projr (projr (CreateExtension demo_host demo_config))"
  have te: "CreateExtension demo_host demo_config = Inr (Inr te)"
    by (simp add: te_def CreateExtension_def newTelemetryExtension_def demo_host_def demo_config_def h_gzip_def gzipBytes_def
        parseArgs_def cli_flags parseSingleFlag_def Let_def)
  define p where "p = te_posts (te_run demo_host [(Some [7], 5, 6)] te) ! 0"
  have posts: "map po_body (te_posts (te_run demo_host [(Some [7], 5, 6)] te)) =
      [[31, 7], te_goEnvBytes te, te_configBytes te]"
    using te by (rule CreateExtension_cases)
      (simp add: collectAndPostTelemetry_def getAndPostMetrics_def dispatch_def demo_host_def h_gzip_def gzipBytes_def Let_def)
  then have n: "0 < length (te_posts (te_run demo_host [(Some [7], 5, 6)] te))"
    by (metis length_map length_greater_0_conv list.distinct(1))
  with posts have body: "po_body p = [31, 7]"
    by (metis p_def nth_Cons_0 nth_map)
  have "te_postOk demo_host demo_config p"
    unfolding p_def by (rule telemetry_posts_wellformed [OF te demo_configured(1) nth_mem [OF n]])
  then have "mset (po_header p ''X-Instance-Uuid'') = {#''4f'', ''mine''#}"
    "mset (po_header p ''Content-Encoding'') = {#''gzip''#}" "po_header p ''X-Token'' = [''s'']"
    by (simp_all add: te_postOk_def demo_configured demo_host_def)
  with body show ?thesis by (simp only: te_def [symmetric] p_def [symmetric] Let_def simp_thms)
qed

definition te_times :: "(bytes option \<times> int \<times> int) list \<Rightarrow> int list" where
  "te_times ticks = concat (map (\<lambda>(_, now, later). [now, later]) ticks)"

lemma te_times_append: "te_times (ticks @ [(scraped, now, later)]) = te_times ticks @ [now, later]"
  by (simp add: te_times_def)

lemma te_times_ne: "ticks \<noteq> [] \<Longrightarrow> te_times ticks \<noteq> []"
  by (cases ticks) (auto simp: te_times_def)

text \<open>After at least one turn: the configuration was posted \<open>Suc n\<close> times, most recently at \<open>t\<close>.\<close>

lemma config_rate_turn:
  assumes "h_validURL h (te_Endpoint (te_cfg te))" "te_lastCfgPostTime te = Some t"
    and "kindCount ''config'' te = Suc n" "kindCount ''goenv'' te = Suc n"
    and "int n * defaultMinIntervalToPostConfig \<le> t - start" "t \<le> now" "now \<le> later"
  shows "\<exists>n t. te_lastCfgPostTime (collectAndPostTelemetry h scraped now later te) = Some t \<and>
           kindCount ''config'' (collectAndPostTelemetry h scraped now later te) = Suc n \<and>
           kindCount ''goenv'' (collectAndPostTelemetry h scraped now later te) = Suc n \<and>
           int n * defaultMinIntervalToPostConfig \<le> t - start \<and>
           t \<le> later \<and> now - t \<le> defaultMinIntervalToPostConfig"
proof (cases "cfgDue (Some t) now")
  case True
  then have "defaultMinIntervalToPostConfig < now - t"
    by (simp add: cfgDue_def)
  then have "int (Suc n) * defaultMinIntervalToPostConfig \<le> later - start"
    using assms(5,7) by (simp add: algebra_simps)
  moreover have "now - later \<le> defaultMinIntervalToPostConfig"
    using assms(7) by (simp add: defaultMinIntervalToPostConfig_def second_def)
  ultimately show ?thesis
    using True collect_effect [OF assms(1)] assms(2-4)
    by (intro exI [of _ "Suc n"] exI [of _ later]) simp
next
  case False
  then have "now - t \<le> defaultMinIntervalToPostConfig"
    by (simp add: cfgDue_def)
  then show ?thesis
    using False collect_effect [OF assms(1)] assms(2-7)
    by (intro exI [of _ n] exI [of _ t]) simp
qed

lemma config_rate:
  assumes "h_validURL h (te_Endpoint (te_cfg te))" "te_lastCfgPostTime te = None"
    and "kindCount ''config'' te = 0" "kindCount ''goenv'' te = 0"
    and "ticks \<noteq> []" "sorted (te_times ticks)"
  shows "\<exists>n t. te_lastCfgPostTime (te_run h ticks te) = Some t \<and>
           kindCount ''config'' (te_run h ticks te) = Suc n \<and> kindCount ''goenv'' (te_run h ticks te) = Suc n \<and>
           int n * defaultMinIntervalToPostConfig \<le> t - hd (te_times ticks) \<and>
           t \<le> last (te_times ticks) \<and> fst (snd (last ticks)) - t \<le> defaultMinIntervalToPostConfig"
  using assms(5,6)
proof (induction ticks rule: rev_induct)
  case (snoc tick ticks)
  obtain scraped now later where tick: "tick = (scraped, now, later)"
    by (cases tick)
  have "te_cfg (te_run h ticks te) = te_cfg te" by (rule te_static_cfg) simp
  with assms(1) have valid: "h_validURL h (te_Endpoint (te_cfg (te_run h ticks te)))" by simp
  have run: "te_run h (ticks @ [(scraped, now, later)]) te = collectAndPostTelemetry h scraped now later (te_run h ticks te)"
    by (simp add: te_run_append)
  have sorted: "sorted (te_times ticks)" "now \<le> later" "\<forall>x\<in>set (te_times ticks). x \<le> now"
    using snoc.prems(2) by (simp_all add: tick te_times_append sorted_append)
  show ?case
  proof (cases "ticks = []")
    case True
    have times: "te_times [(scraped, now, later)] = [now, later]"
      by (simp add: te_times_def)
    show ?thesis
      using True collect_effect [OF valid, of scraped now later] assms(2-4) sorted(2) run
      by (simp add: times tick cfgDue_def defaultMinIntervalToPostConfig_def second_def)
  next
    case False
    with snoc.IH sorted(1) obtain n t where IH: "te_lastCfgPostTime (te_run h ticks te) = Some t"
      "kindCount ''config'' (te_run h ticks te) = Suc n" "kindCount ''goenv'' (te_run h ticks te) = Suc n"
      "int n * defaultMinIntervalToPostConfig \<le> t - hd (te_times ticks)" "t \<le> last (te_times ticks)"
      by blast
    have "t \<le> now"
      using IH(5) sorted(3) te_times_ne [OF False] by (meson last_in_set order_trans)
    from config_rate_turn [OF valid IH(1-4) this sorted(2), of scraped] show ?thesis
      using te_times_ne [OF False] by (simp add: run tick te_times_append)
  qed
qed simp

lemma metrics_posted:
  assumes "h_validURL h (te_Endpoint (te_cfg te))"
  shows "kindCount ''metrics'' (te_run h ticks te) =
         kindCount ''metrics'' te + length (filter (\<lambda>(scraped, _). scrapeOk h scraped) ticks)"
  using assms
proof (induction ticks arbitrary: te)
  case (Cons tick ticks)
  obtain scraped now later where tick: "tick = (scraped, now, later)"
    by (cases tick)
  have "te_cfg (collectAndPostTelemetry h scraped now later te) = te_cfg te"
    by (rule te_static_cfg) simp
  then show ?case
    using Cons collect_effect(1) [OF Cons.prems] by (simp add: tick)
qed simp

text \<open>
  C40: How often the extension posts. Over any sequence of turns with times that do not go back, it
  posts the metrics once for each turn whose scrape succeeded; the Go environment and the configuration
  are posted equally often, at the first turn, then at most once in 180 seconds (so at most one time more
  than the elapsed time holds such intervals), and no turn ends with a configuration posted longer ago
  than that.
\<close>
theorem telemetry_rate:
  assumes "CreateExtension h cfg = Inr (Inr te)" "ticks \<noteq> []" "sorted (te_times ticks)"
  defines "te' \<equiv> te_run h ticks te"
  shows "kindCount ''metrics'' te' = length (filter (\<lambda>(scraped, _). scrapeOk h scraped) ticks) \<and>
         kindCount ''goenv'' te' = kindCount ''config'' te' \<and> 1 \<le> kindCount ''config'' te' \<and>
         (int (kindCount ''config'' te') - 1) * (180 * second) \<le> last (te_times ticks) - hd (te_times ticks) \<and>
         (\<exists>t. te_lastCfgPostTime te' = Some t \<and> fst (snd (last ticks)) - t \<le> 180 * second)"
proof -
  have "h_validURL h (te_Endpoint (te_cfg te)) \<and> te_lastCfgPostTime te = None \<and> te_posts te = []"
    using assms(1) by (rule CreateExtension_cases) simp
  then have valid: "h_validURL h (te_Endpoint (te_cfg te))" and none: "te_lastCfgPostTime te = None"
    and start: "kindCount k te = 0" for k
    by (simp_all add: kindCount_def)
  show ?thesis
    using config_rate [OF valid none start start assms(2,3)] metrics_posted [OF valid, of ticks] start
    by (auto simp: te'_def defaultMinIntervalToPostConfig_def)
qed

lemma telemetry_rate_witness:
  "let te = projr (projr (CreateExtension demo_host demo_config));
       te' = te_run demo_host [(Some [7], 5, 6), (None, 200 * second, 200 * second + 1)] te
   in kindCount ''metrics'' te' = 1 \<and> kindCount ''goenv'' te' = kindCount ''config'' te' \<and>
      1 \<le> kindCount ''config'' te' \<and> kindCount ''config'' te' < 3"
proof -
  define te where "te = projr (projr (CreateExtension demo_host demo_config))"
  have te: "CreateExtension demo_host demo_config = Inr (Inr te)"
    by (simp add: te_def CreateExtension_def newTelemetryExtension_def demo_host_def demo_config_def h_gzip_def gzipBytes_def
        parseArgs_def cli_flags parseSingleFlag_def Let_def)
  have ok: "scrapeOk demo_host (Some [7])" "\<not> scrapeOk demo_host None"
    by (simp_all add: scrapeOk_def demo_host_def h_gzip_def gzipBytes_def)
  show ?thesis
    unfolding Let_def te_def [symmetric]
    using telemetry_rate [OF te, of "[(Some [7], 5, 6), (None, 200 * second, 200 * second + 1)]"] ok
    by (simp add: te_times_def second_def del: te_run.simps)
qed

text \<open>
  Starting an extension panics only for a negative interval, as zero was replaced by the default;
  it can be shut down once.
\<close>

lemma te_lifecycle:
  assumes "CreateExtension h cfg = Inr (Inr te)"
  shows "te_Start te = (if te_ScrapeInterval cfg < 0 then Some NonPositiveTicker else None) \<and>
         (\<exists>te'. te_Shutdown te = Inr te' \<and> te_Shutdown te' = Inl CloseOfClosedChannel)"
proof -
  have "te_ScrapeInterval (te_cfg te) = (if te_ScrapeInterval cfg = 0 then defaultScrapeInterval else te_ScrapeInterval cfg)
      \<and> \<not> te_done te"
    using assms by (rule CreateExtension_cases) simp
  then show ?thesis
    by (simp add: te_Start_def te_Shutdown_def close_signal_def defaultScrapeInterval_def second_def)
qed

lemma CreateExtension_needs_config:
  "te_Endpoint cfg \<noteq> [] \<Longrightarrow> parseArgs (h_args h) = Inr (port, []) \<Longrightarrow>
   CreateExtension h cfg = Inr (Inl MissingConfigFile)"
  by (simp add: CreateExtension_def newTelemetryExtension_def)

end
