(* ===== verification/Startup.thy ===== *)
theory Startup
  imports Exporter OCReceiver OCExporter MemoryMonitor Telemetry
begin

text \<open>
  What the program does at the start (\<open>cmd/omnitelsvc\<close>): it registers the factories of this repository
  and of the collector under their types, and runs the service with them.

  The collector is not in the repository: the \<open>Build\<close> function of each kind of factory, the types of its
  own factories, combining errors, and the service are parameters. A factory is named after its
  package.
\<close>

section \<open>Factories\<close>

datatype factory =
    OpenCensusReceiver
  | MemoryMonitorReceiver
  | OpenCensusExporter
  | OmniShardExporter
  | TelemetryExtension
  | Foreign string

text \<open>The method \<open>Type\<close>; \<open>foreignType\<close> yields that of a factory that is not in the repository.\<close>

fun factory_Type :: "(string \<Rightarrow> string) \<Rightarrow> factory \<Rightarrow> string" where
  "factory_Type foreignType OpenCensusReceiver = oc_Type"
| "factory_Type foreignType MemoryMonitorReceiver = mm_Type"
| "factory_Type foreignType OpenCensusExporter = oe_Type"
| "factory_Type foreignType OmniShardExporter = omnishard_Type"
| "factory_Type foreignType TelemetryExtension = te_Type"
| "factory_Type foreignType (Foreign package) = foreignType package"

datatype dataTypeError = ErrDataTypeIsNotSupported

text \<open>Memory is no source of traces, and OmniShard takes no metrics.\<close>

definition mm_CreateTraceReceiver :: "mmConfig \<Rightarrow> dataTypeError + unit" where
  "mm_CreateTraceReceiver cfg = Inl ErrDataTypeIsNotSupported"

definition omnishard_CreateMetricsExporter :: "'cfg \<Rightarrow> dataTypeError + unit" where
  "omnishard_CreateMetricsExporter cfg = Inl ErrDataTypeIsNotSupported"

text \<open>The default configurations name the type of their factory; that of OmniShard leaves it to the collector.\<close>

lemmas factory_types =
  oc_Type_def oc_typeStr_def mm_Type_def mm_typeStr_def oe_Type_def omnishard_Type_def omnishard_typeStr_def
  te_Type_def te_typeStr_def

lemma default_config_types:
  "oc_TypeVal oc_CreateDefaultConfig = factory_Type foreignType OpenCensusReceiver"
  "mm_TypeVal mm_CreateDefaultConfig = factory_Type foreignType MemoryMonitorReceiver"
  "te_TypeVal te_CreateDefaultConfig = factory_Type foreignType TelemetryExtension"
  by (simp_all add: oc_CreateDefaultConfig_def mm_CreateDefaultConfig_def te_CreateDefaultConfig_def
      oc_Type_def mm_Type_def te_Type_def)

section \<open>Components\<close>

definition receiverFactories :: "factory list" where
  "receiverFactories =
     [Foreign ''jaegerreceiver'', Foreign ''zipkinreceiver'', Foreign ''zipkinscribereceiver'',
      OpenCensusReceiver, MemoryMonitorReceiver, Foreign ''sapmreceiver'',
      Foreign ''prometheusreceiver'', Foreign ''signalfxreceiver'']"

definition exporterFactories :: "factory list" where
  "exporterFactories =
     [OpenCensusExporter, Foreign ''prometheusexporter'', Foreign ''loggingexporter'',
      Foreign ''jaegergrpcexporter'', Foreign ''jaegerthrifthttpexporter'', Foreign ''zipkinexporter'',
      Foreign ''kinesisexporter'', OmniShardExporter, Foreign ''signalfxexporter'', Foreign ''sapmexporter'']"

definition processorFactories :: "factory list" where
  "processorFactories =
     [Foreign ''attributesprocessor'', Foreign ''k8sprocessor'', Foreign ''queuedprocessor'',
      Foreign ''batchprocessor'', Foreign ''memorylimiter'', Foreign ''probabilisticsamplerprocessor'',
      Foreign ''spanprocessor'']"

definition extensionFactories :: "factory list" where
  "extensionFactories =
     [Foreign ''healthcheckextension'', Foreign ''pprofextension'', TelemetryExtension,
      Foreign ''zpagesextension'']"

record factories =
  fa_Receivers :: "string \<Rightarrow> factory option"
  fa_Processors :: "string \<Rightarrow> factory option"
  fa_Exporters :: "string \<Rightarrow> factory option"
  fa_Extensions :: "string \<Rightarrow> factory option"

definition errorList :: "'e option \<Rightarrow> 'e list" where
  "errorList err = (case err of None \<Rightarrow> [] | Some e \<Rightarrow> [e])"

definition components ::
  "(factory list \<Rightarrow> (string \<Rightarrow> factory option) \<times> 'e option) \<Rightarrow> ('e list \<Rightarrow> 'e option) \<Rightarrow> factories \<times> 'e option" where
  "components Build CombineErrors =
     (case Build receiverFactories of (receivers, err1) \<Rightarrow>
      case Build exporterFactories of (exporters, err2) \<Rightarrow>
      case Build processorFactories of (processors, err3) \<Rightarrow>
      case Build extensionFactories of (extensions, err4) \<Rightarrow>
        (\<lparr>fa_Receivers = receivers, fa_Processors = processors, fa_Exporters = exporters,
          fa_Extensions = extensions\<rparr>,
         CombineErrors (errorList err1 @ errorList err2 @ errorList err3 @ errorList err4)))"

section \<open>The program\<close>

text \<open>\<open>log.Fatalf\<close> ends the program.\<close>

datatype 'e programEnd = Fatal 'e | ServiceEnded

record startInfo =
  si_ExeName :: string
  si_LongName :: string
  si_Version :: string
  si_GitHash :: string

definition program_main ::
  "(factory list \<Rightarrow> (string \<Rightarrow> factory option) \<times> 'e option) \<Rightarrow> ('e list \<Rightarrow> 'e option) \<Rightarrow>
     (factories \<Rightarrow> startInfo \<Rightarrow> 'e + 'svc) \<Rightarrow> ('svc \<Rightarrow> 'e option) \<Rightarrow> 'e programEnd" where
  "program_main Build CombineErrors service_New service_Start =
     (case components Build CombineErrors of
        (factories, Some err) \<Rightarrow> Fatal err
      | (factories, None) \<Rightarrow>
          let info = \<lparr>si_ExeName = ''omnitelsvc'', si_LongName = ''Omnition OpenTelemetry Service'',
                      si_Version = Version, si_GitHash = GitHash\<rparr>
          in (case service_New factories info of
                Inl err \<Rightarrow> Fatal err
              | Inr svc \<Rightarrow> (case service_Start svc of Some err \<Rightarrow> Fatal err | None \<Rightarrow> ServiceEnded)))"

section \<open>What a configuration file can name\<close>

text \<open>
  What the collector's \<open>Build\<close> promises: factories of distinct types are registered, each under its
  type, without an error; and no errors combine to none.
\<close>

definition build_promise ::
  "(string \<Rightarrow> string) \<Rightarrow> (factory list \<Rightarrow> (string \<Rightarrow> factory option) \<times> 'e option) \<Rightarrow> bool" where
  "build_promise foreignType Build \<longleftrightarrow>
     (\<forall>fs. distinct (map (factory_Type foreignType) fs) \<longrightarrow>
        snd (Build fs) = None \<and> (\<forall>f\<in>set fs. fst (Build fs) (factory_Type foreignType f) = Some f))"

text \<open>The types of the foreign factories of one kind differ from each other and from those of this repository.\<close>

definition types_free :: "(string \<Rightarrow> string) \<Rightarrow> bool" where
  "types_free foreignType \<longleftrightarrow>
     list_all (\<lambda>fs. distinct (map (factory_Type foreignType) fs))
       [receiverFactories, exporterFactories, processorFactories, extensionFactories]"

lemma components_found:
  assumes "build_promise foreignType Build" "types_free foreignType" "CombineErrors [] = None"
  obtains fa where "components Build CombineErrors = (fa, None)"
    "fa_Receivers fa ''opencensus'' = Some OpenCensusReceiver"
    "fa_Receivers fa ''memorymonitor'' = Some MemoryMonitorReceiver"
    "fa_Exporters fa ''opencensus'' = Some OpenCensusExporter"
    "fa_Exporters fa ''omnishard'' = Some OmniShardExporter"
    "fa_Extensions fa ''telemetry'' = Some TelemetryExtension"
proof -
  have built: "snd (Build fs) = None" "\<And>f. f \<in> set fs \<Longrightarrow> fst (Build fs) (factory_Type foreignType f) = Some f"
    if "fs \<in> {receiverFactories, exporterFactories, processorFactories, extensionFactories}" for fs
    using that assms(1,2) by (auto simp: build_promise_def types_free_def)
  show thesis
  proof (rule that)
    let ?fa = "\<lparr>fa_Receivers = fst (Build receiverFactories), fa_Processors = fst (Build processorFactories),
        fa_Exporters = fst (Build exporterFactories), fa_Extensions = fst (Build extensionFactories)\<rparr>"
    show "components Build CombineErrors = (?fa, None)"
      using built(1) assms(3) by (simp add: components_def errorList_def case_prod_beta)
    show "fa_Receivers ?fa ''opencensus'' = Some OpenCensusReceiver"
      using built(2) [of receiverFactories OpenCensusReceiver] by (simp add: receiverFactories_def factory_types)
    show "fa_Receivers ?fa ''memorymonitor'' = Some MemoryMonitorReceiver"
      using built(2) [of receiverFactories MemoryMonitorReceiver] by (simp add: receiverFactories_def factory_types)
    show "fa_Exporters ?fa ''opencensus'' = Some OpenCensusExporter"
      using built(2) [of exporterFactories OpenCensusExporter] by (simp add: exporterFactories_def factory_types)
    show "fa_Exporters ?fa ''omnishard'' = Some OmniShardExporter"
      using built(2) [of exporterFactories OmniShardExporter] by (simp add: exporterFactories_def factory_types)
    show "fa_Extensions ?fa ''telemetry'' = Some TelemetryExtension"
      using built(2) [of extensionFactories TelemetryExtension] by (simp add: extensionFactories_def factory_types)
  qed
qed

text \<open>The program fails for the reason its first failing stage gives.\<close>

lemma program_main_outcome:
  assumes "build_promise foreignType Build" "types_free foreignType" "CombineErrors [] = None"
  shows "\<exists>fa. fa_Exporters fa ''omnishard'' = Some OmniShardExporter \<and>
     program_main Build CombineErrors service_New service_Start =
       (case service_New fa \<lparr>si_ExeName = ''omnitelsvc'', si_LongName = ''Omnition OpenTelemetry Service'',
               si_Version = ''latest'', si_GitHash = ''<NOT PROPERLY GENERATED>''\<rparr> of
          Inl err \<Rightarrow> Fatal err
        | Inr svc \<Rightarrow> (case service_Start svc of Some err \<Rightarrow> Fatal err | None \<Rightarrow> ServiceEnded))"
  using assms
  by (rule components_found) (auto simp: program_main_def Version_def GitHash_def Let_def)

text \<open>An instance of the promise and of the types.\<close>

lemma build_promise_possible:
  "build_promise (\<lambda>p. p) (\<lambda>fs. (map_of (map (\<lambda>f. (factory_Type (\<lambda>p. p) f, f)) fs), None :: unit option)) \<and>
   types_free (\<lambda>p. p)"
proof
  show "types_free (\<lambda>p. p)" by code_simp
  show "build_promise (\<lambda>p. p) (\<lambda>fs. (map_of (map (\<lambda>f. (factory_Type (\<lambda>p. p) f, f)) fs), None :: unit option))"
    unfolding build_promise_def
    by (auto intro!: map_of_is_SomeI simp: comp_def)
qed

text \<open>An extension without an endpoint, as in its default configuration, is refused.\<close>

lemma default_extension_refused: "CreateExtension h te_CreateDefaultConfig = Inr (Inl MissingEndpoint)"
  by (simp add: CreateExtension_def te_CreateDefaultConfig_def)

end
